(* ===== verification/Prelude.thy ===== *)
theory Prelude
  imports Main "HOL-Library.Word" "HOL-Library.AList" "HOL-Library.Monad_Syntax"
    "HOL-Library.Multiset" "HOL-Library.Signed_Division"
begin

text \<open>
  Shared vocabulary of the development: the machine types of the Rust crate, its error type, the
  arithmetic of the standard library (saturating, checked, truncating), big-endian integers, and
  \<^verbatim>\<open>std::collections::HashMap\<close> as an association list with distinct keys, together with the
  interface (a locale) the components use it through.

  Conventions.
  \<^item> \<^verbatim>\<open>u8/u16/u32/u64\<close> are words of that width. \<^verbatim>\<open>i64\<close> values are \<open>int\<close>s, and every operation
    of the source that can leave the range of \<^verbatim>\<open>i64\<close> is written with its saturation or check.
  \<^item> \<^verbatim>\<open>Result<T>\<close> is the sum \<open>core_error + 'a\<close>.
  \<^item> Plain \<^verbatim>\<open>+\<close>, \<^verbatim>\<open>-\<close>, \<^verbatim>\<open>*\<close> on machine integers are the checked operations \<open>chk_add\<close>,
    \<open>chk_sub\<close>, \<open>i64_chk\<close>: \<open>None\<close> is the overflow panic of a build with overflow checks. Where
    the value is \<open>Some\<close>, a build without the checks computes the same number.
  \<^item> Fixed-size arrays are byte lists; the length is a well-formedness condition of the record
    that holds them.
\<close>

unbundle bit_operations_syntax

section \<open>Types\<close>

type_synonym u8 = "8 word"
type_synonym u16 = "16 word"
type_synonym u32 = "32 word"
type_synonym u64 = "64 word"
type_synonym bytes = "8 word list"

text \<open>\<^verbatim>\<open>lib.rs\<close>: \<^verbatim>\<open>CoreError\<close>, one constructor per variant.\<close>

datatype core_error =
    Entropy string
  | Crypto string
  | Cbor string
  | Db string
  | Io string
  | Config string
  | IdentityChanged string

type_synonym 'a result = "core_error + 'a"

text \<open>The \<^verbatim>\<open>?\<close> operator, and \<^verbatim>\<open>map_err\<close> of a library result into one error class.\<close>

text \<open>\<^verbatim>\<open>Result::unwrap\<close> and \<^verbatim>\<open>expect\<close>: \<open>None\<close> is the panic.\<close>

fun unwrap :: "'e + 'a \<Rightarrow> 'a option" where
  "unwrap (Inl e) = None"
| "unwrap (Inr x) = Some x"

text \<open>\<^verbatim>\<open>assert!\<close>: a panic unless the condition holds.\<close>

definition require :: "bool \<Rightarrow> unit option" where
  "require b = (if b then Some () else None)"

definition try_res :: "'e + 'a \<Rightarrow> ('a \<Rightarrow> 'e + 'b) \<Rightarrow> 'e + 'b" where
  "try_res r f = (case r of Inl e \<Rightarrow> Inl e | Inr x \<Rightarrow> f x)"

definition map_err :: "('d \<Rightarrow> 'e) \<Rightarrow> 'd + 'a \<Rightarrow> 'e + 'a" where
  "map_err g r = (case r of Inl d \<Rightarrow> Inl (g d) | Inr x \<Rightarrow> Inr x)"

text \<open>The outcome of one call that only reports a failure: \<open>Some m\<close> is the failure message.\<close>

definition guard_fault :: "(string \<Rightarrow> 'e) \<Rightarrow> string option \<Rightarrow> 'e + unit" where
  "guard_fault g f = (case f of None \<Rightarrow> Inr () | Some m \<Rightarrow> Inl (g m))"

section \<open>Arithmetic of the standard library\<close>

definition sat_add :: "'a::len word \<Rightarrow> 'a word \<Rightarrow> 'a word" where
  "sat_add a b = (if unat a + unat b < 2 ^ LENGTH('a) then a + b else - 1)"

definition sat_sub :: "'a::len word \<Rightarrow> 'a word \<Rightarrow> 'a word" where
  "sat_sub a b = (if b \<le> a then a - b else 0)"

definition sat_mul :: "'a::len word \<Rightarrow> 'a word \<Rightarrow> 'a word" where
  "sat_mul a b = (if unat a * unat b < 2 ^ LENGTH('a) then a * b else - 1)"

definition chk_add :: "'a::len word \<Rightarrow> 'a word \<Rightarrow> 'a word option" where
  "chk_add a b = (if unat a + unat b < 2 ^ LENGTH('a) then Some (a + b) else None)"

definition chk_sub :: "'a::len word \<Rightarrow> 'a word \<Rightarrow> 'a word option" where
  "chk_sub a b = (if b \<le> a then Some (a - b) else None)"

definition i64_min :: int where "i64_min = - (2 ^ 63)"

definition i64_max :: int where "i64_max = 2 ^ 63 - 1"

definition in_i64 :: "int \<Rightarrow> bool" where
  "in_i64 x \<longleftrightarrow> i64_min \<le> x \<and> x \<le> i64_max"

definition i64_sat :: "int \<Rightarrow> int" where
  "i64_sat x = max i64_min (min i64_max x)"

definition i64_chk :: "int \<Rightarrow> int option" where
  "i64_chk x = (if in_i64 x then Some x else None)"

text \<open>\<^verbatim>\<open>v as i64\<close> of a \<^verbatim>\<open>u64\<close>: two's complement reinterpretation.\<close>

definition u64_as_i64 :: "u64 \<Rightarrow> int" where
  "u64_as_i64 w = (if uint w < 2 ^ 63 then uint w else uint w - 2 ^ 64)"

definition i64_as_u64 :: "int \<Rightarrow> u64" where
  "i64_as_u64 x = word_of_int x"

definition clamp_int :: "int \<Rightarrow> int \<Rightarrow> int \<Rightarrow> int" where
  "clamp_int lo hi x = (if x < lo then lo else if x > hi then hi else x)"

section \<open>Big-endian integers\<close>

fun be_bytes :: "nat \<Rightarrow> nat \<Rightarrow> bytes" where
  "be_bytes 0 n = []"
| "be_bytes (Suc k) n = of_nat (n div 256 ^ k) # be_bytes k n"

definition from_be :: "bytes \<Rightarrow> nat" where
  "from_be bs = foldl (\<lambda>a b. a * 256 + unat b) 0 bs"

definition u16_be :: "u16 \<Rightarrow> bytes" where "u16_be w = be_bytes 2 (unat w)"

definition u32_be :: "u32 \<Rightarrow> bytes" where "u32_be w = be_bytes 4 (unat w)"

definition u64_be :: "u64 \<Rightarrow> bytes" where "u64_be w = be_bytes 8 (unat w)"

text \<open>A Rust byte string literal: the ASCII codes of its characters.\<close>

definition ascii :: "string \<Rightarrow> bytes" where
  "ascii s = map of_char s"

text \<open>
  The constant-time comparison of two tags: \<^verbatim>\<open>fold(0, |acc, (a, b)| acc | (a ^ b))\<close> over
  the zipped bytes.
\<close>

definition ct_diff :: "bytes \<Rightarrow> bytes \<Rightarrow> u8" where
  "ct_diff xs ys = foldl (\<lambda>acc (a, b). acc OR (a XOR b)) 0 (zip xs ys)"

section \<open>HashMap\<close>

type_synonym ('k, 'v) hmap = "('k \<times> 'v) list"

definition hm_get :: "('k, 'v) hmap \<Rightarrow> 'k \<Rightarrow> 'v option" where
  "hm_get m k = map_of m k"

definition hm_contains :: "('k, 'v) hmap \<Rightarrow> 'k \<Rightarrow> bool" where
  "hm_contains m k \<longleftrightarrow> hm_get m k \<noteq> None"

definition hm_insert :: "'k \<Rightarrow> 'v \<Rightarrow> ('k, 'v) hmap \<Rightarrow> ('k, 'v) hmap" where
  "hm_insert k v m = AList.update k v m"

definition hm_remove :: "'k \<Rightarrow> ('k, 'v) hmap \<Rightarrow> ('k, 'v) hmap" where
  "hm_remove k m = AList.delete k m"

definition hm_retain :: "('k \<Rightarrow> 'v \<Rightarrow> bool) \<Rightarrow> ('k, 'v) hmap \<Rightarrow> ('k, 'v) hmap" where
  "hm_retain P m = filter (\<lambda>(k, v). P k v) m"

definition hm_values :: "('k, 'v) hmap \<Rightarrow> 'v list" where
  "hm_values m = map snd m"

definition hm_len :: "('k, 'v) hmap \<Rightarrow> nat" where
  "hm_len m = length m"

definition hm_wf :: "('k, 'v) hmap \<Rightarrow> bool" where
  "hm_wf m \<longleftrightarrow> distinct (map fst m)"

text \<open>\<^verbatim>\<open>Iterator::min_by_key\<close> keeps the first of equal minima, \<^verbatim>\<open>max_by_key\<close> the last of equal maxima.\<close>

fun min_by_key :: "('a \<Rightarrow> 'b::linorder) \<Rightarrow> 'a list \<Rightarrow> 'a option" where
  "min_by_key f [] = None"
| "min_by_key f (x # xs) = (case min_by_key f xs of None \<Rightarrow> Some x
     | Some y \<Rightarrow> if f x \<le> f y then Some x else Some y)"

fun max_by_key :: "('a \<Rightarrow> 'b::linorder) \<Rightarrow> 'a list \<Rightarrow> 'a option" where
  "max_by_key f [] = None"
| "max_by_key f (x # xs) = (case max_by_key f xs of None \<Rightarrow> Some x
     | Some y \<Rightarrow> if f x \<le> f y then Some y else Some x)"

section \<open>Lemma collections\<close>

named_theorems machine_simps \<open>saturating and checked arithmetic read over nat and int\<close>

named_theorems result_simps \<open>results and faults\<close>

section \<open>Results\<close>

lemma try_res_simps [simp]:
  "try_res (Inl e) f = Inl e"
  "try_res (Inr x) f = f x"
  by (simp_all add: try_res_def)

lemma try_res_Inr_iff [result_simps]:
  "try_res r f = Inr y \<longleftrightarrow> (\<exists>x. r = Inr x \<and> f x = Inr y)"
  by (cases r) auto

lemma map_err_simps [simp]:
  "map_err g (Inl d) = Inl (g d)"
  "map_err g (Inr x) = Inr x"
  by (simp_all add: map_err_def)

lemma map_err_Inr_iff [simp]: "map_err g r = Inr x \<longleftrightarrow> r = Inr x"
  by (cases r) auto

lemma guard_fault_simps [simp]:
  "guard_fault g None = Inr ()"
  "guard_fault g (Some m) = Inl (g m)"
  by (simp_all add: guard_fault_def)

lemma guard_fault_Inr_iff [simp]: "guard_fault g f = Inr u \<longleftrightarrow> f = None"
  by (cases f) auto

section \<open>Words read as numbers\<close>

lemma unat_neg1: "unat (- 1 :: 'a::len word) = 2 ^ LENGTH('a) - 1"
  by (simp add: unsigned_minus_1_eq_mask mask_eq_exp_minus_1)

lemma unat_bound: "unat (w :: 'a::len word) < 2 ^ LENGTH('a)"
  by (rule unsigned_less)

lemma unat_of_nat_small: "n < 2 ^ LENGTH('a) \<Longrightarrow> unat (word_of_nat n :: 'a::len word) = n"
  by (simp only: unat_of_nat take_bit_eq_mod mod_less)

lemma unat_sat_add [machine_simps]:
  "unat (sat_add a b) = min (2 ^ LENGTH('a) - 1) (unat a + unat (b :: 'a::len word))"
  by (auto simp: sat_add_def unat_word_ariths unat_neg1 min_def)

lemma unat_sat_sub [machine_simps]: "unat (sat_sub a b) = unat a - unat b"
  by (auto simp: sat_sub_def unat_sub word_le_nat_alt)

lemma unat_sat_mul [machine_simps]:
  "unat (sat_mul a b) = min (2 ^ LENGTH('a) - 1) (unat a * unat (b :: 'a::len word))"
  by (auto simp: sat_mul_def unat_word_ariths unat_neg1 min_def)

lemma chk_add_eq_Some [machine_simps]:
  "chk_add a b = Some c \<longleftrightarrow> unat a + unat b < 2 ^ LENGTH('a) \<and> c = a + (b :: 'a::len word)"
  by (auto simp: chk_add_def)

lemma chk_add_eq_None [machine_simps]:
  "chk_add a b = None \<longleftrightarrow> 2 ^ LENGTH('a) \<le> unat a + unat (b :: 'a::len word)"
  by (auto simp: chk_add_def)

lemma unat_plus_no_overflow [machine_simps]:
  "unat a + unat b < 2 ^ LENGTH('a) \<Longrightarrow> unat (a + b) = unat a + unat (b :: 'a::len word)"
  by (simp add: unat_word_ariths)

lemma chk_sub_eq_Some [machine_simps]:
  "chk_sub a b = Some c \<longleftrightarrow> unat b \<le> unat a \<and> c = a - (b :: 'a::len word)"
  by (auto simp: chk_sub_def word_le_nat_alt)

lemma in_i64_sat [simp]: "in_i64 (i64_sat x)"
  by (auto simp: in_i64_def i64_sat_def i64_min_def i64_max_def)

lemma i64_sat_id [simp]: "in_i64 x \<Longrightarrow> i64_sat x = x"
  by (auto simp: in_i64_def i64_sat_def)

lemma clamp_int_bounds: "lo \<le> hi \<Longrightarrow> lo \<le> clamp_int lo hi x \<and> clamp_int lo hi x \<le> hi"
  by (auto simp: clamp_int_def)

section \<open>Byte strings\<close>

lemma length_be_bytes [simp]: "length (be_bytes k n) = k"
  by (induction k) auto

text \<open>The recursion at a numeral width, for evaluation.\<close>

lemma be_bytes_numeral:
  "be_bytes (numeral k) n = of_nat (n div 256 ^ pred_numeral k) # be_bytes (pred_numeral k) n"
  by (simp add: numeral_eq_Suc)

lemma length_word_be [simp]:
  "length (u16_be x) = 2" "length (u32_be y) = 4" "length (u64_be z) = 8"
  by (simp_all add: u16_be_def u32_be_def u64_be_def)

lemma from_be_foldl: "foldl (\<lambda>a b. a * 256 + unat (b :: u8)) c bs = c * 256 ^ length bs + from_be bs"
proof (induction bs arbitrary: c)
  case Nil
  then show ?case by (simp add: from_be_def)
next
  case (Cons b bs)
  have "foldl (\<lambda>a b. a * 256 + unat b) c (b # bs)
      = (c * 256 + unat b) * 256 ^ length bs + from_be bs"
    by (simp add: Cons.IH)
  moreover have "from_be (b # bs) = unat b * 256 ^ length bs + from_be bs"
    using Cons.IH [of "unat b"] by (simp add: from_be_def)
  ultimately show ?case by (simp add: algebra_simps)
qed

lemma from_be_Nil [simp]: "from_be [] = 0"
  by (simp add: from_be_def)

lemma from_be_Cons [simp]: "from_be (b # bs) = unat b * 256 ^ length bs + from_be bs"
  using from_be_foldl [of "unat b" bs] by (simp add: from_be_def)

lemma from_be_bound: "from_be bs < 256 ^ length bs"
proof (induction bs)
  case Nil
  then show ?case by simp
next
  case (Cons b bs)
  have "unat b \<le> 255"
    using unat_bound [of b] by simp
  then have "unat b * 256 ^ length bs \<le> 255 * 256 ^ length bs"
    by simp
  with Cons.IH have "unat b * 256 ^ length bs + from_be bs < 256 * 256 ^ length bs"
    by linarith
  then show ?case by simp
qed

lemma from_be_be_bytes: "from_be (be_bytes k n) = n mod 256 ^ k"
proof (induction k)
  case 0
  then show ?case by simp
next
  case (Suc k)
  have "n mod (256 ^ k * 256) = 256 ^ k * (n div 256 ^ k mod 256) + n mod 256 ^ k"
    by (rule mod_mult2_eq)
  with Suc show ?case
    by (simp add: unat_of_nat algebra_simps)
qed

lemma from_u32_be [simp]: "from_be (u32_be w) = unat w"
  using unat_bound [of w] by (simp add: u32_be_def from_be_be_bytes)

lemma from_u64_be [simp]: "from_be (u64_be w) = unat w"
  using unat_bound [of w] by (simp add: u64_be_def from_be_be_bytes)

lemma from_u16_be [simp]: "from_be (u16_be w) = unat w"
  using unat_bound [of w] by (simp add: u16_be_def from_be_be_bytes)

lemma u16_be_inject [simp]: "u16_be x = u16_be y \<longleftrightarrow> x = y"
  by (metis from_u16_be word_unat_eq_iff)

lemma u32_be_inject [simp]: "u32_be x = u32_be y \<longleftrightarrow> x = y"
  by (metis from_u32_be word_unat_eq_iff)

lemma u64_be_inject [simp]: "u64_be x = u64_be y \<longleftrightarrow> x = y"
  by (metis from_u64_be word_unat_eq_iff)

lemma be_bytes_from_be: "be_bytes (length bs) (from_be bs) = bs"
proof -
  have "be_bytes (length bs) (c * 256 ^ length bs + from_be bs) = bs" for c
  proof (induction bs arbitrary: c)
    case Nil
    then show ?case by simp
  next
    case (Cons b bs)
    have eq: "c * 256 ^ length (b # bs) + from_be (b # bs)
        = (c * 256 + unat b) * 256 ^ length bs + from_be bs"
      by (simp add: algebra_simps)
    have "((c * 256 + unat b) * 256 ^ length bs + from_be bs) div 256 ^ length bs = c * 256 + unat b"
      using from_be_bound [of bs] by simp
    moreover have "of_nat (c * 256 + unat b) = b"
      using unat_bound [of b] by (simp add: word_unat_eq_iff unat_of_nat unat_word_ariths)
    ultimately show ?case
      unfolding eq using Cons.IH [of "c * 256 + unat b"] by simp
  qed
  from this [of 0] show ?thesis by simp
qed

lemma ascii_Nil [simp]: "ascii [] = []"
  by (simp add: ascii_def)

lemma length_ascii [simp]: "length (ascii s) = length s"
  by (simp add: ascii_def)

text \<open>Splitting a byte string whose first part has a known length.\<close>

lemma append_eq_len:
  "length xs = length xs' \<Longrightarrow> xs @ ys = xs' @ ys' \<longleftrightarrow> xs = xs' \<and> ys = ys'"
  by simp

section \<open>The constant-time comparison decides equality\<close>

lemma or_eq_zero_iff: "(a OR b = 0) \<longleftrightarrow> a = 0 \<and> b = (0 :: 'a::len word)"
  by (rule or_eq_0_iff)

lemma xor_eq_zero_iff: "(a XOR b = 0) \<longleftrightarrow> a = (b :: 'a::len word)"
  by (metis word_bw_assocs(3) xor.left_neutral xor_self_eq)

lemma ct_diff_acc:
  "foldl (\<lambda>acc (a, b). acc OR (a XOR b)) c zs = 0
    \<longleftrightarrow> c = (0 :: u8) \<and> (\<forall>(a, b) \<in> set zs. a = b)"
  by (induction zs arbitrary: c) (auto simp: or_eq_zero_iff xor_eq_zero_iff)

lemma ct_diff_zero_iff: "length xs = length ys \<Longrightarrow> ct_diff xs ys = 0 \<longleftrightarrow> xs = ys"
  unfolding ct_diff_def ct_diff_acc
  by (auto simp: list_eq_iff_zip_eq)

section \<open>The map interface\<close>

text \<open>
  What the components rely on: lookups after an insertion, a removal or a \<^verbatim>\<open>retain\<close>, and that the
  number of entries counts distinct keys. The lemmas of the block are the client facts.
\<close>

locale hash_map =
  fixes get :: "'m \<Rightarrow> 'k \<Rightarrow> 'v option"
    and ins :: "'k \<Rightarrow> 'v \<Rightarrow> 'm \<Rightarrow> 'm"
    and rem :: "'k \<Rightarrow> 'm \<Rightarrow> 'm"
    and keep :: "('k \<Rightarrow> 'v \<Rightarrow> bool) \<Rightarrow> 'm \<Rightarrow> 'm"
    and siz :: "'m \<Rightarrow> nat"
    and wf :: "'m \<Rightarrow> bool"
  assumes get_ins: "get (ins k v m) = (get m)(k \<mapsto> v)"
    and get_rem: "wf m \<Longrightarrow> get (rem k m) = (get m)(k := None)"
    and get_keep: "wf m \<Longrightarrow> get (keep P m) k = (case get m k of None \<Rightarrow> None
        | Some v \<Rightarrow> if P k v then Some v else None)"
    and siz_dom: "wf m \<Longrightarrow> siz m = card (dom (get m))"
    and fin_dom: "finite (dom (get m))"
    and wf_ins: "wf m \<Longrightarrow> wf (ins k v m)"
    and wf_rem: "wf m \<Longrightarrow> wf (rem k m)"
    and wf_keep: "wf m \<Longrightarrow> wf (keep P m)"
begin

lemma siz_ins_new: "wf m \<Longrightarrow> get m k = None \<Longrightarrow> siz (ins k v m) = Suc (siz m)"
  using fin_dom [of m] by (simp add: siz_dom wf_ins get_ins domIff)

lemma siz_ins_old: "wf m \<Longrightarrow> get m k = Some w \<Longrightarrow> siz (ins k v m) = siz m"
  by (simp add: siz_dom wf_ins get_ins insert_absorb domI)

lemma siz_rem_present: "wf m \<Longrightarrow> get m k = Some w \<Longrightarrow> Suc (siz (rem k m)) = siz m"
  unfolding siz_dom [OF wf_rem] siz_dom get_rem dom_fun_upd
  by (simp only: if_True card_Suc_Diff1 [OF fin_dom] domI simp_thms)

lemma siz_keep_le: "wf m \<Longrightarrow> siz (keep P m) \<le> siz m"
  using fin_dom [of m]
  by (simp add: siz_dom wf_keep) (rule card_mono, auto simp: get_keep split: option.splits)

lemma get_keep_Some: "wf m \<Longrightarrow> get (keep P m) k = Some v \<longleftrightarrow> get m k = Some v \<and> P k v"
  by (auto simp: get_keep split: option.splits if_splits)

end

lemma hm_get_retain:
  "hm_wf m \<Longrightarrow> hm_get (hm_retain P m) k =
    (case hm_get m k of None \<Rightarrow> None | Some v \<Rightarrow> if P k v then Some v else None)"
  by (induction m)
    (auto simp: hm_wf_def hm_get_def hm_retain_def map_of_eq_None_iff split: option.splits)

lemma hm_len_card: "hm_wf m \<Longrightarrow> hm_len m = card (dom (hm_get m))"
  by (metis distinct_card dom_map_of_conv_image_fst hm_get_def hm_len_def hm_wf_def
      length_map list.set_map ext)

interpretation hm: hash_map hm_get hm_insert hm_remove hm_retain hm_len hm_wf
proof unfold_locales
  show "finite (dom (hm_get m))" for m :: "('a, 'b) hmap"
    by (simp add: hm_get_def [abs_def] finite_dom_map_of)
  show "hm_wf m \<Longrightarrow> hm_wf (hm_retain P m)" for m :: "('a, 'b) hmap" and P
    by (simp add: hm_wf_def hm_retain_def distinct_map_filter)
  show "hm_wf m \<Longrightarrow> hm_get (hm_retain P m) k =
      (case hm_get m k of None \<Rightarrow> None | Some v \<Rightarrow> if P k v then Some v else None)"
    for m :: "('a, 'b) hmap" and P k
    by (rule hm_get_retain)
qed (simp_all add: hm_len_card hm_insert_def hm_remove_def hm_wf_def
    distinct_update distinct_delete hm_get_def [abs_def] update_conv' delete_conv')

lemmas hm_laws = hm.get_ins hm.get_rem hm.get_keep_Some hm.wf_ins hm.wf_rem hm.wf_keep

lemma hm_empty [simp]: "hm_get [] = Map.empty" "hm_wf []" "hm_len [] = 0"
  by (simp_all add: hm_get_def [abs_def] hm_wf_def hm_len_def fun_eq_iff)

lemma hm_remove_filter: "hm_remove k m = filter (\<lambda>e. fst e \<noteq> k) m"
  by (auto simp: hm_remove_def AList.delete_eq intro: filter_cong)

lemma length_hm_remove: "e \<in> set m \<Longrightarrow> length (hm_remove (fst e) m) < length m"
  by (auto simp: hm_remove_filter intro: length_filter_less)

lemma hm_get_values: "hm_get m k = Some v \<Longrightarrow> v \<in> set (hm_values m)"
  by (auto simp: hm_get_def hm_values_def dest!: map_of_SomeD intro: rev_image_eqI)

lemma hm_get_in: "hm_get m k = Some v \<Longrightarrow> (k, v) \<in> set m"
  by (simp add: hm_get_def map_of_SomeD)

lemma hm_in_get: "hm_wf m \<Longrightarrow> (k, v) \<in> set m \<longleftrightarrow> hm_get m k = Some v"
  by (simp add: hm_wf_def hm_get_def)

lemma hm_values_insert: "set (hm_values (hm_insert k v m)) \<subseteq> insert v (set (hm_values m))"
  by (induction m) (auto simp: hm_values_def hm_insert_def)

lemma hm_values_retain: "set (hm_values (hm_retain P m)) \<subseteq> set (hm_values m)"
  by (auto simp: hm_values_def hm_retain_def)

lemma hm_insert_new: "\<not> hm_contains m k \<Longrightarrow> hm_insert k v m = m @ [(k, v)]"
  by (induction m) (auto simp: hm_contains_def hm_get_def hm_insert_def split: if_splits)

section \<open>Extremal elements\<close>

lemma find_SomeD_mem: "find P xs = Some x \<Longrightarrow> x \<in> set xs \<and> P x"
  by (auto simp: find_Some_iff)

lemma min_by_key_None [simp]: "min_by_key f xs = None \<longleftrightarrow> xs = []"
  by (cases xs) (auto split: option.splits)

lemma min_by_key_Some: "min_by_key f xs = Some x \<Longrightarrow> x \<in> set xs \<and> (\<forall>y \<in> set xs. f x \<le> f y)"
proof (induction xs arbitrary: x)
  case Nil
  then show ?case by simp
next
  case (Cons a xs)
  then show ?case by (fastforce split: option.splits if_splits)
qed

lemma max_by_key_None [simp]: "max_by_key f xs = None \<longleftrightarrow> xs = []"
  by (cases xs) (auto split: option.splits)

lemma max_by_key_Some: "max_by_key f xs = Some x \<Longrightarrow> x \<in> set xs \<and> (\<forall>y \<in> set xs. f y \<le> f x)"
proof (induction xs arbitrary: x)
  case Nil
  then show ?case by simp
next
  case (Cons a xs)
  then show ?case by (fastforce split: option.splits if_splits)
qed

end
