(* ===== verification/Replay.thy ===== *)
theory Replay
  imports Prelude
begin

text \<open>
  The contract shared by the crate's replay guards: \<^verbatim>\<open>Dedup::check_and_insert\<close>
  (\<^verbatim>\<open>envelope.rs\<close>), \<^verbatim>\<open>NonceCache::check_and_insert\<close> (\<^verbatim>\<open>mailbox.rs\<close>),
  \<^verbatim>\<open>RelayGuard::accept\<close> (\<^verbatim>\<open>relay.rs\<close>) and \<^verbatim>\<open>Db::record_seen\<close> (\<^verbatim>\<open>queue.rs\<close>). Each takes an
  item, answers whether it is new, and remembers it; each forgets entries under conditions of its
  own (\<open>keeps\<close> says when an entry survives a call). The locale's lemmas say what a run of calls
  guarantees: an item once accepted is refused for as long as every call in between keeps it.
\<close>

text \<open>The inputs of a run that were accepted, in order, and the state after the run.\<close>

fun accepted :: "('s \<Rightarrow> 'i \<Rightarrow> bool \<times> 's) \<Rightarrow> 's \<Rightarrow> 'i list \<Rightarrow> 'i list" where
  "accepted chk s [] = []"
| "accepted chk s (i # is) =
     (if fst (chk s i) then i # accepted chk (snd (chk s i)) is
      else accepted chk (snd (chk s i)) is)"

fun run_state :: "('s \<Rightarrow> 'i \<Rightarrow> bool \<times> 's) \<Rightarrow> 's \<Rightarrow> 'i list \<Rightarrow> 's" where
  "run_state chk s [] = s"
| "run_state chk s (i # is) = run_state chk (snd (chk s i)) is"

text \<open>Every call of the run keeps the entry of key \<open>k\<close>.\<close>

fun kept :: "('s \<Rightarrow> 'i \<Rightarrow> bool \<times> 's) \<Rightarrow> ('s \<Rightarrow> 'i \<Rightarrow> 'k \<Rightarrow> bool) \<Rightarrow> 'k \<Rightarrow> 's \<Rightarrow> 'i list \<Rightarrow> bool"
where
  "kept chk kp k s [] = True"
| "kept chk kp k s (i # is) = (kp s i k \<and> kept chk kp k (snd (chk s i)) is)"

lemma accepted_append:
  "accepted chk s (is @ js) = accepted chk s is @ accepted chk (run_state chk s is) js"
  by (induction "is" arbitrary: s) auto

lemma run_state_append [simp]:
  "run_state chk s (is @ js) = run_state chk (run_state chk s is) js"
  by (induction "is" arbitrary: s) auto

lemma accepted_subset: "set (accepted chk s is) \<subseteq> set is"
  by (induction "is" arbitrary: s) auto

locale replay_guard =
  fixes chk :: "'s \<Rightarrow> 'i \<Rightarrow> bool \<times> 's"
    and key :: "'i \<Rightarrow> 'k"
    and held :: "'s \<Rightarrow> 'k \<Rightarrow> bool"
    and inv :: "'s \<Rightarrow> bool"
    and kp :: "'s \<Rightarrow> 'i \<Rightarrow> 'k \<Rightarrow> bool"
  assumes inv_chk: "inv s \<Longrightarrow> inv (snd (chk s i))"
    and accept_held: "inv s \<Longrightarrow> fst (chk s i) \<Longrightarrow> held (snd (chk s i)) (key i)"
    and held_refused: "inv s \<Longrightarrow> held s (key i) \<Longrightarrow> kp s i (key i) \<Longrightarrow> \<not> fst (chk s i)"
    and held_kept: "inv s \<Longrightarrow> held s k \<Longrightarrow> kp s i k \<Longrightarrow> held (snd (chk s i)) k"
begin

lemma inv_run: "inv s \<Longrightarrow> inv (run_state chk s is)"
  by (induction "is" arbitrary: s) (auto intro: inv_chk)

lemma held_run: "inv s \<Longrightarrow> held s k \<Longrightarrow> kept chk kp k s is \<Longrightarrow> held (run_state chk s is) k"
  by (induction "is" arbitrary: s) (auto intro: inv_chk held_kept)

lemma held_none_accepted:
  "inv s \<Longrightarrow> held s k \<Longrightarrow> kept chk kp k s is \<Longrightarrow> k \<notin> key ` set (accepted chk s is)"
proof (induction "is" arbitrary: s)
  case Nil
  then show ?case by simp
next
  case (Cons i "is")
  from Cons.prems have kp: "kp s i k" and rest: "kept chk kp k (snd (chk s i)) is"
    by auto
  have "k \<notin> key ` set (accepted chk (snd (chk s i)) is)"
    using Cons.IH [OF inv_chk [OF Cons.prems(1)] held_kept [OF Cons.prems(1,2) kp] rest] .
  moreover have "fst (chk s i) \<Longrightarrow> key i \<noteq> k"
    using held_refused [OF Cons.prems(1), of i] Cons.prems(2) kp by auto
  ultimately show ?case by auto
qed

lemma accepted_once:
  assumes "inv s" and "fst (chk s i)" and "kept chk kp (key i) (snd (chk s i)) is"
  shows "key i \<notin> key ` set (accepted chk (snd (chk s i)) is)"
  using held_none_accepted [OF inv_chk [OF assms(1)] accept_held [OF assms(1,2)] assms(3)] .

end

end
