(* ===== verification/Strings.thy ===== *)
theory Strings
  imports Prelude
begin

text \<open>
  String operations the crate takes from the standard library: decimal and hexadecimal formatting,
  \<^verbatim>\<open>chunks\<close>, \<^verbatim>\<open>split\<close>, \<^verbatim>\<open>split_once\<close>, \<^verbatim>\<open>strip_prefix\<close> and \<^verbatim>\<open>join\<close>, with the round trips the
  parsers and printers rest on. Strings hold bytes: the crate's own formats are ASCII.
\<close>

section \<open>Definitions\<close>

text \<open>\<^verbatim>\<open>format!("{n}")\<close>.\<close>

fun show_nat :: "nat \<Rightarrow> string" where
  "show_nat n = (if n < 10 then [char_of (48 + n)]
     else show_nat (n div 10) @ [char_of (48 + n mod 10)])"

declare show_nat.simps [simp del]

text \<open>One lower-case hexadecimal digit, and \<^verbatim>\<open>format!("{b:02x}")\<close>.\<close>

definition hex_digit :: "nat \<Rightarrow> char" where
  "hex_digit n = (if n < 10 then char_of (48 + n) else char_of (87 + n))"

definition hex_byte :: "u8 \<Rightarrow> string" where
  "hex_byte b = [hex_digit (unat b div 16), hex_digit (unat b mod 16)]"

definition hex :: "bytes \<Rightarrow> string" where
  "hex bs = concat (map hex_byte bs)"

text \<open>\<^verbatim>\<open>char::to_digit(16)\<close>: \<^verbatim>\<open>is_ascii_hexdigit\<close> and the value \<^verbatim>\<open>from_str_radix\<close> gives it.\<close>

definition hex_value :: "char \<Rightarrow> nat option" where
  "hex_value c = (let n = of_char c in
     if 48 \<le> n \<and> n \<le> 57 then Some (n - 48)
     else if 97 \<le> n \<and> n \<le> 102 then Some (n - 87)
     else if 65 \<le> n \<and> n \<le> 70 then Some (n - 55) else None)"

text \<open>\<^verbatim>\<open>slice::chunks(n)\<close>, for \<open>n > 0\<close>.\<close>

function chunks :: "nat \<Rightarrow> 'a list \<Rightarrow> 'a list list" where
  "chunks n xs = (if n = 0 \<or> xs = [] then [] else take n xs # chunks n (drop n xs))"
  by pat_completeness auto
termination
  by (relation "measure (\<lambda>(n, xs). length xs)") auto

declare chunks.simps [simp del]

text \<open>\<^verbatim>\<open>str::split(c)\<close>, \<^verbatim>\<open>[..].join(sep)\<close>, \<^verbatim>\<open>str::split_once(c)\<close>, \<^verbatim>\<open>str::strip_prefix(p)\<close>.\<close>

fun split_on :: "'a \<Rightarrow> 'a list \<Rightarrow> 'a list list" where
  "split_on c [] = [[]]"
| "split_on c (x # xs) =
     (if x = c then [] # split_on c xs
      else (case split_on c xs of [] \<Rightarrow> [[x]] | w # ws \<Rightarrow> (x # w) # ws))"

fun join_with :: "'a list \<Rightarrow> 'a list list \<Rightarrow> 'a list" where
  "join_with sep [] = []"
| "join_with sep [w] = w"
| "join_with sep (w # v # ws) = w @ sep @ join_with sep (v # ws)"

fun split_once :: "'a \<Rightarrow> 'a list \<Rightarrow> ('a list \<times> 'a list) option" where
  "split_once c [] = None"
| "split_once c (x # xs) =
     (if x = c then Some ([], xs)
      else map_option (\<lambda>(a, b). (x # a, b)) (split_once c xs))"

fun strip_prefix :: "'a list \<Rightarrow> 'a list \<Rightarrow> 'a list option" where
  "strip_prefix [] ys = Some ys"
| "strip_prefix (x # xs) [] = None"
| "strip_prefix (x # xs) (y # ys) = (if x = y then strip_prefix xs ys else None)"

section \<open>Hexadecimal\<close>

lemma hex_value_digit: "n < 16 \<Longrightarrow> hex_value (hex_digit n) = Some n"
  by (simp add: hex_value_def hex_digit_def)

lemma hex_digit_not_special:
  "n < 16 \<Longrightarrow> hex_digit n \<noteq> CHR '' '' \<and> hex_digit n \<noteq> CHR ''&'' \<and> hex_digit n \<noteq> CHR ''=''
    \<and> hex_digit n \<noteq> CHR '',''"
  by (auto simp: hex_digit_def dest!: arg_cong [where f = "of_char :: char \<Rightarrow> nat"])

lemma nibbles: "unat (b :: u8) div 16 < 16" "unat b mod 16 < 16"
  using unat_bound [of b] by (auto simp: less_mult_imp_div_less)

lemma length_hex_byte [simp]: "length (hex_byte b) = 2"
  by (simp add: hex_byte_def)

lemma length_hex [simp]: "length (hex bs) = 2 * length bs"
  by (induction bs) (auto simp: hex_def)

lemma hex_simps [simp]: "hex [] = []" "hex (b # bs) = hex_byte b @ hex bs"
  by (simp_all add: hex_def)

lemma set_hex_byte: "c \<in> set (hex_byte b) \<Longrightarrow> \<exists>n<16. c = hex_digit n"
proof -
  assume "c \<in> set (hex_byte b)"
  then have "c = hex_digit (unat b div 16) \<or> c = hex_digit (unat b mod 16)"
    by (auto simp: hex_byte_def)
  then show ?thesis using nibbles [of b] by blast
qed

lemma set_hex: "c \<in> set (hex bs) \<Longrightarrow> \<exists>n<16. c = hex_digit n"
  by (induction bs) (auto dest: set_hex_byte)

lemma hex_not_special:
  "CHR '' '' \<notin> set (hex bs)" "CHR ''&'' \<notin> set (hex bs)" "CHR ''='' \<notin> set (hex bs)"
  "CHR '','' \<notin> set (hex bs)"
  using hex_digit_not_special by (fastforce dest!: set_hex)+

section \<open>Chunks\<close>

lemma chunks_Nil [simp]: "chunks n [] = []"
  by (simp add: chunks.simps)

lemma chunks_step: "0 < n \<Longrightarrow> xs \<noteq> [] \<Longrightarrow> chunks n xs = take n xs # chunks n (drop n xs)"
  by (simp add: chunks.simps)

lemma concat_chunks: "0 < n \<Longrightarrow> concat (chunks n xs) = xs"
proof (induction n xs rule: chunks.induct)
  case (1 n xs)
  then show ?case
    by (cases "xs = []") (simp_all add: chunks_step [of n xs])
qed

lemma chunks_exact:
  assumes "0 < n"
  shows "length xs = k * n \<Longrightarrow> length (chunks n xs) = k \<and> (\<forall>c \<in> set (chunks n xs). length c = n)"
proof (induction k arbitrary: xs)
  case 0
  then show ?case by simp
next
  case (Suc k)
  then have ne: "xs \<noteq> []" and dr: "length (drop n xs) = k * n" and tk: "length (take n xs) = n"
    using assms by auto
  show ?case
    unfolding chunks_step [OF assms ne] using Suc.IH [OF dr] tk by auto
qed

lemma set_chunks: "0 < n \<Longrightarrow> w \<in> set (chunks n xs) \<Longrightarrow> set w \<subseteq> set xs"
  using concat_chunks [of n xs] by (metis UN_upper set_concat)

section \<open>Splitting and joining\<close>

lemma split_on_nonempty [simp]: "split_on c xs \<noteq> []"
  by (induction xs) (auto split: list.splits)

lemma split_on_word: "c \<notin> set w \<Longrightarrow> split_on c w = [w]"
  by (induction w) auto

lemma split_on_append: "c \<notin> set w \<Longrightarrow> split_on c (w @ c # xs) = w # split_on c xs"
  by (induction w) auto

lemma split_on_join:
  "ws \<noteq> [] \<Longrightarrow> \<forall>w \<in> set ws. c \<notin> set w \<Longrightarrow> split_on c (join_with [c] ws) = ws"
  by (induction "[c]" ws rule: join_with.induct) (auto simp: split_on_word split_on_append)

lemma split_once_append: "c \<notin> set a \<Longrightarrow> split_once c (a @ c # b) = Some (a, b)"
  by (induction a) auto

lemma split_once_None: "c \<notin> set a \<Longrightarrow> split_once c a = None"
  by (induction a) auto

lemma strip_prefix_append [simp]: "strip_prefix p (p @ xs) = Some xs"
  by (induction p) auto

lemma length_join_equal:
  "ws \<noteq> [] \<Longrightarrow> \<forall>w \<in> set ws. length w = n \<Longrightarrow>
    length (join_with [c] ws) = length ws * n + (length ws - 1)"
  by (induction "[c]" ws rule: join_with.induct) auto

end
