(* ===== verification/Envelope.thy ===== *)
theory Envelope
  imports Replay Strings
begin

text \<open>
  \<^verbatim>\<open>crates/core/src/envelope.rs\<close>: the transport envelope and its CBOR wrapping, the length-prefixed
  frames of the stream channels, and the bounded first-in-first-out duplicate filter.

  The CBOR encoder and decoder (\<^verbatim>\<open>ciborium\<close> with \<^verbatim>\<open>serde\<close>) are parameters \<open>ser\<close> and \<open>de\<close>; what the
  code relies on is \<open>codec_ok\<close>: what was written is read back.
\<close>

section \<open>Data\<close>

text \<open>\<^verbatim>\<open>MsgId = [u8; 16]\<close> and \<^verbatim>\<open>NodeId = [u8; 32]\<close>.\<close>

type_synonym msg_id = bytes
type_synonym node_id = bytes

datatype payload_kind = Text | SessionMgmt | GroupMgmt | NodeCtl

text \<open>\<^verbatim>\<open>kind as u8\<close>, from \<^verbatim>\<open>#[repr(u8)]\<close> and the explicit discriminants.\<close>

fun kind_u8 :: "payload_kind \<Rightarrow> u8" where
  "kind_u8 Text = 1"
| "kind_u8 SessionMgmt = 2"
| "kind_u8 GroupMgmt = 3"
| "kind_u8 NodeCtl = 4"

record envelope =
  env_msg_id :: msg_id
  env_sender :: node_id
  env_recipient :: "node_id option"
  env_group :: "node_id option"
  env_kind :: payload_kind
  env_body :: bytes
  env_sent_at_ms :: u64
  env_ttl_hops :: u8

text \<open>The array lengths the Rust types fix.\<close>

definition opt_len :: "nat \<Rightarrow> bytes option \<Rightarrow> bool" where
  "opt_len n x = (case x of None \<Rightarrow> True | Some b \<Rightarrow> length b = n)"

definition wf_envelope :: "envelope \<Rightarrow> bool" where
  "wf_envelope e \<longleftrightarrow> length (env_msg_id e) = 16 \<and> length (env_sender e) = 32
     \<and> opt_len 32 (env_recipient e) \<and> opt_len 32 (env_group e)"

section \<open>CBOR\<close>

definition to_cbor :: "(envelope \<Rightarrow> string + bytes) \<Rightarrow> envelope \<Rightarrow> bytes result" where
  "to_cbor ser e = map_err Cbor (ser e)"

definition from_cbor :: "(bytes \<Rightarrow> string + envelope) \<Rightarrow> bytes \<Rightarrow> envelope result" where
  "from_cbor de bs =
     try_res (map_err Cbor (de bs)) (\<lambda>e.
       if env_group e \<noteq> None \<and> env_recipient e \<noteq> None
       then Inl (Cbor ''envelope cannot be both unicast and group'')
       else if env_ttl_hops e = 0 \<and> env_group e \<noteq> None
       then Inl (Cbor ''group envelope with zero ttl'')
       else Inr e)"

definition codec_ok :: "('a \<Rightarrow> string + bytes) \<Rightarrow> (bytes \<Rightarrow> string + 'a) \<Rightarrow> bool" where
  "codec_ok ser de \<longleftrightarrow> (\<forall>x b. ser x = Inr b \<longrightarrow> de b = Inr x)"

text \<open>The envelopes the reader lets through.\<close>

definition env_routable :: "envelope \<Rightarrow> bool" where
  "env_routable e \<longleftrightarrow> \<not> (env_group e \<noteq> None \<and> env_recipient e \<noteq> None)
     \<and> \<not> (env_ttl_hops e = 0 \<and> env_group e \<noteq> None)"

section \<open>Compression\<close>

text \<open>\<^verbatim>\<open>compression::compress\<close> and \<^verbatim>\<open>decompress\<close>: \<open>encode_all\<close> and \<open>decode_all\<close> are those of the zstd library.\<close>

definition compress :: "(bytes \<Rightarrow> int \<Rightarrow> string + bytes) \<Rightarrow> bytes \<Rightarrow> int \<Rightarrow> bytes result" where
  "compress encode_all data level = map_err Io (encode_all data level)"

definition decompress :: "(bytes \<Rightarrow> string + bytes) \<Rightarrow> bytes \<Rightarrow> bytes result" where
  "decompress decode_all data = map_err Io (decode_all data)"

section \<open>Frames\<close>

definition MAX_FRAME_SIZE :: nat where
  "MAX_FRAME_SIZE = 4 * 1024 * 1024"

text \<open>The \<^verbatim>\<open>assert!\<close> of \<^verbatim>\<open>frame\<close> is the branch \<open>None\<close>.\<close>

definition frame :: "bytes \<Rightarrow> bytes option" where
  "frame msg = (if length msg \<le> 2 ^ 32 - 1 then Some (be_bytes 4 (length msg) @ msg) else None)"

definition unframe :: "bytes \<Rightarrow> (bytes \<times> nat) option result" where
  "unframe buf =
     (if length buf < 4 then Inr None
      else let len = from_be (take 4 buf) in
        if len > MAX_FRAME_SIZE
        then Inl (Cbor (''frame size '' @ show_nat len @ '' exceeds '' @ show_nat MAX_FRAME_SIZE))
        else if length buf < 4 + len then Inr None
        else Inr (Some (take len (drop 4 buf), 4 + len)))"

section \<open>The duplicate filter\<close>

record dedup =
  dd_seen :: "(msg_id, unit) hmap"
  dd_order :: "msg_id list"
  dd_cap :: nat

definition dedup_new :: "nat \<Rightarrow> dedup" where
  "dedup_new cap = \<lparr>dd_seen = [], dd_order = [], dd_cap = max cap 1\<rparr>"

text \<open>\<^verbatim>\<open>#[derive(Default)]\<close>: every field at its default, so the capacity is 0.\<close>

definition dedup_default :: dedup where
  "dedup_default = \<lparr>dd_seen = [], dd_order = [], dd_cap = 0\<rparr>"

text \<open>The \<^verbatim>\<open>while self.order.len() > self.cap\<close> loop.\<close>

fun dedup_trim :: "nat \<Rightarrow> msg_id list \<Rightarrow> (msg_id, unit) hmap \<Rightarrow> msg_id list \<times> (msg_id, unit) hmap"
where
  "dedup_trim cap [] seen = ([], seen)"
| "dedup_trim cap (old # rest) seen =
     (if length (old # rest) > cap then dedup_trim cap rest (hm_remove old seen)
      else (old # rest, seen))"

definition check_and_insert :: "dedup \<Rightarrow> msg_id \<Rightarrow> bool \<times> dedup" where
  "check_and_insert d i =
     (let seen' = hm_insert i () (dd_seen d) in
      if hm_contains (dd_seen d) i then (False, d\<lparr>dd_seen := seen'\<rparr>)
      else let (order', seen'') = dedup_trim (dd_cap d) (dd_order d @ [i]) seen'
        in (True, d\<lparr>dd_seen := seen'', dd_order := order'\<rparr>))"

definition dedup_len :: "dedup \<Rightarrow> nat" where
  "dedup_len d = hm_len (dd_seen d)"

definition dedup_is_empty :: "dedup \<Rightarrow> bool" where
  "dedup_is_empty d \<longleftrightarrow> hm_len (dd_seen d) = 0"

text \<open>The invariant: the queue lists the keys of the map, without repetition, within the capacity.\<close>

definition dedup_inv :: "dedup \<Rightarrow> bool" where
  "dedup_inv d \<longleftrightarrow> hm_wf (dd_seen d) \<and> distinct (dd_order d)
     \<and> dom (hm_get (dd_seen d)) = set (dd_order d) \<and> length (dd_order d) \<le> dd_cap d
     \<and> 1 \<le> dd_cap d"

text \<open>
  The specification: the filter refuses exactly the identifiers among the last \<open>cap\<close> it accepted.
\<close>

definition last_n :: "nat \<Rightarrow> 'a list \<Rightarrow> 'a list" where
  "last_n n xs = drop (length xs - n) xs"

definition window_check :: "nat \<Rightarrow> msg_id list \<Rightarrow> msg_id \<Rightarrow> bool \<times> msg_id list" where
  "window_check cap hist i =
     (if i \<in> set (last_n cap hist) then (False, hist) else (True, hist @ [i]))"

text \<open>A call leaves an entry alone unless it evicts it: the queue is full and the entry is its head.\<close>

definition dedup_keeps :: "dedup \<Rightarrow> msg_id \<Rightarrow> msg_id \<Rightarrow> bool" where
  "dedup_keeps d i k \<longleftrightarrow> hm_contains (dd_seen d) i \<or> length (dd_order d) < dd_cap d
     \<or> hd (dd_order d) \<noteq> k"

definition dedup_held :: "dedup \<Rightarrow> msg_id \<Rightarrow> bool" where
  "dedup_held d k \<longleftrightarrow> hm_contains (dd_seen d) k"

section \<open>CBOR: what is read back\<close>

lemma from_cbor_decoded: "de bs = Inr e \<Longrightarrow> env_routable e \<Longrightarrow> from_cbor de bs = Inr e"
  by (auto simp: from_cbor_def env_routable_def)

lemma from_cbor_Inr: "from_cbor de bs = Inr e \<Longrightarrow> de bs = Inr e \<and> env_routable e"
  by (cases "de bs") (auto simp: from_cbor_def env_routable_def split: if_splits)

text \<open>
  An envelope written by \<^verbatim>\<open>to_cbor\<close> is read back unchanged by \<^verbatim>\<open>from_cbor\<close> exactly when it is
  not both unicast and group and is not a group envelope with no hops left; otherwise the reader
  refuses it with a CBOR error, so no malformed envelope ever passes the reader.
\<close>

theorem cbor_roundtrip:
  assumes "codec_ok ser de" and "to_cbor ser e = Inr b"
  shows "(env_routable e \<longrightarrow> from_cbor de b = Inr e)
    \<and> (\<not> env_routable e \<longrightarrow> (\<exists>m. from_cbor de b = Inl (Cbor m)))"
proof -
  from assms have "de b = Inr e"
    by (auto simp: to_cbor_def codec_ok_def)
  then show ?thesis
    by (auto simp: from_cbor_def env_routable_def)
qed

theorem cbor_roundtrip_witness:
  "\<exists>ser de e b. from_cbor de b = Inr e \<and> to_cbor ser e = Inr b \<and> env_group e \<noteq> None"
proof -
  define e where "e = \<lparr>env_msg_id = replicate 16 1, env_sender = replicate 32 3,
    env_recipient = None, env_group = Some (replicate 32 4), env_kind = Text, env_body = [7],
    env_sent_at_ms = 0, env_ttl_hops = 6\<rparr>"
  define ser :: "envelope \<Rightarrow> string + bytes"
    where "ser x = (if x = e then Inr [160] else Inl ''unsupported'')" for x
  define de where "de b = (if b = [160] then Inr e else Inl ''bad'')" for b :: bytes
  have ok: "codec_ok ser de" and to: "to_cbor ser e = Inr [160]"
    by (auto simp: codec_ok_def ser_def de_def to_cbor_def)
  have "env_routable e" by (simp add: e_def env_routable_def)
  with cbor_roundtrip [OF ok to] have "from_cbor de [160] = Inr e" by blast
  with to show ?thesis by (intro exI [of _ ser] exI [of _ de] exI [of _ e]) (auto simp: e_def)
qed

section \<open>Frames: the reader inverts the writer\<close>

lemma take_4_frame: "length msg \<le> 2 ^ 32 - 1 \<Longrightarrow> from_be (be_bytes 4 (length msg)) = length msg"
  by (simp add: from_be_be_bytes)

lemma length_frame: "frame m = Some f \<Longrightarrow> length f = 4 + length m"
  by (auto simp: frame_def split: if_splits)

lemma frame_split:
  assumes "4 \<le> length buf" and "from_be (take 4 buf) \<le> length buf - 4"
    and "from_be (take 4 buf) \<le> MAX_FRAME_SIZE"
  shows "frame (take (from_be (take 4 buf)) (drop 4 buf)) = Some (take (4 + from_be (take 4 buf)) buf)"
proof -
  let ?n = "from_be (take 4 buf)"
  have "be_bytes 4 ?n = take 4 buf"
    using be_bytes_from_be [of "take 4 buf"] assms(1) by (simp add: min_absorb2)
  moreover have "take (4 + ?n) buf = take 4 buf @ take ?n (drop 4 buf)"
    by (rule take_add)
  ultimately show ?thesis
    using assms by (simp add: frame_def MAX_FRAME_SIZE_def min_absorb2)
qed

text \<open>
  Stream parsing is exact: \<^verbatim>\<open>unframe\<close> yields a payload and a byte count precisely when the
  buffer starts with the frame that \<^verbatim>\<open>frame\<close> writes for that payload, of at most 4 MiB, and the
  count is that frame's length; whatever follows the frame is left for the next call.
\<close>

theorem unframe_exact:
  "unframe buf = Inr (Some (p, n)) \<longleftrightarrow>
    (\<exists>f rest. frame p = Some f \<and> buf = f @ rest \<and> n = length f \<and> length p \<le> MAX_FRAME_SIZE)"
proof
  assume u: "unframe buf = Inr (Some (p, n))"
  let ?len = "from_be (take 4 buf)"
  from u have h: "4 \<le> length buf" "?len \<le> MAX_FRAME_SIZE" "4 + ?len \<le> length buf"
    and p: "p = take ?len (drop 4 buf)" and n: "n = 4 + ?len"
    by (auto simp: unframe_def Let_def split: if_splits)
  then have "frame p = Some (take n buf)"
    using frame_split [of buf] by simp
  moreover have "buf = take n buf @ drop n buf" by simp
  ultimately show "\<exists>f rest. frame p = Some f \<and> buf = f @ rest \<and> n = length f
      \<and> length p \<le> MAX_FRAME_SIZE"
    using h p n by (intro exI [of _ "take n buf"] exI [of _ "drop n buf"]) simp
next
  assume "\<exists>f rest. frame p = Some f \<and> buf = f @ rest \<and> n = length f \<and> length p \<le> MAX_FRAME_SIZE"
  then obtain f rest where f: "frame p = Some f" and b: "buf = f @ rest" and n: "n = length f"
    and p: "length p \<le> MAX_FRAME_SIZE" by blast
  from f p have f': "f = be_bytes 4 (length p) @ p"
    by (auto simp: frame_def split: if_splits)
  then have "from_be (take 4 buf) = length p"
    using p by (simp add: b from_be_be_bytes MAX_FRAME_SIZE_def)
  then show "unframe buf = Inr (Some (p, n))"
    using p by (simp add: unframe_def b f' n)
qed

text \<open>
  Feeding a frame in pieces is safe: every proper prefix of a frame of at most 4 MiB gives
  \<^verbatim>\<open>None\<close> (wait for more), never an error and never a wrong payload, while a declared length above
  4 MiB is refused with an error from the first four bytes on, whatever follows.
\<close>

theorem unframe_prefix_and_oversize:
  assumes "frame p = Some f"
  shows "(length p \<le> MAX_FRAME_SIZE \<and> k < length f \<longrightarrow> unframe (take k f) = Inr None)
    \<and> (MAX_FRAME_SIZE < length p \<and> 4 \<le> k \<longrightarrow> (\<exists>m. unframe (take k f) = Inl (Cbor m)))"
proof -
  from assms have f: "f = be_bytes 4 (length p) @ p" and l: "length p \<le> 2 ^ 32 - 1"
    by (auto simp: frame_def split: if_splits)
  have len: "4 \<le> k \<Longrightarrow> from_be (take 4 (take k f)) = length p"
    using l by (simp add: f min_absorb1 from_be_be_bytes)
  have "unframe (take k f) = Inr None" if "length p \<le> MAX_FRAME_SIZE" "k < length f"
    using len that by (cases "k < 4") (auto simp: unframe_def Let_def f)
  moreover have "\<exists>m. unframe (take k f) = Inl (Cbor m)" if "MAX_FRAME_SIZE < length p" "4 \<le> k"
    using len that by (auto simp: unframe_def Let_def f MAX_FRAME_SIZE_def)
  ultimately show ?thesis by blast
qed

theorem unframe_prefix_and_oversize_witness:
  "frame [1, 2, 3] = Some [0, 0, 0, 3, 1, 2, 3] \<and> unframe [0, 0, 0, 3, 1] = Inr None"
proof -
  have f: "frame [1, 2, 3] = Some [0, 0, 0, 3, 1, 2, 3]"
    by (simp add: frame_def be_bytes_numeral)
  have "unframe (take 5 [0, 0, 0, 3, 1, 2, 3]) = Inr None"
    using unframe_prefix_and_oversize [OF f, of 5] by (simp add: MAX_FRAME_SIZE_def)
  with f show ?thesis by simp
qed

section \<open>The duplicate filter\<close>

lemma dedup_trim_fst: "fst (dedup_trim cap q s) = last_n cap q"
  by (induction cap q s rule: dedup_trim.induct) (auto simp: last_n_def Suc_diff_le)

lemma dedup_trim_snd:
  "hm_wf s \<Longrightarrow> hm_wf (snd (dedup_trim cap q s))
    \<and> hm_get (snd (dedup_trim cap q s)) = hm_get s |` (- set (take (length q - cap) q))"
proof (induction cap q s rule: dedup_trim.induct)
  case (1 cap seen)
  then show ?case by simp
next
  case (2 cap old rest seen)
  show ?case
  proof (cases "length (old # rest) > cap")
    case True
    with 2 have "hm_wf (snd (dedup_trim cap rest (hm_remove old seen)))"
      and "hm_get (snd (dedup_trim cap rest (hm_remove old seen)))
        = hm_get (hm_remove old seen) |` (- set (take (length rest - cap) rest))"
      by (auto simp: hm.wf_rem)
    moreover have "take (length (old # rest) - cap) (old # rest)
        = old # take (length rest - cap) rest"
      using True by (simp add: Suc_diff_le)
    ultimately show ?thesis
      using True 2(2) by (auto simp: hm.get_rem restrict_map_def fun_eq_iff)
  next
    case False
    with 2(2) show ?thesis by simp
  qed
qed

lemma set_last_n_distinct:
  "distinct xs \<Longrightarrow> set (last_n n xs) = set xs - set (take (length xs - n) xs)"
  using set_take_disj_set_drop_if_distinct [of xs "length xs - n" "length xs - n"]
    set_append [of "take (length xs - n) xs" "drop (length xs - n) xs"]
  by (auto simp: last_n_def)

lemma check_and_insert_old:
  "dedup_inv d \<Longrightarrow> i \<in> set (dd_order d) \<Longrightarrow> fst (check_and_insert d i) = False
    \<and> dedup_inv (snd (check_and_insert d i)) \<and> dd_order (snd (check_and_insert d i)) = dd_order d
    \<and> dd_cap (snd (check_and_insert d i)) = dd_cap d"
  by (auto simp: check_and_insert_def dedup_inv_def hm_contains_def Let_def hm.wf_ins hm.get_ins
      dest: domD)

lemma check_and_insert_new:
  assumes "dedup_inv d" and "i \<notin> set (dd_order d)"
  shows "fst (check_and_insert d i) \<and> dedup_inv (snd (check_and_insert d i))
    \<and> dd_order (snd (check_and_insert d i)) = last_n (dd_cap d) (dd_order d @ [i])
    \<and> dd_cap (snd (check_and_insert d i)) = dd_cap d"
proof -
  let ?q = "dd_order d @ [i]"
  let ?s = "hm_insert i () (dd_seen d)"
  let ?t = "dedup_trim (dd_cap d) ?q ?s"
  from assms have "\<not> hm_contains (dd_seen d) i"
    by (auto simp: dedup_inv_def hm_contains_def)
  then have r: "check_and_insert d i
      = (True, d\<lparr>dd_seen := snd ?t, dd_order := fst ?t\<rparr>)"
    by (simp add: check_and_insert_def Let_def split: prod.split)
  have wf: "hm_wf ?s" and dom: "dom (hm_get ?s) = set ?q" and dist: "distinct ?q"
    using assms by (auto simp: dedup_inv_def hm.wf_ins hm.get_ins)
  have "dom (hm_get (snd ?t)) = set (last_n (dd_cap d) ?q)"
    using dedup_trim_snd [OF wf] dom by (auto simp: set_last_n_distinct [OF dist])
  moreover have "distinct (last_n (dd_cap d) ?q)"
    using dist by (auto simp: last_n_def simp del: drop_append)
  moreover have "length (last_n (dd_cap d) ?q) \<le> dd_cap d"
    by (simp add: last_n_def)
  ultimately show ?thesis
    using assms(1) dedup_trim_snd [OF wf] by (simp add: r dedup_inv_def dedup_trim_fst)
qed

lemma dedup_new_inv: "dedup_inv (dedup_new cap)"
  by (simp add: dedup_inv_def dedup_new_def)

lemma dedup_inv_contains: "dedup_inv d \<Longrightarrow> hm_contains (dd_seen d) i \<longleftrightarrow> i \<in> set (dd_order d)"
  by (auto simp: dedup_inv_def hm_contains_def)

lemma dedup_inv_check: "dedup_inv d \<Longrightarrow> dedup_inv (snd (check_and_insert d i))"
  using check_and_insert_old check_and_insert_new by blast

lemma last_n_snoc_mem:
  "k \<in> set xs \<Longrightarrow> length xs < n \<or> (xs \<noteq> [] \<and> hd xs \<noteq> k \<and> length xs \<le> n)
    \<Longrightarrow> k \<in> set (last_n n (xs @ [i]))"
proof -
  assume k: "k \<in> set xs" and h: "length xs < n \<or> (xs \<noteq> [] \<and> hd xs \<noteq> k \<and> length xs \<le> n)"
  show ?thesis
  proof (cases "length xs < n")
    case True
    with k show ?thesis by (simp add: last_n_def)
  next
    case False
    with h have "length xs = n" and ne: "xs \<noteq> []" "hd xs \<noteq> k" by auto
    then have "last_n n (xs @ [i]) = tl xs @ [i]"
      by (cases xs) (auto simp: last_n_def)
    with k ne show ?thesis by (cases xs) auto
  qed
qed

interpretation dd: replay_guard check_and_insert "\<lambda>i. i" dedup_held dedup_inv dedup_keeps
proof unfold_locales
  fix s :: dedup and i k :: msg_id
  assume inv: "dedup_inv s"
  show "dedup_inv (snd (check_and_insert s i))"
    using inv by (rule dedup_inv_check)
  show "fst (check_and_insert s i) \<Longrightarrow> dedup_held (snd (check_and_insert s i)) i"
    using inv check_and_insert_old [OF inv, of i] check_and_insert_new [OF inv, of i]
    by (cases "i \<in> set (dd_order s)")
      (auto simp: dedup_held_def dedup_inv_contains last_n_def dedup_inv_def)
  show "dedup_held s i \<Longrightarrow> dedup_keeps s i i \<Longrightarrow> \<not> fst (check_and_insert s i)"
    using inv by (simp add: dedup_held_def dedup_inv_contains check_and_insert_old)
  assume held: "dedup_held s k" and keeps: "dedup_keeps s i k"
  show "dedup_held (snd (check_and_insert s i)) k"
  proof (cases "i \<in> set (dd_order s)")
    case True
    then show ?thesis
      using inv held check_and_insert_old [OF inv True] by (simp add: dedup_held_def dedup_inv_contains)
  next
    case False
    then show ?thesis
      using inv held keeps check_and_insert_new [OF inv False]
      by (auto simp: dedup_held_def dedup_inv_contains dedup_keeps_def dedup_inv_def
          intro!: last_n_snoc_mem)
  qed
qed

lemma last_n_last_n_snoc: "last_n c (last_n c xs @ [i]) = last_n c (xs @ [i])"
proof (cases "length xs < c")
  case True
  then show ?thesis by (simp add: last_n_def)
next
  case False
  then show ?thesis by (simp add: last_n_def Suc_diff_le)
qed

lemma check_and_insert_window:
  assumes "dedup_inv d" and "dd_order d = last_n (dd_cap d) hist"
  shows "fst (check_and_insert d i) = fst (window_check (dd_cap d) hist i)
    \<and> dd_order (snd (check_and_insert d i)) = last_n (dd_cap d) (snd (window_check (dd_cap d) hist i))
    \<and> dd_cap (snd (check_and_insert d i)) = dd_cap d"
  using assms check_and_insert_old [OF assms(1), of i] check_and_insert_new [OF assms(1), of i]
  by (cases "i \<in> set (dd_order d)") (auto simp: window_check_def last_n_last_n_snoc)

lemma accepted_window:
  "dedup_inv d \<Longrightarrow> dd_order d = last_n (dd_cap d) hist \<Longrightarrow>
    accepted check_and_insert d is = accepted (window_check (dd_cap d)) hist is"
proof (induction "is" arbitrary: d hist)
  case Nil
  then show ?case by simp
next
  case (Cons i "is")
  note w = check_and_insert_window [OF Cons.prems, of i]
  have "accepted check_and_insert (snd (check_and_insert d i)) is
      = accepted (window_check (dd_cap d)) (snd (window_check (dd_cap d) hist i)) is"
    using Cons.IH [OF dedup_inv_check [OF Cons.prems(1)]] w by simp
  with w show ?case by simp
qed

lemma dedup_inv_len: "dedup_inv d \<Longrightarrow> dedup_len d = length (dd_order d)"
  by (simp add: dedup_len_def hm_len_card dedup_inv_def distinct_card)

lemma run_cap: "dd_cap (run_state check_and_insert d is) = dd_cap d"
proof (induction "is" arbitrary: d)
  case Nil
  then show ?case by simp
next
  case (Cons i "is")
  have "dd_cap (snd (check_and_insert d i)) = dd_cap d"
    by (simp add: check_and_insert_def Let_def split: prod.split)
  with Cons show ?case by simp
qed

text \<open>
  C39. Refinement: over every sequence of calls on a filter made by \<^verbatim>\<open>Dedup::new(cap)\<close>, the
  identifiers it accepts are those the window specification accepts (an identifier is refused if
  and only if it is among the last \<open>max cap 1\<close> accepted ones), and the filter never holds more
  than that many entries.
\<close>

theorem dedup_refines_window:
  "accepted check_and_insert (dedup_new cap) ids = accepted (window_check (max cap 1)) [] ids
    \<and> dedup_len (run_state check_and_insert (dedup_new cap) ids) \<le> max cap 1"
proof
  have cap: "dd_cap (dedup_new cap) = max cap 1" and "dd_order (dedup_new cap) = []"
    by (simp_all add: dedup_new_def)
  then show "accepted check_and_insert (dedup_new cap) ids
      = accepted (window_check (max cap 1)) [] ids"
    using accepted_window [OF dedup_new_inv, of cap "[]" ids] by (simp add: last_n_def)
  have "dedup_inv (run_state check_and_insert (dedup_new cap) ids)"
    by (rule dd.inv_run [OF dedup_new_inv])
  then show "dedup_len (run_state check_and_insert (dedup_new cap) ids) \<le> max cap 1"
    using run_cap [of "dedup_new cap" ids] cap by (auto simp: dedup_inv_len dedup_inv_def)
qed

text \<open>
  \<^verbatim>\<open>Dedup::default()\<close>, which the \<^verbatim>\<open>#[derive(Default)]\<close> of the source makes public, has
  capacity 0 and filters nothing: every message of every sequence is reported as new, duplicates
  included. Only \<^verbatim>\<open>Dedup::new\<close> enforces the lower bound 1.
\<close>

theorem dedup_default_filters_nothing:
  "accepted check_and_insert dedup_default ids = ids"
proof -
  have "check_and_insert dedup_default i = (True, dedup_default)" for i
    by (simp add: check_and_insert_def dedup_default_def hm_contains_def hm_remove_def hm_insert_def)
  then show ?thesis by (induction ids) auto
qed

end
