(* ===== verification/Identity.thy ===== *)
theory Identity
  imports Strings Envelope
begin

text \<open>
  \<^verbatim>\<open>crates/core/src/identity.rs\<close>: Ed25519 identities, the domain-separated 1024-bit fingerprint and
  its display. \<^verbatim>\<open>ed25519-dalek\<close>, \<^verbatim>\<open>blake3\<close> and \<^verbatim>\<open>getrandom\<close> are parameters: a record of signature
  functions, an extendable-output function \<open>xof msg n\<close>, and the outcome of a call for random bytes.
\<close>

section \<open>The signature library\<close>

text \<open>
  \<open>ed_pub\<close> is the public key of a seed, \<open>ed_sign\<close> the 64-byte signature, \<open>ed_key_err\<close> the outcome of
  \<^verbatim>\<open>VerifyingKey::from_bytes\<close> and \<open>ed_verify_err\<close> that of \<^verbatim>\<open>verify_strict\<close> (\<open>None\<close> is success).
\<close>

record ed25519 =
  ed_pub :: "bytes \<Rightarrow> node_id"
  ed_sign :: "bytes \<Rightarrow> bytes \<Rightarrow> bytes"
  ed_key_err :: "node_id \<Rightarrow> string option"
  ed_verify_err :: "node_id \<Rightarrow> bytes \<Rightarrow> bytes \<Rightarrow> string option"

text \<open>Documented behaviour: an honest signature has 64 bytes and verifies under the signer's key.\<close>

definition ed25519_ok :: "ed25519 \<Rightarrow> bool" where
  "ed25519_ok ed \<longleftrightarrow> (\<forall>seed m. ed_key_err ed (ed_pub ed seed) = None
     \<and> length (ed_sign ed seed m) = 64
     \<and> ed_verify_err ed (ed_pub ed seed) m (ed_sign ed seed m) = None)"

section \<open>Identities\<close>

record identity =
  id_seed :: bytes

definition from_seed :: "bytes \<Rightarrow> identity" where
  "from_seed seed = \<lparr>id_seed = seed\<rparr>"

definition generate :: "string + bytes \<Rightarrow> identity result" where
  "generate rng = try_res (map_err Entropy rng) (\<lambda>seed. Inr (from_seed seed))"

definition node_id_of :: "ed25519 \<Rightarrow> identity \<Rightarrow> node_id" where
  "node_id_of ed i = ed_pub ed (id_seed i)"

definition sign :: "ed25519 \<Rightarrow> identity \<Rightarrow> bytes \<Rightarrow> bytes" where
  "sign ed i msg = ed_sign ed (id_seed i) msg"

text \<open>
  \<^verbatim>\<open>VerifyingKey::from_bytes\<close>, the conversion of the signature bytes to \<^verbatim>\<open>[u8; 64]\<close>, then the strict
  verification: the three steps \<^verbatim>\<open>NodeKeyAnnouncement::verify\<close> and \<^verbatim>\<open>RelayTicket::verify\<close> start with.
\<close>

definition verify_sig :: "ed25519 \<Rightarrow> node_id \<Rightarrow> bytes \<Rightarrow> bytes \<Rightarrow> unit result" where
  "verify_sig ed pk msg sig =
     try_res (guard_fault Crypto (ed_key_err ed pk)) (\<lambda>_.
       if length sig \<noteq> 64 then Inl (Crypto ''signature length must be 64'')
       else guard_fault Crypto (ed_verify_err ed pk msg sig))"

section \<open>Fingerprints\<close>

definition FINGERPRINT_LEN :: nat where
  "FINGERPRINT_LEN = 128"

text \<open>What \<^verbatim>\<open>fingerprint1024\<close> feeds the hasher: the domain tag, the number of parts, and every part
  after its length.\<close>

definition fingerprint_input :: "bytes list \<Rightarrow> bytes" where
  "fingerprint_input parts = ascii ''dc-fingerprint-v1'' @ be_bytes 4 (length parts)
     @ concat (map (\<lambda>p. be_bytes 8 (length p) @ p) parts)"

definition fingerprint1024 :: "(bytes \<Rightarrow> nat \<Rightarrow> bytes) \<Rightarrow> bytes list \<Rightarrow> bytes" where
  "fingerprint1024 xof parts = xof (fingerprint_input parts) FINGERPRINT_LEN"

definition identity_fingerprint :: "(bytes \<Rightarrow> nat \<Rightarrow> bytes) \<Rightarrow> node_id \<Rightarrow> bytes" where
  "identity_fingerprint xof n = fingerprint1024 xof [ascii ''identity'', n]"

definition format_fingerprint :: "bytes \<Rightarrow> string" where
  "format_fingerprint fp = join_with '' '' (chunks 8 (hex fp))"

definition safety_groups :: "bytes \<Rightarrow> nat \<Rightarrow> string" where
  "safety_groups fp groups = join_with '' '' (take groups (split_on (CHR '' '') (format_fingerprint fp)))"

section \<open>Signatures\<close>

lemma verify_sig_ok_iff:
  "verify_sig ed pk msg sig = Inr u \<longleftrightarrow>
    ed_key_err ed pk = None \<and> length sig = 64 \<and> ed_verify_err ed pk msg sig = None"
  by (auto simp: verify_sig_def result_simps)

lemma verify_sig_honest:
  "ed25519_ok ed \<Longrightarrow> verify_sig ed (node_id_of ed i) msg (sign ed i msg) = Inr ()"
  by (simp add: verify_sig_ok_iff ed25519_ok_def node_id_of_def sign_def)

lemma verify_sig_Crypto: "verify_sig ed pk msg sig = Inl e \<Longrightarrow> \<exists>m. e = Crypto m"
  by (auto simp: verify_sig_def guard_fault_def try_res_def split: option.splits if_splits)

text \<open>
  A signed object: its payload, the key it names as the signer, and its signature field. Signing
  with the named key gives an object that verifies; the payload does not depend on the signature.
\<close>

locale signed_object =
  fixes payload :: "'o \<Rightarrow> bytes"
    and signer :: "'o \<Rightarrow> node_id"
    and get_sig :: "'o \<Rightarrow> bytes"
    and set_sig :: "bytes \<Rightarrow> 'o \<Rightarrow> 'o"
  assumes payload_set: "payload (set_sig s x) = payload x"
    and signer_set: "signer (set_sig s x) = signer x"
    and get_set: "get_sig (set_sig s x) = s"
begin

lemma signed_verifies:
  "ed25519_ok ed \<Longrightarrow> node_id_of ed i = signer x \<Longrightarrow>
    verify_sig ed (signer (set_sig (sign ed i (payload x)) x))
      (payload (set_sig (sign ed i (payload x)) x))
      (get_sig (set_sig (sign ed i (payload x)) x)) = Inr ()"
  using verify_sig_honest [of ed i "payload x"] by (simp add: payload_set signer_set get_set)

end

section \<open>The fingerprint input determines the parts\<close>

lemma parts_encoding_inj:
  "length ps = length qs \<Longrightarrow>
    \<forall>p \<in> set ps. length p < 2 ^ 64 \<Longrightarrow> \<forall>q \<in> set qs. length q < 2 ^ 64 \<Longrightarrow>
    concat (map (\<lambda>p. be_bytes 8 (length p) @ p) ps) = concat (map (\<lambda>p. be_bytes 8 (length p) @ p) qs)
    \<Longrightarrow> ps = qs"
proof (induction ps qs rule: list_induct2)
  case Nil
  then show ?case by simp
next
  case (Cons p ps q qs)
  let ?c = "\<lambda>ps. concat (map (\<lambda>p. be_bytes 8 (length p) @ p) ps)"
  from Cons.prems(3) have eq: "be_bytes 8 (length p) @ p @ ?c ps = be_bytes 8 (length q) @ q @ ?c qs"
    by simp
  then have "be_bytes 8 (length p) = be_bytes 8 (length q)" and rest: "p @ ?c ps = q @ ?c qs"
    by (simp_all add: append_eq_len)
  then have "length p mod 256 ^ 8 = length q mod 256 ^ 8"
    by (metis from_be_be_bytes)
  then have "length p = length q"
    using Cons.prems(1,2) by simp
  with rest have "p = q" and "?c ps = ?c qs" by auto
  with Cons show ?case by simp
qed

text \<open>
  The fingerprint input is unambiguous: two lists of parts (fewer than $2^{32}$ parts, each
  shorter than $2^{64}$ bytes) that feed the hash the same bytes are the same list. So moving bytes
  between parts, reordering, adding or dropping parts always changes what is hashed.
\<close>

theorem fingerprint_input_unambiguous:
  assumes "length ps < 2 ^ 32" and "length qs < 2 ^ 32"
    and "\<forall>p \<in> set ps. length p < 2 ^ 64" and "\<forall>q \<in> set qs. length q < 2 ^ 64"
  shows "fingerprint_input ps = fingerprint_input qs \<longleftrightarrow> ps = qs"
proof
  assume "fingerprint_input ps = fingerprint_input qs"
  then have "be_bytes 4 (length ps) = be_bytes 4 (length qs)"
    and body: "concat (map (\<lambda>p. be_bytes 8 (length p) @ p) ps)
      = concat (map (\<lambda>p. be_bytes 8 (length p) @ p) qs)"
    by (simp_all add: fingerprint_input_def append_eq_len)
  then have "length ps mod 256 ^ 4 = length qs mod 256 ^ 4"
    by (metis from_be_be_bytes)
  with assms(1,2) have "length ps = length qs" by simp
  with assms(3,4) body show "ps = qs" by (intro parts_encoding_inj)
qed simp

theorem fingerprint_input_unambiguous_witness:
  "fingerprint_input [ascii ''identity'', [1, 2]] \<noteq> fingerprint_input [ascii ''identity'', [1], [2]]"
  by (subst fingerprint_input_unambiguous) simp_all

section \<open>Display\<close>

lemma format_fingerprint_groups:
  assumes "length fp = 4 * k" and "0 < k"
  shows "length (chunks 8 (hex fp)) = k \<and> (\<forall>w \<in> set (chunks 8 (hex fp)). length w = 8)
    \<and> split_on (CHR '' '') (format_fingerprint fp) = chunks 8 (hex fp)"
proof -
  have ex: "length (chunks 8 (hex fp)) = k \<and> (\<forall>w \<in> set (chunks 8 (hex fp)). length w = 8)"
    using assms(1) by (intro chunks_exact) simp_all
  then have "chunks 8 (hex fp) \<noteq> []" using assms(2) by auto
  moreover have "\<forall>w \<in> set (chunks 8 (hex fp)). CHR '' '' \<notin> set w"
    using set_chunks [of 8] hex_not_special(1) by fastforce
  ultimately show ?thesis
    using ex by (simp add: format_fingerprint_def split_on_join)
qed

text \<open>
  The safety code of a fingerprint of \<open>4k\<close> bytes cut to \<open>g\<close> groups (\<open>0 < g \<le> k\<close>) is the
  first \<open>g\<close> blocks of eight hexadecimal digits, \<open>9g - 1\<close> characters. Four groups therefore show 32
  digits (35 characters with the separators).
\<close>

theorem safety_groups_shape:
  assumes "length fp = 4 * k" and "0 < g" and "g \<le> k"
  shows "safety_groups fp g = join_with '' '' (take g (chunks 8 (hex fp)))
    \<and> length (safety_groups fp g) = 9 * g - 1"
proof -
  have fmt: "length (chunks 8 (hex fp)) = k" "\<forall>w \<in> set (chunks 8 (hex fp)). length w = 8"
    "split_on (CHR '' '') (format_fingerprint fp) = chunks 8 (hex fp)"
    using format_fingerprint_groups [OF assms(1)] assms by auto
  then have eq: "safety_groups fp g = join_with '' '' (take g (chunks 8 (hex fp)))"
    by (simp add: safety_groups_def)
  have "take g (chunks 8 (hex fp)) \<noteq> []" and "length (take g (chunks 8 (hex fp))) = g"
    using fmt(1) assms by auto
  moreover have "\<forall>w \<in> set (take g (chunks 8 (hex fp))). length w = 8"
    using fmt(2) by (auto dest: in_set_takeD)
  ultimately have "length (join_with '' '' (take g (chunks 8 (hex fp)))) = g * 8 + (g - 1)"
    using length_join_equal [of "take g (chunks 8 (hex fp))" 8] by metis
  then show ?thesis
    using assms(2) by (simp add: eq)
qed

theorem safety_groups_shape_witness:
  "safety_groups (replicate 128 171) 4 = join_with '' '' (take 4 (chunks 8 (hex (replicate 128 171))))
    \<and> length (safety_groups (replicate 128 171) 4) = 35"
  by (rule safety_groups_shape [of "replicate 128 171" 32 4, simplified])

end
