(* ===== verification/Entropy_Pool.thy ===== *)
theory Entropy_Pool
  imports Identity
begin

text \<open>
  \<^verbatim>\<open>crates/core/src/entropy.rs\<close>: the entropy harvester. A \<^verbatim>\<open>blake3::Hasher\<close> is the byte string
  absorbed so far (successive \<^verbatim>\<open>update\<close> calls concatenate), its extendable output the parameter
  \<open>xof\<close>; the operating system's random bytes are the argument \<open>rng\<close> of each call that asks for them.
\<close>

record harvester =
  eh_pool :: bytes
  eh_draws :: u64

definition harvester_new :: "string + bytes \<Rightarrow> harvester result" where
  "harvester_new rng = try_res (map_err Entropy rng) (\<lambda>seed.
     Inr \<lparr>eh_pool = ascii ''dc-entropy-v1'' @ seed, eh_draws = 0\<rparr>)"

definition mix :: "harvester \<Rightarrow> bytes \<Rightarrow> harvester" where
  "mix h data = h\<lparr>eh_pool := eh_pool h @ be_bytes 8 (length data) @ data\<rparr>"

text \<open>\<^verbatim>\<open>draw\<close> fills a buffer of \<open>n\<close> bytes. When the system call fails the harvester is untouched.\<close>

definition draw :: "(bytes \<Rightarrow> nat \<Rightarrow> bytes) \<Rightarrow> string + bytes \<Rightarrow> nat \<Rightarrow> harvester
    \<Rightarrow> bytes result \<times> harvester" where
  "draw xof rng n h = (case rng of
     Inl m \<Rightarrow> (Inl (Entropy m), h)
   | Inr fresh \<Rightarrow>
       let h1 = mix h fresh;
           h2 = h1\<lparr>eh_draws := eh_draws h1 + 1\<rparr>;
           h3 = h2\<lparr>eh_pool := eh_pool h2 @ u64_be (eh_draws h2)\<rparr>
       in (Inr (xof (eh_pool h3) n), h3))"

definition token512 :: "(bytes \<Rightarrow> nat \<Rightarrow> bytes) \<Rightarrow> string + bytes \<Rightarrow> harvester
    \<Rightarrow> bytes result \<times> harvester" where
  "token512 xof rng h = draw xof rng 64 h"

text \<open>A caller's sequence of operations, and the hash inputs of its successful draws.\<close>

datatype entropy_op = Mix bytes | Draw "string + bytes" nat

fun entropy_step :: "(bytes \<Rightarrow> nat \<Rightarrow> bytes) \<Rightarrow> harvester \<Rightarrow> entropy_op \<Rightarrow> harvester" where
  "entropy_step xof h (Mix d) = mix h d"
| "entropy_step xof h (Draw rng n) = snd (draw xof rng n h)"

fun draw_inputs :: "(bytes \<Rightarrow> nat \<Rightarrow> bytes) \<Rightarrow> harvester \<Rightarrow> entropy_op list \<Rightarrow> bytes list" where
  "draw_inputs xof h [] = []"
| "draw_inputs xof h (op # ops) =
     (case op of Draw (Inr fresh) n \<Rightarrow> [eh_pool (entropy_step xof h op)] | _ \<Rightarrow> [])
     @ draw_inputs xof (entropy_step xof h op) ops"

lemma draw_Inr:
  "draw xof (Inr fresh) n h = (let p = eh_pool h @ be_bytes 8 (length fresh) @ fresh
      @ u64_be (eh_draws h + 1) in (Inr (xof p n), \<lparr>eh_pool = p, eh_draws = eh_draws h + 1\<rparr>))"
  by (simp add: draw_def mix_def Let_def)

lemma draw_Inl: "draw xof (Inl m) n h = (Inl (Entropy m), h)"
  by (simp add: draw_def)

lemma pool_grows: "length (eh_pool h) \<le> length (eh_pool (entropy_step xof h op))"
proof (cases op)
  case (Mix d)
  then show ?thesis by (simp add: mix_def)
next
  case (Draw rng n)
  then show ?thesis by (cases rng) (simp_all add: draw_Inr draw_Inl Let_def)
qed

lemma draw_inputs_longer:
  "p \<in> set (draw_inputs xof h ops) \<Longrightarrow> length (eh_pool h) + 16 \<le> length p"
proof (induction ops arbitrary: h)
  case Nil
  then show ?case by simp
next
  case (Cons op ops)
  from Cons.prems consider (now) fresh n where "op = Draw (Inr fresh) n"
      and "p = eh_pool (entropy_step xof h op)"
    | (later) "p \<in> set (draw_inputs xof (entropy_step xof h op) ops)"
    by (auto split: entropy_op.splits sum.splits)
  then show ?case
  proof cases
    case now
    then show ?thesis by (simp add: draw_Inr Let_def)
  next
    case later
    from Cons.IH [OF this] pool_grows [of h xof op] show ?thesis by linarith
  qed
qed

text \<open>
  However sensor data is mixed in and however often the system call fails in between, no two
  successful draws of a harvester hash the same input: the inputs are pairwise distinct, so equal
  outputs would need a collision of the hash. A failed draw changes nothing.
\<close>

theorem draws_hash_distinct_inputs:
  "distinct (draw_inputs xof h ops) \<and> snd (draw xof (Inl m) n h) = h"
proof
  show "distinct (draw_inputs xof h ops)"
  proof (induction ops arbitrary: h)
    case Nil
    then show ?case by simp
  next
    case (Cons op ops)
    have "eh_pool (entropy_step xof h op) \<notin> set (draw_inputs xof (entropy_step xof h op) ops)"
      using draw_inputs_longer by fastforce
    with Cons show ?case by (auto split: entropy_op.splits sum.splits)
  qed
qed (simp add: draw_Inl)

end
