(* ===== verification/Mailbox.thy ===== *)
theory Mailbox
  imports Envelope Identity
begin

text \<open>
  \<^verbatim>\<open>crates/core/src/mailbox.rs\<close>: the mailbox gate. A bucket write carries an envelope, a key version,
  a nonce, a time stamp and a keyed-BLAKE3 tag over all of them; the inbound path checks the tag, then
  the replay window, then the message-id ledger, in that order.

  \<open>keyed key msg\<close> (keyed BLAKE3) and \<open>derive ctx material\<close> (\<^verbatim>\<open>blake3::derive_key\<close>) are parameters.
\<close>

section \<open>Keys\<close>

definition REPLAY_WINDOW_MS :: u64 where
  "REPLAY_WINDOW_MS = 5 * 60 * 1000"

definition generate_bucket_address :: "string + bytes \<Rightarrow> bytes result" where
  "generate_bucket_address rng = map_err Entropy rng"

definition mailbox_material :: "bytes \<Rightarrow> node_id \<Rightarrow> u32 \<Rightarrow> bytes" where
  "mailbox_material handshake_secret bucket serial = handshake_secret @ bucket @ u32_be serial"

definition derive_mailbox_secret ::
    "(string \<Rightarrow> bytes \<Rightarrow> bytes) \<Rightarrow> bytes \<Rightarrow> node_id \<Rightarrow> u32 \<Rightarrow> bytes" where
  "derive_mailbox_secret derive handshake_secret bucket serial =
     derive ''dc-mailbox-v1'' (mailbox_material handshake_secret bucket serial)"

section \<open>Bucket writes\<close>

record bucket_write =
  bw_envelope :: envelope
  bw_serial :: u32
  bw_nonce :: bytes
  bw_ts_ms :: u64
  bw_mac :: bytes

definition wf_write :: "bucket_write \<Rightarrow> bool" where
  "wf_write w \<longleftrightarrow> wf_envelope (bw_envelope w) \<and> length (bw_nonce w) = 16 \<and> length (bw_mac w) = 32"

definition bw_to_cbor :: "(bucket_write \<Rightarrow> string + bytes) \<Rightarrow> bucket_write \<Rightarrow> bytes result" where
  "bw_to_cbor ser w = map_err Cbor (ser w)"

definition bw_from_cbor :: "(bytes \<Rightarrow> string + bucket_write) \<Rightarrow> bytes \<Rightarrow> bucket_write result" where
  "bw_from_cbor de bs = map_err Cbor (de bs)"

text \<open>The optional fields are bound with a presence flag.\<close>

definition opt_field :: "bytes option \<Rightarrow> bytes" where
  "opt_field x = (case x of Some r \<Rightarrow> 1 # r | None \<Rightarrow> [0])"

definition mac_input :: "bucket_write \<Rightarrow> bytes" where
  "mac_input w = (let e = bw_envelope w in
     ascii ''dc-bucket-write-v1'' @ [10] @ u32_be (bw_serial w) @ bw_nonce w @ u64_be (bw_ts_ms w)
     @ env_msg_id e @ env_sender e @ opt_field (env_recipient e) @ opt_field (env_group e)
     @ [kind_u8 (env_kind e)] @ u64_be (env_sent_at_ms e) @ [env_ttl_hops e] @ env_body e)"

definition compute_mac :: "(bytes \<Rightarrow> bytes \<Rightarrow> bytes) \<Rightarrow> bytes \<Rightarrow> bucket_write \<Rightarrow> bytes" where
  "compute_mac keyed secret w = keyed secret (mac_input w)"

definition seal :: "(bytes \<Rightarrow> bytes \<Rightarrow> bytes) \<Rightarrow> envelope \<Rightarrow> bytes \<Rightarrow> u32 \<Rightarrow> u64 \<Rightarrow> bytes
    \<Rightarrow> bucket_write" where
  "seal keyed env secret serial ts_ms nonce =
     (let w = \<lparr>bw_envelope = env, bw_serial = serial, bw_nonce = nonce, bw_ts_ms = ts_ms,
               bw_mac = replicate 32 0\<rparr>
      in w\<lparr>bw_mac := compute_mac keyed secret w\<rparr>)"

definition bw_verify :: "(bytes \<Rightarrow> bytes \<Rightarrow> bytes) \<Rightarrow> bucket_write \<Rightarrow> bytes \<Rightarrow> u64 \<Rightarrow> unit result" where
  "bw_verify keyed w secret now_ms =
     (let expected = compute_mac keyed secret w in
      if ct_diff (bw_mac w) expected \<noteq> 0 then Inl (Crypto ''mailbox mac mismatch'')
      else let early = bw_ts_ms w > sat_add now_ms REPLAY_WINDOW_MS;
               late = bw_ts_ms w < sat_sub now_ms REPLAY_WINDOW_MS
        in if early \<or> late then Inl (Crypto ''mailbox write outside replay window'')
           else Inr ())"

text \<open>Documented behaviour of keyed BLAKE3: 32-byte tags.\<close>

definition keyed_ok :: "(bytes \<Rightarrow> bytes \<Rightarrow> bytes) \<Rightarrow> bool" where
  "keyed_ok keyed \<longleftrightarrow> (\<forall>k m. length (keyed k m) = 32)"

section \<open>The message-id ledger\<close>

record nonce_cache =
  nc_entries :: "(msg_id, u64) hmap"
  nc_hard_cap :: nat

definition nc_new :: "nat \<Rightarrow> nonce_cache" where
  "nc_new cap = \<lparr>nc_entries = [], nc_hard_cap = max cap 4096\<rparr>"

text \<open>\<^verbatim>\<open>2 * 60_000\<close>, the tolerance added to the expiry and again when entries are dropped.\<close>

definition SKEW_MS :: u64 where
  "SKEW_MS = 2 * 60000"

text \<open>
  \<^verbatim>\<open>retain(|_, exp| *exp + 2 * 60_000 > now_ms)\<close>: the plain addition overflows, and so panics in
  a build with overflow checks, when an expiry is within two minutes of \<^verbatim>\<open>u64::MAX\<close>.
\<close>

definition nc_retain :: "u64 \<Rightarrow> (msg_id, u64) hmap \<Rightarrow> (msg_id, u64) hmap option" where
  "nc_retain now_ms m =
     (if \<exists>exp \<in> set (hm_values m). chk_add exp SKEW_MS = None then None
      else Some (hm_retain (\<lambda>_ exp. exp + SKEW_MS > now_ms) m))"

definition nc_check_and_insert :: "nonce_cache \<Rightarrow> msg_id \<Rightarrow> u64 \<Rightarrow> u64 \<Rightarrow> (bool \<times> nonce_cache) option"
where
  "nc_check_and_insert c i ts_ms now_ms =
     (let expiry = sat_add ts_ms (REPLAY_WINDOW_MS + 2 * 60000) in
      do {
        m \<leftarrow> nc_retain now_ms (nc_entries c);
        let c = c\<lparr>nc_entries := m\<rparr>;
        if hm_contains m i then Some (False, c)
        else if hm_len m \<ge> nc_hard_cap c then Some (False, c)
        else Some (True, c\<lparr>nc_entries := hm_insert i expiry m\<rparr>)
      })"

definition nc_len :: "nonce_cache \<Rightarrow> nat" where
  "nc_len c = hm_len (nc_entries c)"

definition nc_is_empty :: "nonce_cache \<Rightarrow> bool" where
  "nc_is_empty c \<longleftrightarrow> hm_len (nc_entries c) = 0"

definition verify_inbound ::
    "(bytes \<Rightarrow> bytes \<Rightarrow> bytes) \<Rightarrow> bucket_write \<Rightarrow> bytes \<Rightarrow> nonce_cache \<Rightarrow> u64
      \<Rightarrow> (unit result \<times> nonce_cache) option" where
  "verify_inbound keyed w secret nonces now_ms =
     (case bw_verify keyed w secret now_ms of
        Inl e \<Rightarrow> Some (Inl e, nonces)
      | Inr _ \<Rightarrow> do {
          (fresh, nonces') \<leftarrow> nc_check_and_insert nonces (env_msg_id (bw_envelope w)) (bw_ts_ms w) now_ms;
          if \<not> fresh then Some (Inl (Crypto ''replayed write''), nonces')
          else Some (Inr (), nonces')
        })"

section \<open>Runs\<close>

text \<open>A call as a step of a replay guard: a call that panics accepts nothing.\<close>

definition nc_step :: "nonce_cache \<Rightarrow> msg_id \<times> u64 \<times> u64 \<Rightarrow> bool \<times> nonce_cache" where
  "nc_step c inp = (case inp of (i, ts, now) \<Rightarrow>
     (case nc_check_and_insert c i ts now of None \<Rightarrow> (False, c) | Some r \<Rightarrow> r))"

definition inbound_step :: "(bytes \<Rightarrow> bytes \<Rightarrow> bytes) \<Rightarrow> bytes \<Rightarrow> nonce_cache \<Rightarrow> bucket_write \<times> u64
    \<Rightarrow> bool \<times> nonce_cache" where
  "inbound_step keyed secret c inp = (case inp of (w, now) \<Rightarrow>
     (case verify_inbound keyed w secret c now of
        None \<Rightarrow> (False, c) | Some (r, c') \<Rightarrow> (r = Inr (), c')))"

definition nc_inv :: "nonce_cache \<Rightarrow> bool" where
  "nc_inv c \<longleftrightarrow> hm_wf (nc_entries c) \<and> hm_len (nc_entries c) \<le> nc_hard_cap c"

definition nc_held :: "nonce_cache \<Rightarrow> msg_id \<Rightarrow> bool" where
  "nc_held c k \<longleftrightarrow> hm_contains (nc_entries c) k"

text \<open>A call keeps an entry unless its clock has reached the entry's expiry plus the tolerance.\<close>

definition nc_keeps :: "nonce_cache \<Rightarrow> msg_id \<times> u64 \<times> u64 \<Rightarrow> msg_id \<Rightarrow> bool" where
  "nc_keeps c inp k = (case inp of (_, _, now) \<Rightarrow>
     (case hm_get (nc_entries c) k of None \<Rightarrow> True
      | Some exp \<Rightarrow> unat now < unat exp + unat SKEW_MS))"

text \<open>The identity of a write for replay purposes: its message id and its time stamp.\<close>

abbreviation write_key :: "bucket_write \<times> u64 \<Rightarrow> msg_id \<times> u64" where
  "write_key inp \<equiv> (env_msg_id (bw_envelope (fst inp)), bw_ts_ms (fst inp))"

text \<open>Every expiry in the ledger stays below a bound that the clock readings so far determine.\<close>

definition nc_bounded :: "nat \<Rightarrow> nonce_cache \<Rightarrow> bool" where
  "nc_bounded b c \<longleftrightarrow> (\<forall>exp \<in> set (hm_values (nc_entries c)). unat exp \<le> b)"

text \<open>A concrete write, used to instantiate the theorems: a constant tag function and one envelope.\<close>

definition demo_keyed :: "bytes \<Rightarrow> bytes \<Rightarrow> bytes" where
  "demo_keyed k m = replicate 32 7"

definition demo_env :: envelope where
  "demo_env = \<lparr>env_msg_id = replicate 16 1, env_sender = replicate 32 3, env_recipient = None,
     env_group = Some (replicate 32 4), env_kind = Text, env_body = [7], env_sent_at_ms = 0,
     env_ttl_hops = 6\<rparr>"

definition demo_write :: bucket_write where
  "demo_write = seal demo_keyed demo_env [] 1 1000 (replicate 16 2)"

section \<open>What the tag covers\<close>

lemma kind_u8_inject [simp]: "kind_u8 a = kind_u8 b \<longleftrightarrow> a = b"
  by (cases a; cases b) simp_all

lemma opt_field_split:
  "opt_len 32 x \<Longrightarrow> opt_len 32 y \<Longrightarrow> opt_field x @ r = opt_field y @ s \<longleftrightarrow> x = y \<and> r = s"
  by (auto simp: opt_field_def opt_len_def append_eq_len split: option.splits)

lemma mac_input_inj:
  assumes "wf_write w" and "wf_write w'"
  shows "mac_input w = mac_input w' \<longleftrightarrow> w\<lparr>bw_mac := m\<rparr> = w'\<lparr>bw_mac := m\<rparr>"
proof -
  from assms have lens: "length (bw_nonce w) = length (bw_nonce w')"
    "length (env_msg_id (bw_envelope w)) = length (env_msg_id (bw_envelope w'))"
    "length (env_sender (bw_envelope w)) = length (env_sender (bw_envelope w'))"
    by (auto simp: wf_write_def wf_envelope_def)
  from assms have opts: "opt_len 32 (env_recipient (bw_envelope w))" "opt_len 32 (env_group (bw_envelope w))"
    "opt_len 32 (env_recipient (bw_envelope w'))" "opt_len 32 (env_group (bw_envelope w'))"
    by (auto simp: wf_write_def wf_envelope_def)
  show ?thesis
  proof
    assume "mac_input w = mac_input w'"
    then show "w\<lparr>bw_mac := m\<rparr> = w'\<lparr>bw_mac := m\<rparr>"
      unfolding mac_input_def Let_def
      by (auto simp: append_eq_len lens opt_field_split opts bucket_write.equality envelope.equality)
  next
    have ign: "mac_input x = mac_input (x\<lparr>bw_mac := m\<rparr>)" for x
      by (simp add: mac_input_def)
    assume "w\<lparr>bw_mac := m\<rparr> = w'\<lparr>bw_mac := m\<rparr>"
    then show "mac_input w = mac_input w'"
      using ign [of w] ign [of w'] by simp
  qed
qed

text \<open>
  The authenticated string binds every field: two well-formed writes have the same MAC input if
  and only if they agree on everything but the tag itself (envelope fields including the optional
  recipient and group, key version, nonce and time stamp).
\<close>

theorem mac_input_binds_every_field:
  assumes "wf_write w" and "wf_write w'"
  shows "mac_input w = mac_input w' \<longleftrightarrow> w\<lparr>bw_mac := bw_mac w'\<rparr> = w'"
  using mac_input_inj [OF assms, of "bw_mac w'"] by simp

lemma demo_wf: "wf_write demo_write" "wf_write (demo_write\<lparr>bw_envelope := demo_env\<lparr>env_group := None\<rparr>\<rparr>)"
  by (simp_all add: demo_write_def demo_env_def demo_keyed_def wf_write_def wf_envelope_def
      opt_len_def seal_def compute_mac_def)

theorem mac_input_binds_every_field_witness:
  "mac_input demo_write \<noteq> mac_input (demo_write\<lparr>bw_envelope := demo_env\<lparr>env_group := None\<rparr>\<rparr>)"
  by (subst mac_input_binds_every_field [OF demo_wf])
    (simp add: demo_write_def demo_env_def seal_def)

lemma window_nat [machine_simps]:
  "unat REPLAY_WINDOW_MS = 300000" "unat SKEW_MS = 120000"
  "unat (REPLAY_WINDOW_MS + 2 * 60000) = 420000"
  by (simp_all add: REPLAY_WINDOW_MS_def SKEW_MS_def)

lemma u64_le_max: "unat (w :: u64) \<le> 18446744073709551615"
  using unat_bound [of w] by simp

lemma in_window_iff:
  "\<not> (ts > sat_add now REPLAY_WINDOW_MS) \<and> \<not> (ts < sat_sub now REPLAY_WINDOW_MS)
    \<longleftrightarrow> unat ts \<le> unat now + 300000 \<and> unat now \<le> unat ts + 300000"
  using u64_le_max [of ts]
  by (auto simp: word_less_nat_alt machine_simps)

lemma bw_verify_iff:
  assumes "length (bw_mac w) = length (keyed secret (mac_input w))"
  shows "bw_verify keyed w secret now = Inr () \<longleftrightarrow> bw_mac w = keyed secret (mac_input w)
    \<and> unat (bw_ts_ms w) \<le> unat now + 300000 \<and> unat now \<le> unat (bw_ts_ms w) + 300000"
  using ct_diff_zero_iff [OF assms] in_window_iff [where ts = "bw_ts_ms w" and now = now]
  by (auto simp: bw_verify_def compute_mac_def Let_def)

lemma bw_verify_window:
  "bw_verify keyed w secret now = Inr u \<Longrightarrow>
    unat (bw_ts_ms w) \<le> unat now + 300000 \<and> unat now \<le> unat (bw_ts_ms w) + 300000"
  by (rule in_window_iff [THEN iffD1]) (auto simp: bw_verify_def Let_def split: if_splits)

lemma mac_input_seal: "mac_input (seal keyed env secret serial ts nonce)
    = mac_input \<lparr>bw_envelope = env, bw_serial = serial, bw_nonce = nonce, bw_ts_ms = ts, bw_mac = m\<rparr>"
  by (simp add: seal_def mac_input_def)

lemma seal_fields:
  "bw_mac (seal keyed env secret serial ts nonce) = keyed secret (mac_input (seal keyed env secret serial ts nonce))"
  "bw_ts_ms (seal keyed env secret serial ts nonce) = ts" "bw_envelope (seal keyed env secret serial ts nonce) = env"
  by (subst mac_input_seal [where m = "replicate 32 0"]) (simp_all add: seal_def compute_mac_def)

text \<open>
  A sealed write verifies under the same secret exactly while the verifier's clock is within five
  minutes of its time stamp, at both ends inclusive and also near the ends of the clock's range, where
  the source saturates.
\<close>

theorem seal_verifies_exactly_in_window:
  assumes "keyed_ok keyed"
  shows "bw_verify keyed (seal keyed env secret serial ts nonce) secret now = Inr ()
    \<longleftrightarrow> unat ts \<le> unat now + 300000 \<and> unat now \<le> unat ts + 300000"
  using assms by (simp add: bw_verify_iff seal_fields)

lemma demo_keyed_ok: "keyed_ok demo_keyed"
  by (simp add: keyed_ok_def demo_keyed_def)

theorem seal_verifies_exactly_in_window_witness:
  "bw_verify demo_keyed (seal demo_keyed demo_env [] 1 1000 []) [] 301000 = Inr ()
    \<and> bw_verify demo_keyed (seal demo_keyed demo_env [] 1 1000 []) [] 301001 \<noteq> Inr ()"
  by (simp add: seal_verifies_exactly_in_window [OF demo_keyed_ok])

text \<open>
  C30. Forging or altering a write means breaking the hash: if two different well-formed writes with
  the same tag both verify under one secret, then the keyed hash maps two different inputs to that tag.
\<close>

theorem altered_write_is_a_collision:
  assumes "keyed_ok keyed" and "wf_write w" and "wf_write w'" and "w \<noteq> w'" and "bw_mac w = bw_mac w'"
    and "bw_verify keyed w secret now = Inr ()" and "bw_verify keyed w' secret now' = Inr ()"
  shows "mac_input w \<noteq> mac_input w'
    \<and> keyed secret (mac_input w) = bw_mac w \<and> keyed secret (mac_input w') = bw_mac w"
proof -
  have len: "length (bw_mac x) = length (keyed secret (mac_input x))" if "wf_write x" for x
    using that assms(1) by (simp add: wf_write_def keyed_ok_def)
  have "mac_input w \<noteq> mac_input w'"
  proof
    assume "mac_input w = mac_input w'"
    then have "w\<lparr>bw_mac := bw_mac w\<rparr> = w'\<lparr>bw_mac := bw_mac w'\<rparr>"
      using mac_input_inj [OF assms(2,3), of "bw_mac w"] assms(5) by metis
    then show False using assms(4) by (cases w; cases w') simp
  qed
  moreover have "bw_mac w = keyed secret (mac_input w)" "bw_mac w' = keyed secret (mac_input w')"
    using bw_verify_iff [where keyed = keyed and secret = secret] len assms by blast+
  ultimately show ?thesis using assms(5) by simp
qed

lemma demo_verifies:
  "bw_verify demo_keyed demo_write [] 1000 = Inr ()"
  "bw_verify demo_keyed (demo_write\<lparr>bw_envelope := demo_env\<lparr>env_group := None\<rparr>\<rparr>) [] 1000 = Inr ()"
  by (simp_all add: bw_verify_def ct_diff_zero_iff demo_write_def seal_def compute_mac_def
      demo_keyed_def sat_add_def sat_sub_def REPLAY_WINDOW_MS_def)

theorem altered_write_is_a_collision_witness:
  "mac_input demo_write \<noteq> mac_input (demo_write\<lparr>bw_envelope := demo_env\<lparr>env_group := None\<rparr>\<rparr>)
    \<and> demo_keyed [] (mac_input demo_write) = bw_mac demo_write
    \<and> demo_keyed [] (mac_input (demo_write\<lparr>bw_envelope := demo_env\<lparr>env_group := None\<rparr>\<rparr>))
      = bw_mac demo_write"
proof -
  have ne: "demo_write \<noteq> demo_write\<lparr>bw_envelope := demo_env\<lparr>env_group := None\<rparr>\<rparr>"
    by (simp add: demo_write_def demo_env_def seal_def)
  show ?thesis
    using altered_write_is_a_collision [OF demo_keyed_ok demo_wf ne _ demo_verifies] by simp
qed

section \<open>The ledger\<close>

lemma nc_retain_get:
  assumes "hm_wf m" and "nc_retain now m = Some m'"
  shows "hm_wf m' \<and> hm_len m' \<le> hm_len m
    \<and> (hm_get m' k = Some exp \<longleftrightarrow> hm_get m k = Some exp \<and> unat now < unat exp + 120000)"
proof -
  from assms(2) have m': "m' = hm_retain (\<lambda>_ exp. exp + SKEW_MS > now) m"
    and noov: "\<And>e. e \<in> set (hm_values m) \<Longrightarrow> chk_add e SKEW_MS \<noteq> None"
    by (auto simp: nc_retain_def split: if_splits)
  have "hm_get m k = Some exp \<Longrightarrow> exp + SKEW_MS > now \<longleftrightarrow> unat now < unat exp + 120000"
    using noov [OF hm_get_values]
    by (auto simp: word_less_nat_alt machine_simps not_le)
  then show ?thesis
    using assms(1) by (auto simp: m' hm.wf_keep hm.siz_keep_le hm.get_keep_Some)
qed

lemma nc_check_cases:
  assumes "nc_check_and_insert c i ts now = Some (b, c')"
  obtains m where "nc_retain now (nc_entries c) = Some m"
    and "b \<longleftrightarrow> \<not> hm_contains m i \<and> hm_len m < nc_hard_cap c"
    and "c' = c\<lparr>nc_entries := (if b then hm_insert i (sat_add ts (REPLAY_WINDOW_MS + 2 * 60000)) m else m)\<rparr>"
  using assms
  by (auto simp: nc_check_and_insert_def Let_def split: if_splits Option.bind_splits)

lemma nc_check_inv:
  assumes "nc_inv c" and "nc_check_and_insert c i ts now = Some (b, c')"
  shows "nc_inv c'"
  using assms(2)
proof (rule nc_check_cases)
  fix m
  assume m: "nc_retain now (nc_entries c) = Some m"
    and b: "b \<longleftrightarrow> \<not> hm_contains m i \<and> hm_len m < nc_hard_cap c"
    and c': "c' = c\<lparr>nc_entries := (if b then hm_insert i (sat_add ts (REPLAY_WINDOW_MS + 2 * 60000)) m else m)\<rparr>"
  have "hm_wf m" "hm_len m \<le> nc_hard_cap c"
    using nc_retain_get [OF _ m] assms(1) by (auto simp: nc_inv_def intro: le_trans)
  then show "nc_inv c'"
    using b by (auto simp: nc_inv_def c' hm.wf_ins hm.siz_ins_new hm_contains_def)
qed

lemma nc_check_get:
  assumes "nc_inv c" and "nc_check_and_insert c i ts now = Some (b, c')"
    and "hm_get (nc_entries c) k = Some exp" and "unat now < unat exp + 120000"
  shows "hm_get (nc_entries c') k = Some exp \<and> (i = k \<longrightarrow> \<not> b)"
  using assms(2)
proof (rule nc_check_cases)
  fix m
  assume m: "nc_retain now (nc_entries c) = Some m"
    and b: "b \<longleftrightarrow> \<not> hm_contains m i \<and> hm_len m < nc_hard_cap c"
    and c': "c' = c\<lparr>nc_entries := (if b then hm_insert i (sat_add ts (REPLAY_WINDOW_MS + 2 * 60000)) m else m)\<rparr>"
  have "hm_get m k = Some exp"
    using nc_retain_get [OF _ m] assms(1,3,4) by (auto simp: nc_inv_def)
  then show ?thesis
    using b by (auto simp: c' hm.get_ins hm_contains_def)
qed

lemma nc_check_new:
  assumes "nc_check_and_insert c i ts now = Some (True, c')"
  shows "hm_get (nc_entries c') i = Some (sat_add ts (REPLAY_WINDOW_MS + 2 * 60000))"
  using assms by (rule nc_check_cases) (simp add: hm.get_ins)

interpretation nc: replay_guard nc_step fst nc_held nc_inv nc_keeps
proof unfold_locales
  fix s :: nonce_cache and inp :: "msg_id \<times> u64 \<times> u64" and k :: msg_id
  assume inv: "nc_inv s"
  obtain i ts now where inp: "inp = (i, ts, now)" by (cases inp) auto
  show "nc_inv (snd (nc_step s inp))"
    using inv nc_check_inv [OF inv] by (auto simp: nc_step_def inp split: option.split)
  show "fst (nc_step s inp) \<Longrightarrow> nc_held (snd (nc_step s inp)) (fst inp)"
    by (auto simp: nc_step_def inp nc_held_def hm_contains_def nc_check_new
        split: option.splits prod.splits)
  show "nc_held s (fst inp) \<Longrightarrow> nc_keeps s inp (fst inp) \<Longrightarrow> \<not> fst (nc_step s inp)"
    using nc_check_get [OF inv]
    by (auto simp: nc_step_def inp nc_held_def hm_contains_def nc_keeps_def machine_simps
        split: option.splits) blast
  show "nc_held s k \<Longrightarrow> nc_keeps s inp k \<Longrightarrow> nc_held (snd (nc_step s inp)) k"
    using nc_check_get [OF inv]
    by (auto simp: nc_step_def inp nc_held_def hm_contains_def nc_keeps_def machine_simps
        split: option.splits)
qed

section \<open>The inbound path\<close>

lemma inbound_step_alt:
  "inbound_step keyed secret c (w, now) =
    (if bw_verify keyed w secret now = Inr ()
     then nc_step c (env_msg_id (bw_envelope w), bw_ts_ms w, now) else (False, c))"
  by (auto simp: inbound_step_def verify_inbound_def nc_step_def split: sum.splits option.splits
      prod.splits)

lemma inbound_inv: "nc_inv c \<Longrightarrow> nc_inv (snd (inbound_step keyed secret c inp))"
  by (cases inp) (simp add: inbound_step_alt nc.inv_chk)

lemma nc_new_inv: "nc_inv (nc_new cap)"
  by (simp add: nc_inv_def nc_new_def)

lemma inbound_run_inv: "nc_inv c \<Longrightarrow> nc_inv (run_state (inbound_step keyed secret) c ins)"
  by (induction ins arbitrary: c) (auto intro: inbound_inv)

lemma nc_step_get:
  assumes "nc_inv c" and "hm_get (nc_entries c) k = Some exp" and "unat now < unat exp + 120000"
  shows "hm_get (nc_entries (snd (nc_step c (i, ts, now)))) k = Some exp"
  using assms nc_check_get [OF assms(1) _ assms(2,3)]
  by (auto simp: nc_step_def split: option.split prod.split)

lemma inbound_known_refused:
  assumes "nc_inv c" and "hm_get (nc_entries c) i = Some (sat_add ts (REPLAY_WINDOW_MS + 2 * 60000))"
    and "sorted_wrt (\<lambda>a b. unat (snd a) < unat (snd b) + 240000) ins"
  shows "(i, ts) \<notin> write_key ` set (accepted (inbound_step keyed secret) c ins)"
  using assms
proof (induction ins arbitrary: c)
  case Nil
  then show ?case by simp
next
  case (Cons inp ins)
  obtain w now where inp: "inp = (w, now)" by (cases inp)
  let ?c' = "snd (inbound_step keyed secret c inp)"
  let ?exp = "sat_add ts (REPLAY_WINDOW_MS + 2 * 60000)"
  show ?case
  proof (cases "unat now < unat ts + 540000")
    case True
    then have kp: "unat now < unat ?exp + 120000"
      using u64_le_max [of now] by (simp add: machine_simps)
    have "hm_get (nc_entries ?c') i = Some ?exp"
      using nc_step_get [OF Cons.prems(1,2) kp] Cons.prems(2) by (simp add: inp inbound_step_alt)
    with Cons have rest: "(i, ts) \<notin> write_key ` set (accepted (inbound_step keyed secret) ?c' ins)"
      by (simp add: inbound_inv)
    have "fst (inbound_step keyed secret c inp) \<Longrightarrow> env_msg_id (bw_envelope w) \<noteq> i"
      using nc.held_refused [OF Cons.prems(1), of "(i, bw_ts_ms w, now)"] Cons.prems(2) kp
      by (auto simp: inp inbound_step_alt nc_held_def hm_contains_def nc_keeps_def machine_simps
          split: if_splits)
    with rest inp show ?thesis by auto
  next
    case False
    have late: "unat ts + 300000 < unat (snd x)" if "x \<in> set (inp # ins)" for x
      using False that Cons.prems(3) by (fastforce simp: inp)
    have "(i, ts) \<noteq> write_key x" if "x \<in> set (accepted (inbound_step keyed secret) d js)"
      and "set js \<subseteq> set (inp # ins)" for x d js
      using that
    proof (induction js arbitrary: d)
      case Nil
      then show ?case by simp
    next
      case (Cons j js)
      then show ?case
        using late [of j] bw_verify_window [of keyed "fst j" secret "snd j"]
        by (cases j) (auto simp: inbound_step_alt split: if_splits)
    qed
    from this [of _ c "inp # ins"] show ?thesis by blast
  qed
qed

lemma inbound_accepts_once:
  assumes "nc_inv c" and "sorted_wrt (\<lambda>a b. unat (snd a) < unat (snd b) + 240000) ins"
  shows "distinct (map write_key (accepted (inbound_step keyed secret) c ins))"
  using assms
proof (induction ins arbitrary: c)
  case Nil
  then show ?case by simp
next
  case (Cons inp ins)
  let ?c' = "snd (inbound_step keyed secret c inp)"
  have "hm_get (nc_entries ?c') (fst (write_key inp))
      = Some (sat_add (snd (write_key inp)) (REPLAY_WINDOW_MS + 2 * 60000))"
    if "fst (inbound_step keyed secret c inp)"
    using that by (cases inp) (auto simp: inbound_step_alt nc_step_def nc_check_new
        split: if_splits option.splits prod.splits)
  then have "write_key inp \<notin> write_key ` set (accepted (inbound_step keyed secret) ?c' ins)"
    if "fst (inbound_step keyed secret c inp)"
    using that Cons.prems inbound_known_refused [of ?c' "fst (write_key inp)" "snd (write_key inp)" ins]
    by (simp add: inbound_inv comp_def)
  moreover have "distinct (map write_key (accepted (inbound_step keyed secret) ?c' ins))"
    using Cons by (simp add: inbound_inv)
  ultimately show ?case by auto
qed

text \<open>
  C3. No replay through the inbound path: over every sequence of calls in which no clock reading is four
  minutes or more behind an earlier one, starting from an empty ledger of any size, the accepted writes
  have pairwise distinct (message id, time stamp) pairs. A captured write is accepted at most once,
  however much other traffic (valid or not) arrives in between and even if the ledger fills up. Four
  minutes are the difference between the life of a ledger entry and the replay window.
\<close>

theorem inbound_accepts_a_write_at_most_once:
  assumes "sorted_wrt (\<lambda>a b. unat (snd a) < unat (snd b) + 240000) ins"
  shows "distinct (map write_key (accepted (inbound_step keyed secret) (nc_new cap) ins))"
  by (rule inbound_accepts_once [OF nc_new_inv assms])

lemma inbound_bounded:
  assumes "nc_bounded b c" and "b + 120000 < 2 ^ 64" and "unat now + 720000 \<le> b"
  shows "verify_inbound keyed w secret c now \<noteq> None
    \<and> nc_bounded b (snd (inbound_step keyed secret c (w, now)))"
proof (cases "bw_verify keyed w secret now")
  case (Inl e)
  with assms show ?thesis by (simp add: verify_inbound_def inbound_step_alt)
next
  case (Inr u)
  have ret: "nc_retain now (nc_entries c)
      = Some (hm_retain (\<lambda>_ exp. exp + SKEW_MS > now) (nc_entries c))"
    using assms by (fastforce simp: nc_retain_def nc_bounded_def machine_simps)
  have "unat (sat_add (bw_ts_ms w) (REPLAY_WINDOW_MS + 2 * 60000)) \<le> b"
    using bw_verify_window [OF Inr] assms by (simp add: machine_simps)
  then show ?thesis
    using assms(1) Inr hm_values_insert hm_values_retain
    by (fastforce simp: verify_inbound_def inbound_step_alt nc_step_def nc_check_and_insert_def ret
        Let_def nc_bounded_def)
qed

lemma inbound_run_bounded:
  "nc_bounded b c \<Longrightarrow> b + 120000 < 2 ^ 64 \<Longrightarrow> \<forall>inp \<in> set ins. unat (snd inp) + 720000 \<le> b \<Longrightarrow>
    nc_bounded b (run_state (inbound_step keyed secret) c ins)"
proof (induction ins arbitrary: c)
  case Nil
  then show ?case by simp
next
  case (Cons inp ins)
  then show ?case using inbound_bounded [of b c "snd inp" keyed "fst inp" secret] by simp
qed

lemma inbound_cap: "nc_hard_cap (run_state (inbound_step keyed secret) c ins) = nc_hard_cap c"
proof (induction ins arbitrary: c)
  case Nil
  then show ?case by simp
next
  case (Cons inp ins)
  have "nc_hard_cap (snd (inbound_step keyed secret c inp)) = nc_hard_cap c"
    by (cases inp) (auto simp: inbound_step_alt nc_step_def elim!: nc_check_cases
        split: option.split)
  with Cons show ?case by simp
qed

lemma demo_accepted: "inbound_step demo_keyed [] (nc_new 10) (demo_write, 1000)
    = (True, \<lparr>nc_entries = [(replicate 16 1, 421000)], nc_hard_cap = 4096\<rparr>)"
  by (simp add: inbound_step_alt demo_verifies nc_step_def nc_check_and_insert_def nc_retain_def
      nc_new_def hm_values_def hm_retain_def hm_contains_def hm_insert_def sat_add_def
      REPLAY_WINDOW_MS_def)
    (simp add: demo_write_def seal_def demo_env_def)

theorem inbound_accepts_a_write_at_most_once_witness:
  "fst (inbound_step demo_keyed [] (nc_new 10) (demo_write, 1000))
    \<and> accepted (inbound_step demo_keyed []) (nc_new 10) [(demo_write, 1000), (demo_write, 2000)]
      = [(demo_write, 1000)]"
proof -
  have "distinct (map write_key (accepted (inbound_step demo_keyed []) (nc_new 10)
      [(demo_write, 1000), (demo_write, 2000)]))"
    by (rule inbound_accepts_a_write_at_most_once) simp
  then show ?thesis
    by (auto simp: demo_accepted split: if_splits)
qed

text \<open>
  The inbound path neither panics nor grows without bound: while the clock stays fourteen minutes
  below the end of the \<^verbatim>\<open>u64\<close> range, the plain addition in \<^verbatim>\<open>retain\<close> cannot overflow whatever time stamps
  the senders chose, and the ledger never holds more than \<open>max cap 4096\<close> entries.
\<close>

theorem inbound_never_overflows_and_stays_bounded:
  assumes "\<forall>inp \<in> set ins. unat (snd inp) + 840000 < 2 ^ 64" and "unat now + 840000 < 2 ^ 64"
  shows "verify_inbound keyed w secret (run_state (inbound_step keyed secret) (nc_new cap) ins) now \<noteq> None
    \<and> nc_len (run_state (inbound_step keyed secret) (nc_new cap) ins) \<le> max cap 4096"
proof
  let ?b = "2 ^ 64 - 120001 :: nat"
  let ?c = "run_state (inbound_step keyed secret) (nc_new cap) ins"
  have "nc_bounded ?b (nc_new cap)"
    by (simp add: nc_bounded_def nc_new_def hm_values_def)
  then have "nc_bounded ?b ?c"
    by (rule inbound_run_bounded) (use assms in auto)
  then show "verify_inbound keyed w secret ?c now \<noteq> None"
    using inbound_bounded [of ?b ?c now keyed w secret] assms(2) by simp
  have "nc_inv ?c" by (rule inbound_run_inv [OF nc_new_inv])
  then show "nc_len ?c \<le> max cap 4096"
    using inbound_cap [of keyed secret "nc_new cap" ins] by (simp add: nc_inv_def nc_len_def nc_new_def)
qed

theorem inbound_never_overflows_and_stays_bounded_witness:
  "verify_inbound demo_keyed demo_write []
      (run_state (inbound_step demo_keyed []) (nc_new 10) [(demo_write, 1000)]) 2000 \<noteq> None
    \<and> nc_len (run_state (inbound_step demo_keyed []) (nc_new 10) [(demo_write, 1000)]) \<le> max 10 4096"
  by (rule inbound_never_overflows_and_stays_bounded) simp_all

text \<open>
  The order of the inbound checks: a write whose tag or time is wrong is refused without touching
  the ledger, so a forger can neither fill it nor learn from the answer whether a message id is known:
  the answer and the ledger are the same whatever the ledger holds.
\<close>

theorem unauthenticated_write_leaves_no_trace:
  assumes "bw_verify keyed w secret now = Inl e"
  shows "verify_inbound keyed w secret c now = Some (Inl e, c)
    \<and> e \<in> {Crypto ''mailbox mac mismatch'', Crypto ''mailbox write outside replay window''}"
  using assms by (auto simp: verify_inbound_def bw_verify_def Let_def split: if_splits)

theorem unauthenticated_write_leaves_no_trace_witness:
  "\<exists>e. verify_inbound demo_keyed demo_write [] (nc_new 10) 400000 = Some (Inl e, nc_new 10)"
proof -
  have "bw_verify demo_keyed demo_write [] 400000
      = Inl (Crypto ''mailbox write outside replay window'')"
    by (simp add: bw_verify_def ct_diff_zero_iff demo_write_def seal_def compute_mac_def
        demo_keyed_def sat_add_def sat_sub_def REPLAY_WINDOW_MS_def)
  from unauthenticated_write_leaves_no_trace [OF this] show ?thesis by blast
qed

text \<open>
  Key separation: for bucket addresses of equal length, the material a mailbox secret is derived
  from determines the handshake secret, the bucket and the key version, so no two of them share a
  derivation input.
\<close>

theorem mailbox_material_unambiguous:
  assumes "length b = 32" and "length b' = 32"
  shows "mailbox_material h b s = mailbox_material h' b' s' \<longleftrightarrow> h = h' \<and> b = b' \<and> s = s'"
proof -
  have "length (b @ u32_be s) = length (b' @ u32_be s')" using assms by simp
  then show ?thesis
    using assms by (auto simp: mailbox_material_def simp flip: append_assoc)
qed

theorem mailbox_material_unambiguous_witness:
  "mailbox_material [1] (replicate 32 2) 7 \<noteq> mailbox_material [1] (replicate 32 2) 8"
  by (subst mailbox_material_unambiguous) simp_all

end
