(* ===== verification/Relay.thy ===== *)
theory Relay
  imports Identity
begin

text \<open>
  \<^verbatim>\<open>crates/core/src/relay.rs\<close>: relay tickets and the relay-side replay guard. A ticket is signed by the
  origin's node key over all its fields; the guard keeps a bounded table of the fingerprints it accepted.

  The table is a \<^verbatim>\<open>HashMap\<close>; the order in which a call iterates over it is the parameter \<open>iter\<close>, of
  which only \<open>iter_ok\<close> is assumed: it lists the entries of the table, each once.
\<close>

section \<open>Tickets\<close>

definition MAX_TICKET_TTL_MS :: u64 where
  "MAX_TICKET_TTL_MS = 2 * 60 * 60 * 1000"

record relay_ticket =
  rt_dest_node_key :: node_id
  rt_origin_node_key :: node_id
  rt_expiry_ms :: u64
  rt_issued_at_ms :: u64
  rt_nonce :: bytes
  rt_challenge_hash :: bytes
  rt_sig :: bytes

definition rt_new :: "node_id \<Rightarrow> node_id \<Rightarrow> u64 \<Rightarrow> u64 \<Rightarrow> bytes \<Rightarrow> bytes \<Rightarrow> relay_ticket" where
  "rt_new dest origin issued_at_ms expiry_ms nonce challenge_hash =
     \<lparr>rt_dest_node_key = dest, rt_origin_node_key = origin, rt_expiry_ms = expiry_ms,
      rt_issued_at_ms = issued_at_ms, rt_nonce = nonce, rt_challenge_hash = challenge_hash,
      rt_sig = []\<rparr>"

definition rt_signing_payload :: "relay_ticket \<Rightarrow> bytes" where
  "rt_signing_payload t = ascii ''dc-relay-ticket-v1'' @ [10] @ rt_dest_node_key t
     @ rt_origin_node_key t @ u64_be (rt_issued_at_ms t) @ u64_be (rt_expiry_ms t)
     @ rt_nonce t @ rt_challenge_hash t"

definition rt_sign :: "ed25519 \<Rightarrow> identity \<Rightarrow> relay_ticket \<Rightarrow> relay_ticket result" where
  "rt_sign ed i t =
     (if node_id_of ed i \<noteq> rt_origin_node_key t
      then Inl (Crypto ''ticket signed by wrong node key'')
      else Inr (t\<lparr>rt_sig := sign ed i (rt_signing_payload t)\<rparr>))"

text \<open>\<^verbatim>\<open>let skew = 2 * 60 * 1000\<close>.\<close>

definition TICKET_SKEW_MS :: u64 where
  "TICKET_SKEW_MS = 2 * 60 * 1000"

text \<open>The two plain additions at the end of \<^verbatim>\<open>verify\<close> can overflow: \<open>None\<close>.\<close>

definition rt_verify :: "ed25519 \<Rightarrow> relay_ticket \<Rightarrow> u64 \<Rightarrow> bytes \<Rightarrow> unit result option" where
  "rt_verify ed t now_ms expected_challenge =
     (case verify_sig ed (rt_origin_node_key t) (rt_signing_payload t) (rt_sig t) of
        Inl e \<Rightarrow> Some (Inl e)
      | Inr _ \<Rightarrow>
          if rt_nonce t = replicate 16 0 then Some (Inl (Crypto ''nonce must be random''))
          else if rt_challenge_hash t \<noteq> expected_challenge
          then Some (Inl (Crypto ''challenge mismatch (stale ticket)''))
          else if sat_sub (rt_expiry_ms t) (rt_issued_at_ms t) > MAX_TICKET_TTL_MS
          then Some (Inl (Crypto ''ticket ttl exceeds cap''))
          else do {
            latest \<leftarrow> chk_add now_ms TICKET_SKEW_MS;
            if rt_issued_at_ms t > latest then Some (Inl (Crypto ''ticket issued in the future''))
            else do {
              last \<leftarrow> chk_add (rt_expiry_ms t) TICKET_SKEW_MS;
              if last < now_ms then Some (Inl (Crypto ''ticket expired'')) else Some (Inr ())
            }
          })"

definition rt_fingerprint :: "(bytes \<Rightarrow> nat \<Rightarrow> bytes) \<Rightarrow> relay_ticket \<Rightarrow> bytes" where
  "rt_fingerprint xof t = take 32 (fingerprint1024 xof [ascii ''relay-ticket'', rt_signing_payload t])"

section \<open>The guard\<close>

text \<open>Ticket fingerprint \<open>\<mapsto>\<close> (expiry, origin key, challenge).\<close>

type_synonym seen_tickets = "(bytes, u64 \<times> node_id \<times> bytes) hmap"

record relay_guard =
  rg_seen :: seen_tickets
  rg_max_entries :: nat

definition MAX_SLOTS_PER_ORIGIN :: nat where
  "MAX_SLOTS_PER_ORIGIN = 4"

definition rg_new :: "nat \<Rightarrow> relay_guard" where
  "rg_new max_entries = \<lparr>rg_seen = [], rg_max_entries = max max_entries 1\<rparr>"

definition origin_count :: "seen_tickets \<Rightarrow> node_id \<Rightarrow> nat" where
  "origin_count m origin = length (filter (\<lambda>(_, o', _). o' = origin) (hm_values m))"

text \<open>Step 1, with the plain addition \<^verbatim>\<open>*exp + 2 * 60 * 1000\<close>.\<close>

definition retain_unexpired :: "u64 \<Rightarrow> seen_tickets \<Rightarrow> seen_tickets option" where
  "retain_unexpired now_ms m =
     (if \<exists>v \<in> set (hm_values m). chk_add (fst v) TICKET_SKEW_MS = None then None
      else Some (hm_retain (\<lambda>_ (exp, _, _). exp + TICKET_SKEW_MS > now_ms) m))"

text \<open>Step 3: while the origin holds its quota, drop its entry that expires first.\<close>

function evict_origin :: "node_id \<Rightarrow> seen_tickets \<Rightarrow> seen_tickets" where
  "evict_origin origin m =
     (if origin_count m origin \<ge> MAX_SLOTS_PER_ORIGIN
      then (case min_by_key (\<lambda>(_, exp, _, _). exp) (filter (\<lambda>(_, _, o', _). o' = origin) m) of
              None \<Rightarrow> m
            | Some e \<Rightarrow> evict_origin origin (hm_remove (fst e) m))
      else m)"
  by pat_completeness auto
termination
  by (relation "measure (\<lambda>(origin, m). length m)")
    (auto dest!: min_by_key_Some intro: length_hm_remove [where e = "(a, b)" for a b, simplified])

declare evict_origin.simps [simp del]

text \<open>Step 4: while the table is full, drop an entry of another challenge; full of live ones: refuse.\<close>

function evict_dead :: "nat \<Rightarrow> bytes \<Rightarrow> seen_tickets \<Rightarrow> bool \<times> seen_tickets" where
  "evict_dead maxn challenge m =
     (if length m \<ge> maxn
      then (case find (\<lambda>(_, _, _, ch). ch \<noteq> challenge) m of
              Some e \<Rightarrow> evict_dead maxn challenge (hm_remove (fst e) m)
            | None \<Rightarrow> (False, m))
      else (True, m))"
  by pat_completeness auto
termination
  by (relation "measure (\<lambda>(n, ch, m). length m)")
    (auto dest!: find_SomeD_mem intro: length_hm_remove [where e = "(a, b)" for a b, simplified])

declare evict_dead.simps [simp del]

text \<open>
  The same two loops as the source writes them, with nothing known of their termination and the number
  of turns counted: \<open>None\<close> is a loop that does not end.
\<close>

partial_function (option) evict_origin_loop :: "node_id \<Rightarrow> nat \<Rightarrow> seen_tickets \<Rightarrow> (nat \<times> seen_tickets) option" where
  "evict_origin_loop origin turns m =
     (if origin_count m origin \<ge> MAX_SLOTS_PER_ORIGIN
      then (case min_by_key (\<lambda>(_, exp, _, _). exp) (filter (\<lambda>(_, _, o', _). o' = origin) m) of
              None \<Rightarrow> Some (turns, m)
            | Some e \<Rightarrow> evict_origin_loop origin (Suc turns) (hm_remove (fst e) m))
      else Some (turns, m))"

partial_function (option) evict_dead_loop :: "nat \<Rightarrow> bytes \<Rightarrow> nat \<Rightarrow> seen_tickets \<Rightarrow> (nat \<times> bool \<times> seen_tickets) option" where
  "evict_dead_loop maxn challenge turns m =
     (if length m \<ge> maxn
      then (case find (\<lambda>(_, _, _, ch). ch \<noteq> challenge) m of
              Some e \<Rightarrow> evict_dead_loop maxn challenge (Suc turns) (hm_remove (fst e) m)
            | None \<Rightarrow> Some (turns, False, m))
      else Some (turns, True, m))"

definition rg_accept :: "(seen_tickets \<Rightarrow> seen_tickets) \<Rightarrow> ed25519 \<Rightarrow> (bytes \<Rightarrow> nat \<Rightarrow> bytes)
    \<Rightarrow> relay_guard \<Rightarrow> relay_ticket \<Rightarrow> u64 \<Rightarrow> bytes \<Rightarrow> (bool \<times> relay_guard) option" where
  "rg_accept iter ed xof g t now_ms expected_challenge = do {
     r \<leftarrow> rt_verify ed t now_ms expected_challenge;
     if isl r then Some (False, g)
     else let fp = rt_fingerprint xof t in
       if hm_contains (rg_seen g) fp then Some (False, g)
       else do {
         m1 \<leftarrow> retain_unexpired now_ms (iter (rg_seen g));
         let m2 = hm_retain (\<lambda>_ (_, _, ch). ch = expected_challenge) m1;
         let m3 = evict_origin (rt_origin_node_key t) m2;
         let (room, m4) = evict_dead (rg_max_entries g) expected_challenge m3;
         if \<not> room then Some (False, g\<lparr>rg_seen := m4\<rparr>)
         else Some (True, g\<lparr>rg_seen := hm_insert fp
           (rt_expiry_ms t, rt_origin_node_key t, expected_challenge) m4\<rparr>)
       }
   }"

definition iter_ok :: "(seen_tickets \<Rightarrow> seen_tickets) \<Rightarrow> bool" where
  "iter_ok iter \<longleftrightarrow> (\<forall>m. mset (iter m) = mset m)"

section \<open>Invariant and runs\<close>

definition rg_inv :: "relay_guard \<Rightarrow> bool" where
  "rg_inv g \<longleftrightarrow> hm_wf (rg_seen g) \<and> length (rg_seen g) \<le> rg_max_entries g
     \<and> (\<forall>origin. origin_count (rg_seen g) origin \<le> MAX_SLOTS_PER_ORIGIN)"

definition rg_step :: "(seen_tickets \<Rightarrow> seen_tickets) \<Rightarrow> ed25519 \<Rightarrow> (bytes \<Rightarrow> nat \<Rightarrow> bytes)
    \<Rightarrow> relay_guard \<Rightarrow> relay_ticket \<times> u64 \<times> bytes \<Rightarrow> bool \<times> relay_guard" where
  "rg_step iter ed xof g inp = (case inp of (t, now, ch) \<Rightarrow>
     (case rg_accept iter ed xof g t now ch of None \<Rightarrow> (False, g) | Some r \<Rightarrow> r))"

definition rg_held :: "relay_guard \<Rightarrow> bytes \<Rightarrow> bool" where
  "rg_held g k \<longleftrightarrow> hm_contains (rg_seen g) k"

text \<open>
  A call keeps the entry \<open>k\<close> when it replays a known ticket, or when it is for the entry's challenge,
  comes before the entry's expiry plus the tolerance, and is for another origin or one below its quota.
\<close>

definition rg_keeps :: "(bytes \<Rightarrow> nat \<Rightarrow> bytes) \<Rightarrow> relay_guard \<Rightarrow> relay_ticket \<times> u64 \<times> bytes \<Rightarrow> bytes \<Rightarrow> bool"
where
  "rg_keeps xof g inp k = (case inp of (t, now, ch) \<Rightarrow>
     hm_contains (rg_seen g) (rt_fingerprint xof t)
     \<or> (\<forall>exp origin c. hm_get (rg_seen g) k = Some (exp, origin, c) \<longrightarrow>
          c = ch \<and> unat now < unat exp + 120000
          \<and> (origin \<noteq> rt_origin_node_key t
             \<or> origin_count (rg_seen g) origin < MAX_SLOTS_PER_ORIGIN)))"

text \<open>Every expiry in the table is at most \<open>b\<close>.\<close>

definition rg_bounded :: "nat \<Rightarrow> relay_guard \<Rightarrow> bool" where
  "rg_bounded b g \<longleftrightarrow> (\<forall>v \<in> set (hm_values (rg_seen g)). unat (fst v) \<le> b)"

text \<open>
  Concrete tickets, used to instantiate the theorems: a signature library that accepts every 64-byte
  signature, a fingerprint that shows the nonce and half of the challenge, one origin per byte.
\<close>

definition demo_ed :: ed25519 where
  "demo_ed = \<lparr>ed_pub = (\<lambda>s. s), ed_sign = (\<lambda>_ _. replicate 64 0), ed_key_err = (\<lambda>_. None),
     ed_verify_err = (\<lambda>_ _ _. None)\<rparr>"

definition demo_xof :: "bytes \<Rightarrow> nat \<Rightarrow> bytes" where
  "demo_xof m n = take n (drop (length m - 48) m)"

definition demo_challenge :: bytes where
  "demo_challenge = replicate 32 9"

definition demo_ticket :: "u8 \<Rightarrow> u8 \<Rightarrow> u64 \<Rightarrow> relay_ticket" where
  "demo_ticket a n expiry = (rt_new (replicate 32 5) (replicate 32 a) 0 expiry (replicate 16 n)
     demo_challenge)\<lparr>rt_sig := replicate 64 0\<rparr>"

section \<open>Signing\<close>

interpretation rt: signed_object rt_signing_payload rt_origin_node_key rt_sig
  "\<lambda>s. rt_sig_update (\<lambda>_. s)"
  by unfold_locales (simp_all add: rt_signing_payload_def)

lemma ticket_consts [machine_simps]:
  "unat TICKET_SKEW_MS = 120000" "unat MAX_TICKET_TTL_MS = 7200000"
  by (simp_all add: TICKET_SKEW_MS_def MAX_TICKET_TTL_MS_def)

lemma rt_verify_ok_iff:
  "rt_verify ed t now ch = Some (Inr u) \<longleftrightarrow>
    verify_sig ed (rt_origin_node_key t) (rt_signing_payload t) (rt_sig t) = Inr ()
    \<and> rt_nonce t \<noteq> replicate 16 0 \<and> rt_challenge_hash t = ch
    \<and> unat (rt_expiry_ms t) \<le> unat (rt_issued_at_ms t) + 7200000
    \<and> unat now + 120000 < 2 ^ 64 \<and> unat (rt_issued_at_ms t) \<le> unat now + 120000
    \<and> unat (rt_expiry_ms t) + 120000 < 2 ^ 64 \<and> unat now \<le> unat (rt_expiry_ms t) + 120000"
  by (cases "verify_sig ed (rt_origin_node_key t) (rt_signing_payload t) (rt_sig t)")
    (auto simp: rt_verify_def word_less_nat_alt machine_simps split: Option.bind_splits if_splits)

text \<open>
  Issuing and checking agree: a ticket signed with the key it names verifies at every clock
  reading from two minutes before its issue time to two minutes after its expiry (both inclusive),
  against the challenge it was issued for, provided its lifetime is at most two hours and its nonce
  is not all zero; with another key, signing is refused.
\<close>

theorem signed_ticket_verifies:
  assumes "ed25519_ok ed" and "rt_nonce t \<noteq> replicate 16 0"
    and "unat (rt_expiry_ms t) \<le> unat (rt_issued_at_ms t) + 7200000"
    and "unat (rt_issued_at_ms t) \<le> unat now + 120000" and "unat now \<le> unat (rt_expiry_ms t) + 120000"
    and "unat now + 120000 < 2 ^ 64" and "unat (rt_expiry_ms t) + 120000 < 2 ^ 64"
  shows "(node_id_of ed i = rt_origin_node_key t \<longrightarrow>
      (\<exists>t'. rt_sign ed i t = Inr t' \<and> rt_verify ed t' now (rt_challenge_hash t) = Some (Inr ())))
    \<and> (node_id_of ed i \<noteq> rt_origin_node_key t \<longrightarrow> (\<exists>m. rt_sign ed i t = Inl (Crypto m)))"
  using assms rt.signed_verifies [OF assms(1), of i t] by (auto simp: rt_sign_def rt_verify_ok_iff)

section \<open>The eviction loops\<close>

lemma origin_count_filter: "origin_count m o' = length (filter (\<lambda>(_, _, b, _). b = o') m)"
  by (induction m) (auto simp: origin_count_def hm_values_def)

lemma origin_count_filter_le: "origin_count (filter P m) o' \<le> origin_count m o'"
  by (induction m) (auto simp: origin_count_filter)

lemma origin_count_mset: "mset m = mset m' \<Longrightarrow> origin_count m o' = origin_count m' o'"
  by (metis mset_filter origin_count_filter size_mset)

lemma evict_origin_small: "origin_count m origin < MAX_SLOTS_PER_ORIGIN \<Longrightarrow> evict_origin origin m = m"
  by (simp add: evict_origin.simps)

lemma hm_wf_filter: "hm_wf m \<Longrightarrow> hm_wf (filter P m)"
  by (simp add: hm_wf_def distinct_map_filter)

lemma evict_origin_filter:
  "\<exists>P. evict_origin origin m = filter P m \<and> (\<forall>e \<in> set m. fst (snd (snd e)) \<noteq> origin \<longrightarrow> hm_wf m \<longrightarrow> P e)
    \<and> origin_count (evict_origin origin m) origin < MAX_SLOTS_PER_ORIGIN"
proof (induction origin m rule: evict_origin.induct)
  case (1 origin m)
  show ?case
  proof (cases "origin_count m origin \<ge> MAX_SLOTS_PER_ORIGIN")
    case False
    then show ?thesis by (intro exI [of _ "\<lambda>_. True"]) (simp add: evict_origin_small)
  next
    case True
    then have "filter (\<lambda>(_, _, b, _). b = origin) m \<noteq> []"
      by (auto simp: origin_count_filter MAX_SLOTS_PER_ORIGIN_def)
    then obtain e where e: "min_by_key (\<lambda>(_, exp, _, _). exp) (filter (\<lambda>(_, _, b, _). b = origin) m) = Some e"
      by (meson min_by_key_None not_None_eq)
    let ?m = "hm_remove (fst e) m"
    from e have mem: "e \<in> set m" "fst (snd (snd e)) = origin"
      by (auto dest!: min_by_key_Some)
    obtain P where P: "evict_origin origin ?m = filter P ?m"
      "\<forall>x \<in> set ?m. fst (snd (snd x)) \<noteq> origin \<longrightarrow> hm_wf ?m \<longrightarrow> P x"
      "origin_count (evict_origin origin ?m) origin < MAX_SLOTS_PER_ORIGIN"
      using 1 [OF True e] by blast
    have step: "evict_origin origin m = evict_origin origin ?m"
      using True e by (subst evict_origin.simps) simp
    have keep: "x \<in> set ?m" if "x \<in> set m" "fst (snd (snd x)) \<noteq> origin" "hm_wf m" for x
      using that mem by (auto simp: hm_remove_filter hm_wf_def distinct_map dest: inj_onD)
    show ?thesis
      by (rule exI [of _ "\<lambda>x. fst x \<noteq> fst e \<and> P x"])
        (use P keep mem step in \<open>auto simp: hm_remove_filter hm_wf_filter conj_commute\<close>)
  qed
qed

lemma hm_get_filter:
  "hm_wf m \<Longrightarrow> hm_get (filter P m) k = Some v \<longleftrightarrow> hm_get m k = Some v \<and> P (k, v)"
  using hm_in_get [OF hm_wf_filter, where k = k and v = v] hm_in_get [where m = m and k = k and v = v]
  by auto

lemma hm_retain_filter: "hm_retain P m = filter (\<lambda>e. P (fst e) (snd e)) m"
  by (simp add: hm_retain_def case_prod_unfold)

lemma evict_dead_live:
  "\<forall>e \<in> set m. snd (snd (snd e)) = ch \<Longrightarrow> evict_dead maxn ch m = (length m < maxn, m)"
proof -
  assume "\<forall>e \<in> set m. snd (snd (snd e)) = ch"
  then have "find (\<lambda>(_, _, _, c). c \<noteq> ch) m = None"
    by (auto simp: find_None_iff)
  then show ?thesis by (subst evict_dead.simps) auto
qed

lemma iter_laws:
  assumes "iter_ok iter" and "hm_wf m"
  shows "hm_wf (iter m)" and "hm_get (iter m) = hm_get m" and "length (iter m) = length m"
    and "origin_count (iter m) o' = origin_count m o'"
proof -
  have ms: "mset (iter m) = mset m" using assms(1) by (simp add: iter_ok_def)
  then have "mset (map fst (iter m)) = mset (map fst m)" by simp
  then show wf: "hm_wf (iter m)"
    using assms(2) mset_eq_imp_distinct_iff unfolding hm_wf_def by blast
  have st: "set (iter m) = set m" using ms by (rule mset_eq_setD)
  show "hm_get (iter m) = hm_get m"
  proof
    fix k
    show "hm_get (iter m) k = hm_get m k"
      using hm_in_get [OF wf, of k] hm_in_get [OF assms(2), of k] st
      by (metis not_None_eq)
  qed
  show "length (iter m) = length m" using ms by (rule mset_eq_length)
  show "origin_count (iter m) o' = origin_count m o'" using ms by (rule origin_count_mset)
qed

lemma origin_count_insert:
  "\<not> hm_contains m k \<Longrightarrow> origin_count (hm_insert k (x, a, c) m) o' = origin_count m o' + (if a = o' then 1 else 0)"
  by (simp add: hm_insert_new origin_count_filter)

text \<open>The table after the two \<^verbatim>\<open>retain\<close> passes: exactly the live entries of the current challenge.\<close>

lemma retained_table:
  assumes m1: "retain_unexpired now (iter m) = Some m1" and it: "iter_ok iter" and wf: "hm_wf m"
    and m2: "m2 = hm_retain (\<lambda>_ (_, _, c). c = ch) m1"
  shows "hm_wf m2" and "length m2 \<le> length m" and "origin_count m2 o' \<le> origin_count m o'"
    and "\<forall>e \<in> set m2. snd (snd (snd e)) = ch"
    and "hm_get m2 k = Some v \<longleftrightarrow>
      hm_get m k = Some v \<and> unat now < unat (fst v) + 120000 \<and> snd (snd v) = ch"
proof -
  note iter = iter_laws [OF it wf]
  from m1 have m1_eq: "m1 = filter (\<lambda>e. fst (snd e) + TICKET_SKEW_MS > now) (iter m)"
    and noov: "\<And>v. v \<in> set (hm_values (iter m)) \<Longrightarrow> unat (fst v) + 120000 < 2 ^ 64"
    by (auto simp: retain_unexpired_def hm_retain_filter case_prod_unfold machine_simps not_le
        split: if_splits)
  have m2_eq: "m2 = filter (\<lambda>e. snd (snd (snd e)) = ch) m1"
    by (simp add: m2 hm_retain_filter case_prod_unfold)
  show "hm_wf m2" and "\<forall>e \<in> set m2. snd (snd (snd e)) = ch"
    using iter(1) by (auto simp: m1_eq m2_eq intro: hm_wf_filter)
  show "length m2 \<le> length m"
    unfolding m2_eq m1_eq filter_filter iter(3) [symmetric] by (rule length_filter_le)
  show "origin_count m2 o' \<le> origin_count m o'"
    unfolding m2_eq m1_eq filter_filter iter(4) [symmetric] by (rule origin_count_filter_le)
  show "hm_get m2 k = Some v \<longleftrightarrow>
      hm_get m k = Some v \<and> unat now < unat (fst v) + 120000 \<and> snd (snd v) = ch"
    using iter noov [of v] hm_get_values [of "iter m" k v]
    by (auto simp: m2_eq m1_eq hm_get_filter hm_wf_filter word_less_nat_alt machine_simps)
qed

section \<open>One call\<close>

text \<open>What a call that gets past the checks does to the table: \<open>m\<close> is the table after the evictions.\<close>

lemma rg_accept_cases:
  assumes acc: "rg_accept iter ed xof g t now ch = Some (b, g')" and inv: "rg_inv g" and it: "iter_ok iter"
  obtains (refused) "\<not> b" and "g' = g"
  | (checked) m where "rt_verify ed t now ch = Some (Inr ())"
    and "\<not> hm_contains (rg_seen g) (rt_fingerprint xof t)"
    and "hm_wf m" and "length m \<le> length (rg_seen g)"
    and "\<And>o'. origin_count m o' \<le> origin_count (rg_seen g) o'"
    and "origin_count m (rt_origin_node_key t) < MAX_SLOTS_PER_ORIGIN"
    and "\<And>k v. hm_get m k = Some v \<Longrightarrow> hm_get (rg_seen g) k = Some v"
    and "\<And>k exp a. hm_get (rg_seen g) k = Some (exp, a, ch) \<Longrightarrow> unat now < unat exp + 120000 \<Longrightarrow>
      a \<noteq> rt_origin_node_key t \<or> origin_count (rg_seen g) a < MAX_SLOTS_PER_ORIGIN \<Longrightarrow>
      hm_get m k = Some (exp, a, ch)"
    and "b \<longleftrightarrow> length m < rg_max_entries g"
    and "g' = g\<lparr>rg_seen := (if b then hm_insert (rt_fingerprint xof t)
      (rt_expiry_ms t, rt_origin_node_key t, ch) m else m)\<rparr>"
proof (cases "rt_verify ed t now ch = Some (Inr ()) \<and> \<not> hm_contains (rg_seen g) (rt_fingerprint xof t)")
  case False
  have "\<not> isl r \<Longrightarrow> r = Inr ()" for r :: "unit result"
    by (cases r) simp_all
  with acc False have "\<not> b" and "g' = g"
    by (auto simp: rg_accept_def Let_def split: Option.bind_splits if_splits)
  then show ?thesis by (rule refused)
next
  case True
  let ?o = "rt_origin_node_key t"
  from inv have wf0: "hm_wf (rg_seen g)" by (simp add: rg_inv_def)
  from acc True obtain m1 where m1: "retain_unexpired now (iter (rg_seen g)) = Some m1"
    by (auto simp: rg_accept_def Let_def split: Option.bind_splits)
  define m2 where "m2 = hm_retain (\<lambda>_ (_, _, c). c = ch) m1"
  note kept = retained_table [OF m1 it wf0 m2_def]
  define m3 where "m3 = evict_origin ?o m2"
  obtain P where P: "m3 = filter P m2"
    "\<forall>e \<in> set m2. fst (snd (snd e)) \<noteq> ?o \<longrightarrow> hm_wf m2 \<longrightarrow> P e"
    "origin_count m3 ?o < MAX_SLOTS_PER_ORIGIN"
    using evict_origin_filter unfolding m3_def by blast
  have dead: "evict_dead (rg_max_entries g) ch m3 = (length m3 < rg_max_entries g, m3)"
    by (rule evict_dead_live) (use P(1) kept(4) in auto)
  have res: "b \<longleftrightarrow> length m3 < rg_max_entries g"
    "g' = g\<lparr>rg_seen := (if b then hm_insert (rt_fingerprint xof t) (rt_expiry_ms t, ?o, ch) m3 else m3)\<rparr>"
    using acc True m1 dead by (auto simp: rg_accept_def Let_def m3_def m2_def split: if_splits)
  show ?thesis
  proof (rule checked [of m3])
    show "hm_wf m3" and "length m3 \<le> length (rg_seen g)"
      using kept(1,2) by (auto simp: P(1) intro: hm_wf_filter order_trans [OF length_filter_le])
    show "origin_count m3 o' \<le> origin_count (rg_seen g) o'" for o'
      unfolding P(1) by (rule order_trans [OF origin_count_filter_le kept(3)])
    show "hm_get m3 k = Some v \<Longrightarrow> hm_get (rg_seen g) k = Some v" for k v
      by (simp add: P(1) hm_get_filter kept(1,5))
    show "hm_get m3 k = Some (exp, a, ch)"
      if live: "hm_get (rg_seen g) k = Some (exp, a, ch)" "unat now < unat exp + 120000"
        and room: "a \<noteq> ?o \<or> origin_count (rg_seen g) a < MAX_SLOTS_PER_ORIGIN" for k exp a
    proof -
      from live have got: "hm_get m2 k = Some (exp, a, ch)" by (simp add: kept(5))
      have "a = ?o \<Longrightarrow> m3 = m2"
        using room kept(3) [of a] unfolding m3_def by (intro evict_origin_small) simp
      moreover have "a \<noteq> ?o \<Longrightarrow> P (k, exp, a, ch)"
        using P(2) kept(1) hm_get_in [OF got] by auto
      ultimately show ?thesis
        using got by (cases "a = ?o") (auto simp: P(1) hm_get_filter kept(1))
    qed
  qed (use True res P(3) in auto)
qed

lemma rg_accept_inv:
  assumes "rg_accept iter ed xof g t now ch = Some (b, g')" and "rg_inv g" and "iter_ok iter"
  shows "rg_inv g' \<and> rg_max_entries g' = rg_max_entries g"
  using assms
proof (cases rule: rg_accept_cases)
  case refused
  then show ?thesis using assms(2) by simp
next
  case (checked m)
  have new: "\<not> hm_contains m (rt_fingerprint xof t)"
    using checked(2,7) unfolding hm_contains_def by (metis not_None_eq)
  have len: "length (hm_insert (rt_fingerprint xof t) v m) = Suc (length m)" for v
    by (simp add: hm_insert_new new)
  have "origin_count m o' \<le> MAX_SLOTS_PER_ORIGIN" "length m \<le> rg_max_entries g" for o'
    using checked(4,5) assms(2) by (auto simp: rg_inv_def intro: order_trans)
  moreover have "origin_count m o' + (if rt_origin_node_key t = o' then 1 else 0) \<le> MAX_SLOTS_PER_ORIGIN" for o'
    using calculation(1) [of o'] checked(6) by auto
  ultimately show ?thesis
    using checked(3,9,10) new
    by (auto simp: rg_inv_def origin_count_insert hm.wf_ins len)
qed

text \<open>A live entry of the current challenge survives every call that \<open>rg_keeps\<close> describes.\<close>

lemma rg_accept_keeps:
  assumes "rg_accept iter ed xof g t now ch = Some (b, g')" and "rg_inv g" and "iter_ok iter"
    and "rg_keeps xof g (t, now, ch) k" and "hm_get (rg_seen g) k = Some v"
  shows "hm_get (rg_seen g') k = Some v \<and> (b \<longrightarrow> rt_fingerprint xof t \<noteq> k)"
  using assms(1-3)
proof (cases rule: rg_accept_cases)
  case refused
  then show ?thesis using assms(5) by simp
next
  case (checked m)
  obtain exp a c where v: "v = (exp, a, c)" by (cases v)
  have "hm_get m k = Some v"
    using checked(2,8) assms(4,5) v by (auto simp: rg_keeps_def)
  moreover have "rt_fingerprint xof t \<noteq> k"
    using checked(2) assms(5) unfolding hm_contains_def by (metis option.distinct(1))
  ultimately show ?thesis
    using checked(10) by (auto simp: hm.get_ins)
qed

lemma rg_accept_new:
  assumes "rg_accept iter ed xof g t now ch = Some (True, g')" and "rg_inv g" and "iter_ok iter"
  shows "rt_verify ed t now ch = Some (Inr ()) \<and> \<not> hm_contains (rg_seen g) (rt_fingerprint xof t)
    \<and> hm_get (rg_seen g') (rt_fingerprint xof t) = Some (rt_expiry_ms t, rt_origin_node_key t, ch)"
  using assms by (cases rule: rg_accept_cases) (simp_all add: hm.get_ins)

lemma rg_step_cases:
  obtains (panic) "rg_accept iter ed xof g t now ch = None" and "rg_step iter ed xof g (t, now, ch) = (False, g)"
  | (returns) b g' where "rg_accept iter ed xof g t now ch = Some (b, g')"
      and "rg_step iter ed xof g (t, now, ch) = (b, g')"
  by (cases "rg_accept iter ed xof g t now ch") (auto simp: rg_step_def)

interpretation rg: replay_guard "rg_step iter ed xof" "\<lambda>(t, _, _). rt_fingerprint xof t" rg_held
  "\<lambda>g. rg_inv g \<and> iter_ok iter" "rg_keeps xof" for iter ed xof
proof unfold_locales
  fix s :: relay_guard and inp :: "relay_ticket \<times> u64 \<times> bytes" and k :: bytes
  let ?r = "rg_step iter ed xof s inp"
  assume inv: "rg_inv s \<and> iter_ok iter"
  obtain t now ch where inp: "inp = (t, now, ch)" by (cases inp) auto
  have all: "rg_inv (snd ?r) \<and> (fst ?r \<longrightarrow> rg_held (snd ?r) (rt_fingerprint xof t))
    \<and> (rg_held s k \<longrightarrow> rg_keeps xof s inp k \<longrightarrow>
        rg_held (snd ?r) k \<and> (rt_fingerprint xof t = k \<longrightarrow> \<not> fst ?r))" for k
  proof (cases rule: rg_step_cases [of iter ed xof s t now ch])
    case panic
    then show ?thesis using inv by (simp add: inp)
  next
    case (returns b g')
    show ?thesis
      using rg_accept_inv [OF returns(1)] rg_accept_new [of iter ed xof s t now ch g']
        rg_accept_keeps [OF returns(1), of k] inv returns
      by (auto simp: inp rg_held_def hm_contains_def)
  qed
  show "rg_inv (snd ?r) \<and> iter_ok iter" using all inv by blast
  show "fst ?r \<Longrightarrow> rg_held (snd ?r) (case inp of (t, _, _) \<Rightarrow> rt_fingerprint xof t)"
    using all by (simp add: inp)
  show "rg_held s (case inp of (t, _, _) \<Rightarrow> rt_fingerprint xof t) \<Longrightarrow>
      rg_keeps xof s inp (case inp of (t, _, _) \<Rightarrow> rt_fingerprint xof t) \<Longrightarrow> \<not> fst ?r"
    using all by (simp add: inp)
  show "rg_held s k \<Longrightarrow> rg_keeps xof s inp k \<Longrightarrow> rg_held (snd ?r) k"
    using all by blast
qed

section \<open>Properties of the guard\<close>

lemma demo_laws [simp]:
  "ed25519_ok demo_ed" "iter_ok (\<lambda>m. m)" "verify_sig demo_ed pk m (replicate 64 0) = Inr ()"
  by (simp_all add: ed25519_ok_def demo_ed_def iter_ok_def verify_sig_def)

lemma demo_ticket_sel [simp]:
  "rt_origin_node_key (demo_ticket a n e) = replicate 32 a" "rt_expiry_ms (demo_ticket a n e) = e"
  "rt_issued_at_ms (demo_ticket a n e) = 0" "rt_nonce (demo_ticket a n e) = replicate 16 n"
  "rt_challenge_hash (demo_ticket a n e) = demo_challenge" "rt_sig (demo_ticket a n e) = replicate 64 0"
  by (simp_all add: demo_ticket_def rt_new_def)

lemma demo_fingerprint [simp]:
  "rt_fingerprint demo_xof (demo_ticket a n e) = replicate 16 n @ replicate 16 9"
  by (simp add: rt_fingerprint_def fingerprint1024_def FINGERPRINT_LEN_def fingerprint_input_def
      demo_xof_def rt_signing_payload_def demo_ticket_def rt_new_def demo_challenge_def take_drop)

lemma rg_new_inv: "rg_inv (rg_new n)"
  by (simp add: rg_inv_def rg_new_def origin_count_def hm_values_def)

theorem signed_ticket_verifies_witness:
  "(\<exists>t'. rt_sign demo_ed \<lparr>id_seed = replicate 32 7\<rparr> (demo_ticket 7 1 1000) = Inr t'
      \<and> rt_verify demo_ed t' 121000 demo_challenge = Some (Inr ()))
    \<and> (\<exists>m. rt_sign demo_ed \<lparr>id_seed = replicate 32 6\<rparr> (demo_ticket 7 1 1000) = Inl (Crypto m))"
  using signed_ticket_verifies [of demo_ed "demo_ticket 7 1 1000" 121000 "\<lparr>id_seed = replicate 32 7\<rparr>"]
    signed_ticket_verifies [of demo_ed "demo_ticket 7 1 1000" 121000 "\<lparr>id_seed = replicate 32 6\<rparr>"]
  by (simp add: node_id_of_def, simp add: demo_ed_def)

text \<open>
  C29. A ticket is forwarded only if it carries a valid signature of the origin key it names, a nonce
  that is not all zero, the relay's current challenge, a lifetime of at most two hours, an issue time
  at most two minutes ahead of the relay's clock and an expiry at most two minutes behind it, and its
  fingerprint is not in the table; the table then holds it.
\<close>

theorem forwarded_ticket_is_valid:
  assumes "rg_accept iter ed xof g t now ch = Some (True, g')" and "rg_inv g" and "iter_ok iter"
  shows "verify_sig ed (rt_origin_node_key t) (rt_signing_payload t) (rt_sig t) = Inr ()
    \<and> rt_nonce t \<noteq> replicate 16 0 \<and> rt_challenge_hash t = ch
    \<and> unat (rt_expiry_ms t) \<le> unat (rt_issued_at_ms t) + 7200000
    \<and> unat (rt_issued_at_ms t) \<le> unat now + 120000 \<and> unat now \<le> unat (rt_expiry_ms t) + 120000
    \<and> \<not> hm_contains (rg_seen g) (rt_fingerprint xof t)
    \<and> hm_contains (rg_seen g') (rt_fingerprint xof t)"
  using rg_accept_new [OF assms] by (auto simp: rt_verify_ok_iff hm_contains_def)

lemma demo_accept:
  "rg_accept (\<lambda>m. m) demo_ed demo_xof (rg_new 8) (demo_ticket 7 1 1000) 500 demo_challenge
    = Some (True, (rg_new 8)\<lparr>rg_seen := [(replicate 16 1 @ replicate 16 9, 1000, replicate 32 7,
        demo_challenge)]\<rparr>)"
proof -
  have "rt_verify demo_ed (demo_ticket 7 1 1000) 500 demo_challenge = Some (Inr ())"
    by (simp add: rt_verify_ok_iff)
  then show ?thesis
    by (simp add: rg_accept_def rg_new_def hm_contains_def hm_get_def hm_values_def hm_retain_def
        hm_insert_def retain_unexpired_def evict_origin.simps evict_dead.simps origin_count_def
        MAX_SLOTS_PER_ORIGIN_def)
qed

theorem forwarded_ticket_is_valid_witness:
  "rt_nonce (demo_ticket 7 1 1000) \<noteq> replicate 16 0
    \<and> \<not> hm_contains (rg_seen (rg_new 8)) (rt_fingerprint demo_xof (demo_ticket 7 1 1000))"
  using forwarded_ticket_is_valid [OF demo_accept rg_new_inv] by (simp only: demo_laws simp_thms)

text \<open>
  The replay table is bounded: after any sequence of calls on a new guard, whatever the tickets,
  clocks and challenges, it has at most its capacity of entries (at least one) and at most four of
  them belong to one origin key.
\<close>

theorem relay_table_bounded:
  assumes "iter_ok iter"
  shows "length (rg_seen (run_state (rg_step iter ed xof) (rg_new n) ins)) \<le> max n 1
    \<and> origin_count (rg_seen (run_state (rg_step iter ed xof) (rg_new n) ins)) origin \<le> 4"
proof -
  let ?g = "run_state (rg_step iter ed xof) (rg_new n) ins"
  have inv: "rg_inv ?g" using rg.inv_run rg_new_inv assms by blast
  have "rg_max_entries (run_state (rg_step iter ed xof) g ins) = rg_max_entries g" if "rg_inv g" for g
    using that
  proof (induction ins arbitrary: g)
    case (Cons i "is")
    obtain t now ch where i: "i = (t, now, ch)" by (cases i) auto
    have "rg_max_entries (snd (rg_step iter ed xof g i)) = rg_max_entries g"
      using rg_accept_inv [OF _ Cons.prems assms] unfolding i
      by (cases rule: rg_step_cases [of iter ed xof g t now ch]) auto
    then show ?case
      using Cons rg.inv_chk [of g iter ed xof i] assms by simp
  qed simp
  from this [OF rg_new_inv] have "rg_max_entries ?g = max n 1" by (simp add: rg_new_def)
  with inv show ?thesis by (simp add: rg_inv_def MAX_SLOTS_PER_ORIGIN_def)
qed

theorem relay_table_bounded_witness:
  "length (rg_seen (run_state (rg_step (\<lambda>m. m) demo_ed demo_xof) (rg_new 8)
      [(demo_ticket 7 1 1000, 500, demo_challenge)])) \<le> max 8 1
    \<and> origin_count (rg_seen (run_state (rg_step (\<lambda>m. m) demo_ed demo_xof) (rg_new 8)
      [(demo_ticket 7 1 1000, 500, demo_challenge)])) (replicate 32 7) \<le> 4"
  by (rule relay_table_bounded) simp

lemma flood_keeps:
  assumes "rg_inv g \<and> iter_ok iter" and "hm_get (rg_seen g) k = Some (exp, a, ch)"
    and "\<forall>(t', now', ch') \<in> set ins. ch' = ch \<and> unat now' < unat exp + 120000
      \<and> (rt_origin_node_key t' \<noteq> a \<or> rt_fingerprint xof t' = k)"
  shows "kept (rg_step iter ed xof) (rg_keeps xof) k g ins"
  using assms
proof (induction ins arbitrary: g)
  case (Cons i "is")
  obtain t now c where i: "i = (t, now, c)" by (cases i) auto
  have kp: "rg_keeps xof g i k"
    using Cons.prems(2,3) by (auto simp: i rg_keeps_def hm_contains_def)
  have "hm_get (rg_seen (snd (rg_step iter ed xof g i))) k = Some (exp, a, ch)"
    using rg_accept_keeps [of iter ed xof g t now c] kp Cons.prems(1,2) unfolding i
    by (cases rule: rg_step_cases [of iter ed xof g t now c]) auto
  then show ?case
    using Cons.IH [OF rg.inv_chk [OF Cons.prems(1)]] Cons.prems(3) kp by simp
qed simp

text \<open>
  C4. No replay within a handshake, and a flood of other keys cannot reopen one: once a ticket is
  accepted, it is refused in every later sequence of calls under the same challenge with clocks before
  its expiry plus two minutes in which the other tickets come from other origin keys, however many
  they are and whatever they contain.
\<close>

theorem ticket_not_replayable_by_flood:
  assumes "rg_inv g" and "iter_ok iter"
    and "rg_accept iter ed xof g t now ch = Some (True, g')"
    and "\<forall>(t', now', ch') \<in> set ins. ch' = ch \<and> unat now' < unat (rt_expiry_ms t) + 120000
      \<and> (rt_origin_node_key t' \<noteq> rt_origin_node_key t \<or> t' = t)"
  shows "t \<notin> fst ` set (accepted (rg_step iter ed xof) g' ins)"
proof -
  let ?k = "rt_fingerprint xof t"
  have new: "hm_get (rg_seen g') ?k = Some (rt_expiry_ms t, rt_origin_node_key t, ch)"
    and inv: "rg_inv g' \<and> iter_ok iter"
    using rg_accept_new [OF assms(3,1,2)] rg_accept_inv [OF assms(3,1,2)] assms(2) by auto
  have "kept (rg_step iter ed xof) (rg_keeps xof) ?k g' ins"
    by (rule flood_keeps [OF inv new]) (use assms(4) in auto)
  moreover have "rg_held g' ?k" using new by (simp add: rg_held_def hm_contains_def)
  ultimately have "?k \<notin> (\<lambda>(t, _, _). rt_fingerprint xof t) ` set (accepted (rg_step iter ed xof) g' ins)"
    using rg.held_none_accepted [OF inv] by blast
  then show ?thesis by force
qed

theorem ticket_not_replayable_by_flood_witness:
  "demo_ticket 7 1 1000 \<notin> fst ` set (accepted (rg_step (\<lambda>m. m) demo_ed demo_xof)
     ((rg_new 8)\<lparr>rg_seen := [(replicate 16 1 @ replicate 16 9, 1000, replicate 32 7, demo_challenge)]\<rparr>)
     [(demo_ticket 8 2 1000, 600, demo_challenge), (demo_ticket 7 1 1000, 700, demo_challenge)])"
  by (rule ticket_not_replayable_by_flood [OF rg_new_inv demo_laws(2) demo_accept]) simp

section \<open>The loops end\<close>

lemma filter_remove_one:
  "hm_wf m \<Longrightarrow> e \<in> set m \<Longrightarrow> P e \<Longrightarrow> Suc (length (filter P (hm_remove (fst e) m))) = length (filter P m)"
proof (induction m)
  case (Cons a m)
  then show ?case
  proof (cases "a = e")
    case True
    have "fst e \<notin> fst ` set m" using Cons.prems(1) True by (simp add: hm_wf_def)
    then have "filter (\<lambda>x. fst x \<noteq> fst e) m = m" by (metis (mono_tags, lifting) filter_True image_eqI)
    then show ?thesis using True Cons.prems(3) by (simp add: hm_remove_filter)
  next
    case False
    then have "e \<in> set m" "fst a \<noteq> fst e" using Cons.prems(1,2) by (auto simp: hm_wf_def)
    then show ?thesis using Cons by (auto simp: hm_remove_filter hm_wf_def)
  qed
qed simp

lemma evict_origin_loop_ends:
  "hm_wf m \<Longrightarrow> evict_origin_loop origin n m
     = Some (n + (origin_count m origin + 1 - MAX_SLOTS_PER_ORIGIN), evict_origin origin m)"
proof (induction origin m arbitrary: n rule: evict_origin.induct)
  case (1 origin m)
  show ?case
  proof (cases "origin_count m origin \<ge> MAX_SLOTS_PER_ORIGIN")
    case False
    then show ?thesis by (simp add: evict_origin_small evict_origin_loop.simps)
  next
    case True
    then have "filter (\<lambda>(_, _, b, _). b = origin) m \<noteq> []"
      by (auto simp: origin_count_filter MAX_SLOTS_PER_ORIGIN_def)
    then obtain e where e: "min_by_key (\<lambda>(_, exp, _, _). exp) (filter (\<lambda>(_, _, b, _). b = origin) m) = Some e"
      by (meson min_by_key_None not_None_eq)
    let ?m = "hm_remove (fst e) m"
    have count: "Suc (origin_count ?m origin) = origin_count m origin"
      unfolding origin_count_filter by (rule filter_remove_one [OF 1(2)]) (use min_by_key_Some [OF e] in auto)
    have "hm_wf ?m" using 1(2) by (simp add: hm.wf_rem)
    then have "evict_origin_loop origin (Suc n) ?m
        = Some (Suc n + (origin_count ?m origin + 1 - MAX_SLOTS_PER_ORIGIN), evict_origin origin ?m)"
      by (rule 1(1) [OF True e])
    moreover have "Suc n + (origin_count ?m origin + 1 - MAX_SLOTS_PER_ORIGIN)
        = n + (origin_count m origin + 1 - MAX_SLOTS_PER_ORIGIN)"
      using count True by linarith
    ultimately show ?thesis
      using True e by (subst evict_origin_loop.simps, subst evict_origin.simps) simp
  qed
qed

lemma evict_dead_loop_ends:
  "hm_wf m \<Longrightarrow> \<exists>turns \<le> length (filter (\<lambda>(_, _, _, c). c \<noteq> ch) m).
     evict_dead_loop maxn ch n m = Some (n + turns, evict_dead maxn ch m)"
proof (induction maxn ch m arbitrary: n rule: evict_dead.induct)
  case (1 maxn ch m)
  show ?case
  proof (cases "length m \<ge> maxn \<and> find (\<lambda>(_, _, _, c). c \<noteq> ch) m \<noteq> None")
    case False
    then show ?thesis
      by (intro exI [of _ 0]) (subst evict_dead_loop.simps, subst evict_dead.simps, auto split: option.split)
  next
    case True
    then obtain e where e: "find (\<lambda>(_, _, _, c). c \<noteq> ch) m = Some e" by blast
    let ?m = "hm_remove (fst e) m"
    have count: "Suc (length (filter (\<lambda>(_, _, _, c). c \<noteq> ch) ?m)) = length (filter (\<lambda>(_, _, _, c). c \<noteq> ch) m)"
      by (rule filter_remove_one [OF 1(2)]) (use find_SomeD_mem [OF e] e in \<open>auto simp: find_Some_iff\<close>)
    have "hm_wf ?m" using 1(2) by (simp add: hm.wf_rem)
    then obtain turns where "turns \<le> length (filter (\<lambda>(_, _, _, c). c \<noteq> ch) ?m)"
      "evict_dead_loop maxn ch (Suc n) ?m = Some (Suc n + turns, evict_dead maxn ch ?m)"
      using 1(1) [OF _ e, of "Suc n"] True by blast
    then show ?thesis
      using True e count
      by (intro exI [of _ "Suc turns"]) (subst evict_dead_loop.simps, subst evict_dead.simps, simp)
  qed
qed

text \<open>
  C16. The eviction loops of \<^verbatim>\<open>accept\<close> end, with the results the guard uses: on every table the loop over the
  origin's slots turns exactly as often as the origin exceeds its quota, and the loop over the capacity at
  most once per entry of another challenge. In a reachable guard the first turns at most once.
\<close>

theorem eviction_loops_end:
  assumes "hm_wf m"
  shows "evict_origin_loop origin 0 m = Some (origin_count m origin + 1 - MAX_SLOTS_PER_ORIGIN, evict_origin origin m)
    \<and> (\<exists>turns \<le> length (filter (\<lambda>(_, _, _, c). c \<noteq> ch) m).
         evict_dead_loop maxn ch 0 m = Some (turns, evict_dead maxn ch m))
    \<and> (rg_inv g \<and> m = rg_seen g \<longrightarrow> origin_count m origin + 1 - MAX_SLOTS_PER_ORIGIN \<le> 1)"
proof (intro conjI impI)
  show "evict_origin_loop origin 0 m = Some (origin_count m origin + 1 - MAX_SLOTS_PER_ORIGIN, evict_origin origin m)"
    using evict_origin_loop_ends [OF assms, of origin 0] by simp
  show "\<exists>turns \<le> length (filter (\<lambda>(_, _, _, c). c \<noteq> ch) m). evict_dead_loop maxn ch 0 m = Some (turns, evict_dead maxn ch m)"
    using evict_dead_loop_ends [OF assms, of ch maxn 0] by simp
  assume "rg_inv g \<and> m = rg_seen g"
  then have "origin_count m origin \<le> MAX_SLOTS_PER_ORIGIN" by (simp add: rg_inv_def)
  then show "origin_count m origin + 1 - MAX_SLOTS_PER_ORIGIN \<le> 1" by linarith
qed

theorem eviction_loops_end_witness:
  "evict_origin_loop [7] 0 (map (\<lambda>i. ([i], 1000, [7], [])) [1, 2, 3, 4, 5])
    = Some (2, evict_origin [7] (map (\<lambda>i. ([i], 1000, [7], [])) [1, 2, 3, 4, 5]))"
proof -
  have "hm_wf (map (\<lambda>i. ([i], 1000 :: u64, [7 :: u8], [] :: bytes)) [1 :: u8, 2, 3, 4, 5])" by (simp add: hm_wf_def)
  from eviction_loops_end [OF this, of "[7]" _ _ "rg_new 1"] show ?thesis
    by (simp add: origin_count_def hm_values_def MAX_SLOTS_PER_ORIGIN_def)
qed

section \<open>No overflow\<close>

lemma rt_verify_returns:
  "unat now + 7440000 < 2 ^ 64 \<Longrightarrow> rt_verify ed t now ch \<noteq> None"
  by (auto simp: rt_verify_def word_less_nat_alt machine_simps split: sum.splits Option.bind_splits)

lemma rg_accept_returns:
  assumes "unat now \<le> b" and "b + 7440000 < 2 ^ 64" and "rg_bounded (b + 7320000) g" and "iter_ok iter"
  shows "rg_accept iter ed xof g t now ch \<noteq> None"
proof -
  have "set (hm_values (iter (rg_seen g))) = set (hm_values (rg_seen g))"
    using assms(4) by (simp add: iter_ok_def hm_values_def) (metis set_mset_mset)
  then have "retain_unexpired now (iter (rg_seen g)) \<noteq> None"
    using assms(2,3) by (fastforce simp: retain_unexpired_def rg_bounded_def machine_simps)
  moreover have "rt_verify ed t now ch \<noteq> None"
    using assms(1,2) by (intro rt_verify_returns) simp
  ultimately show ?thesis
    by (auto simp: rg_accept_def Let_def split: prod.split)
qed

lemma rg_bounded_step:
  assumes "unat now \<le> b" and "rg_bounded (b + 7320000) g" and "rg_inv g" and "iter_ok iter"
  shows "rg_bounded (b + 7320000) (snd (rg_step iter ed xof g (t, now, ch)))"
proof (cases rule: rg_step_cases [of iter ed xof g t now ch])
  case panic
  then show ?thesis using assms(2) by simp
next
  case (returns r g')
  from returns(1) assms(3,4) have "rg_bounded (b + 7320000) g'"
  proof (cases rule: rg_accept_cases)
    case refused
    then show ?thesis using assms(2) by simp
  next
    case (checked m)
    have old: "v \<in> set (hm_values m) \<Longrightarrow> v \<in> set (hm_values (rg_seen g))" for v
      using checked(3,7) hm_in_get [OF checked(3)] hm_get_values by (fastforce simp: hm_values_def)
    have "unat (rt_expiry_ms t) \<le> b + 7320000"
      using checked(1) assms(1) by (auto simp: rt_verify_ok_iff)
    then show ?thesis
      using checked(10) old assms(2)
      by (auto simp: rg_bounded_def split: if_splits dest!: subsetD [OF hm_values_insert])
  qed
  then show ?thesis by (simp add: returns(2))
qed

text \<open>
  The guard never panics: with clock readings bounded by any \<open>b\<close> that leaves 124 minutes below the
  end of the 64-bit range, every call of every run returns, although the expiry comparisons use plain
  additions and the expiries are chosen by strangers.
\<close>

theorem relay_guard_never_overflows:
  assumes "iter_ok iter" and "b + 7440000 < 2 ^ 64" and "\<forall>(t', now', ch') \<in> set ins. unat now' \<le> b"
    and "unat now \<le> b"
  shows "rg_accept iter ed xof (run_state (rg_step iter ed xof) (rg_new n) ins) t now ch \<noteq> None"
proof -
  have "rg_inv g \<Longrightarrow> rg_bounded (b + 7320000) g \<Longrightarrow>
      rg_bounded (b + 7320000) (run_state (rg_step iter ed xof) g ins)" for g
    using assms(3)
  proof (induction ins arbitrary: g)
    case (Cons i "is")
    obtain t now ch where i: "i = (t, now, ch)" by (cases i) auto
    show ?case
      using Cons rg_bounded_step [of now b g iter ed xof t ch] rg.inv_chk [of g iter ed xof i] assms(1)
      by (simp add: i)
  qed simp
  moreover have "rg_bounded (b + 7320000) (rg_new n)"
    by (simp add: rg_bounded_def rg_new_def hm_values_def)
  ultimately have "rg_bounded (b + 7320000) (run_state (rg_step iter ed xof) (rg_new n) ins)"
    using rg_new_inv by blast
  then show ?thesis using rg_accept_returns assms by blast
qed

theorem relay_guard_never_overflows_witness:
  "rg_accept (\<lambda>m. m) demo_ed demo_xof (run_state (rg_step (\<lambda>m. m) demo_ed demo_xof) (rg_new 8)
     [(demo_ticket 7 1 (- 1), 500, demo_challenge)]) (demo_ticket 7 2 1000) 600 demo_challenge \<noteq> None"
  by (rule relay_guard_never_overflows [where b = 600]) simp_all

section \<open>Where a ticket is accepted twice\<close>

lemma demo_verify:
  "rt_verify demo_ed (demo_ticket a n e) now demo_challenge = Some (Inr ()) \<longleftrightarrow>
    n \<noteq> 0 \<and> unat e \<le> 7200000 \<and> unat now \<le> unat e + 120000"
  by (auto simp: rt_verify_ok_iff)

lemmas rg_eval = rg_step_def rg_accept_def rg_new_def hm_contains_def hm_get_def hm_values_def
  hm_retain_def hm_insert_def hm_remove_def retain_unexpired_def evict_origin.simps evict_dead.simps
  origin_count_def MAX_SLOTS_PER_ORIGIN_def demo_verify [THEN iffD2] TICKET_SKEW_MS_def chk_add_def

text \<open>
  The source promises that an identical ticket is accepted only once. Two schedules break it.
  First, five tickets of one origin push the first one out of its four slots within one handshake,
  and that ticket, still valid, is accepted again. Second, in the millisecond expiry plus two minutes
  the ticket still verifies but the table drops it as soon as another ticket is accepted, so it is
  accepted again.
\<close>

theorem ticket_accepted_twice:
  "map (rt_nonce \<circ> fst) (accepted (rg_step (\<lambda>m. m) demo_ed demo_xof) (rg_new 8)
      (map (\<lambda>(n, now). (demo_ticket 7 n 1000, now, demo_challenge))
         [(1, 10), (2, 20), (3, 30), (4, 40), (5, 50), (1, 60)]))
    = map (replicate 16) [1, 2, 3, 4, 5, 1]
   \<and> map (rt_nonce \<circ> fst) (accepted (rg_step (\<lambda>m. m) demo_ed demo_xof) (rg_new 8)
      [(demo_ticket 7 1 1000, 10, demo_challenge), (demo_ticket 8 2 5000, 121000, demo_challenge),
       (demo_ticket 7 1 1000, 121000, demo_challenge)])
    = map (replicate 16) [1, 2, 1]"
proof
  show "map (rt_nonce \<circ> fst) (accepted (rg_step (\<lambda>m. m) demo_ed demo_xof) (rg_new 8)
      [(demo_ticket 7 1 1000, 10, demo_challenge), (demo_ticket 8 2 5000, 121000, demo_challenge),
       (demo_ticket 7 1 1000, 121000, demo_challenge)])
    = map (replicate 16) [1, 2, 1]"
    by (simp add: rg_eval)
  show "map (rt_nonce \<circ> fst) (accepted (rg_step (\<lambda>m. m) demo_ed demo_xof) (rg_new 8)
      (map (\<lambda>(n, now). (demo_ticket 7 n 1000, now, demo_challenge))
         [(1, 10), (2, 20), (3, 30), (4, 40), (5, 50), (1, 60)]))
    = map (replicate 16) [1, 2, 3, 4, 5, 1]"
    by (simp add: rg_eval)
qed

end
