(* ===== verification/Nodekey.thy ===== *)
theory Nodekey
  imports Identity Replay
begin

text \<open>
  \<^verbatim>\<open>crates/core/src/nodekey.rs\<close>: signed announcements of rotating node keys, and the key ring a contact
  keeps of them, per long-term identity. The order in which \<^verbatim>\<open>state\<close> walks the ring's \<^verbatim>\<open>HashMap\<close> is the
  parameter \<open>iter\<close>, a permutation of the entries.
\<close>

section \<open>Announcements\<close>

definition DEFAULT_OVERLAP_MS :: u64 where
  "DEFAULT_OVERLAP_MS = 7 * 24 * 60 * 60 * 1000"

definition MAX_VALIDITY_MS :: u64 where
  "MAX_VALIDITY_MS = 30 * 24 * 60 * 60 * 1000"

definition MAX_ANNOUNCEMENTS_PER_IDENTITY :: nat where
  "MAX_ANNOUNCEMENTS_PER_IDENTITY = 32"

record announcement =
  nk_identity :: node_id
  nk_node_key :: node_id
  nk_serial :: u64
  nk_not_before_ms :: u64
  nk_not_after_ms :: u64
  nk_sig :: bytes

definition nk_new :: "node_id \<Rightarrow> node_id \<Rightarrow> u64 \<Rightarrow> u64 \<Rightarrow> u64 \<Rightarrow> announcement" where
  "nk_new ident node_key serial now_ms overlap_ms =
     \<lparr>nk_identity = ident, nk_node_key = node_key, nk_serial = serial, nk_not_before_ms = now_ms,
      nk_not_after_ms = sat_add now_ms overlap_ms, nk_sig = []\<rparr>"

definition nk_signing_payload :: "announcement \<Rightarrow> bytes" where
  "nk_signing_payload a = ascii ''dc-node-key-announcement-v1'' @ [10] @ nk_identity a @ nk_node_key a
     @ u64_be (nk_serial a) @ u64_be (nk_not_before_ms a) @ u64_be (nk_not_after_ms a)"

definition nk_sign :: "ed25519 \<Rightarrow> identity \<Rightarrow> announcement \<Rightarrow> announcement result" where
  "nk_sign ed i a =
     (if node_id_of ed i \<noteq> nk_identity a
      then Inl (Crypto ''announcement signed by wrong identity'')
      else Inr (a\<lparr>nk_sig := sign ed i (nk_signing_payload a)\<rparr>))"

definition nk_verify :: "ed25519 \<Rightarrow> announcement \<Rightarrow> unit result" where
  "nk_verify ed a =
     try_res (verify_sig ed (nk_identity a) (nk_signing_payload a) (nk_sig a)) (\<lambda>_.
       if nk_not_after_ms a \<le> nk_not_before_ms a then Inl (Crypto ''invalid validity window'')
       else if sat_sub (nk_not_after_ms a) (nk_not_before_ms a) > MAX_VALIDITY_MS
       then Inl (Crypto ''validity window exceeds cap'')
       else if nk_serial a = 0 then Inl (Crypto ''serial must be positive'')
       else Inr ())"

section \<open>The key ring\<close>

record key_ring =
  nr_entries :: "(node_id, announcement list) hmap"

definition nr_new :: key_ring where
  "nr_new = \<lparr>nr_entries = []\<rparr>"

definition remove_at :: "nat \<Rightarrow> 'a list \<Rightarrow> 'a list" where
  "remove_at i xs = take i xs @ drop (Suc i) xs"

text \<open>The capacity loop of \<^verbatim>\<open>upsert\<close>, \<open>serial\<close> being that of the announcement just stored.\<close>

function trim_slot :: "u64 \<Rightarrow> announcement list \<Rightarrow> announcement list" where
  "trim_slot serial slot =
     (if length slot > MAX_ANNOUNCEMENTS_PER_IDENTITY
      then (case map_option fst (min_by_key (\<lambda>(_, e). nk_serial e) (enumerate 0 slot)) of
              Some i \<Rightarrow> if nk_serial (slot ! i) < serial then trim_slot serial (remove_at i slot) else slot
            | None \<Rightarrow> slot)
      else slot)"
  by pat_completeness auto
termination
  by (relation "measure (\<lambda>(s, slot). length slot)")
    (auto simp: remove_at_def dest!: min_by_key_Some simp: in_set_enumerate_eq)

declare trim_slot.simps [simp del]

definition slot_of :: "key_ring \<Rightarrow> node_id \<Rightarrow> announcement list" where
  "slot_of r i = (case hm_get (nr_entries r) i of Some slot \<Rightarrow> slot | None \<Rightarrow> [])"

definition upsert :: "ed25519 \<Rightarrow> key_ring \<Rightarrow> announcement \<Rightarrow> u64 \<Rightarrow> unit result \<times> key_ring" where
  "upsert ed r ann now_ms =
     (case nk_verify ed ann of
        Inl e \<Rightarrow> (Inl e, r)
      | Inr _ \<Rightarrow>
          if nk_not_after_ms ann \<le> now_ms then (Inl (Crypto ''announcement already expired''), r)
          else let slot = slot_of r (nk_identity ann) in
            if \<exists>e \<in> set slot. nk_serial e > nk_serial ann
            then (Inr (), r\<lparr>nr_entries := hm_insert (nk_identity ann) slot (nr_entries r)\<rparr>)
            else let slot = filter (\<lambda>e. nk_serial e \<noteq> nk_serial ann) slot;
                     slot = slot @ [ann];
                     slot = filter (\<lambda>e. nk_not_after_ms e > now_ms) slot;
                     slot = trim_slot (nk_serial ann) slot
              in (Inr (), r\<lparr>nr_entries := hm_insert (nk_identity ann) slot (nr_entries r)\<rparr>))"

definition valid_at :: "u64 \<Rightarrow> announcement \<Rightarrow> bool" where
  "valid_at now_ms e \<longleftrightarrow> nk_not_before_ms e \<le> now_ms \<and> nk_not_after_ms e > now_ms"

definition current :: "key_ring \<Rightarrow> node_id \<Rightarrow> u64 \<Rightarrow> node_id option" where
  "current r ident now_ms =
     (case hm_get (nr_entries r) ident of
        None \<Rightarrow> None
      | Some slot \<Rightarrow> map_option nk_node_key (max_by_key nk_serial (filter (valid_at now_ms) slot)))"

definition ring_state :: "((node_id, announcement list) hmap \<Rightarrow> (node_id, announcement list) hmap)
    \<Rightarrow> key_ring \<Rightarrow> announcement list" where
  "ring_state iter r = concat (hm_values (iter (nr_entries r)))"

fun restore :: "ed25519 \<Rightarrow> key_ring \<Rightarrow> announcement list \<Rightarrow> u64 \<Rightarrow> unit result \<times> key_ring" where
  "restore ed r [] now_ms = (Inr (), r)"
| "restore ed r (ann # anns) now_ms =
     (case upsert ed r ann now_ms of
        (Inl e, r') \<Rightarrow> (Inl e, r')
      | (Inr _, r') \<Rightarrow> restore ed r' anns now_ms)"

definition accepts :: "key_ring \<Rightarrow> node_id \<Rightarrow> node_id \<Rightarrow> u64 \<Rightarrow> bool" where
  "accepts r ident node_key now_ms =
     (case hm_get (nr_entries r) ident of
        None \<Rightarrow> False
      | Some slot \<Rightarrow> (\<exists>e \<in> set slot. nk_node_key e = node_key \<and> valid_at now_ms e))"

section \<open>Invariant and runs\<close>

text \<open>A slot is strictly increasing in the serial, bounded, and holds verified announcements of its identity.\<close>

definition slot_ok :: "ed25519 \<Rightarrow> node_id \<Rightarrow> announcement list \<Rightarrow> bool" where
  "slot_ok ed ident slot \<longleftrightarrow> sorted_wrt (\<lambda>a b. nk_serial a < nk_serial b) slot
     \<and> length slot \<le> MAX_ANNOUNCEMENTS_PER_IDENTITY
     \<and> (\<forall>e \<in> set slot. nk_identity e = ident \<and> nk_verify ed e = Inr ())"

definition ring_inv :: "ed25519 \<Rightarrow> key_ring \<Rightarrow> bool" where
  "ring_inv ed r \<longleftrightarrow> hm_wf (nr_entries r) \<and> (\<forall>i. slot_ok ed i (slot_of r i))"

abbreviation serial_sorted :: "announcement list \<Rightarrow> bool" where
  "serial_sorted \<equiv> sorted_wrt (\<lambda>a b. nk_serial a < nk_serial b)"

text \<open>What \<^verbatim>\<open>upsert\<close> leaves in the slot of an announcement that is not stale.\<close>

definition stored :: "announcement \<Rightarrow> u64 \<Rightarrow> announcement list \<Rightarrow> announcement list" where
  "stored ann now slot = (let live = filter (\<lambda>e. nk_serial e \<noteq> nk_serial ann
       \<and> nk_not_after_ms e > now) slot @ [ann]
     in drop (length live - 32) live)"

text \<open>A sequence of received announcements, each with the clock at its arrival.\<close>

fun upserts :: "ed25519 \<Rightarrow> key_ring \<Rightarrow> (announcement \<times> u64) list \<Rightarrow> key_ring" where
  "upserts ed r [] = r"
| "upserts ed r ((a, now) # xs) = upserts ed (snd (upsert ed r a now)) xs"

text \<open>The highest serial the ring holds of an identity, 0 if none.\<close>

definition highest :: "key_ring \<Rightarrow> node_id \<Rightarrow> nat" where
  "highest r i = Max (insert 0 ((unat \<circ> nk_serial) ` set (slot_of r i)))"

text \<open>A concrete announcement, used to instantiate the theorems.\<close>

definition demo_lib :: ed25519 where
  "demo_lib = \<lparr>ed_pub = (\<lambda>s. s), ed_sign = (\<lambda>_ _. replicate 64 0), ed_key_err = (\<lambda>_. None),
     ed_verify_err = (\<lambda>_ _ _. None)\<rparr>"

definition demo_ann :: "u8 \<Rightarrow> u64 \<Rightarrow> u64 \<Rightarrow> announcement" where
  "demo_ann key serial overlap = (nk_new [1] [key] serial 1000 overlap)\<lparr>nk_sig := replicate 64 0\<rparr>"

section \<open>Announcements: signing and checking\<close>

interpretation nk: signed_object nk_signing_payload nk_identity nk_sig "\<lambda>s. nk_sig_update (\<lambda>_. s)"
  by unfold_locales (simp_all add: nk_signing_payload_def)

lemma validity_nat [machine_simps]: "unat MAX_VALIDITY_MS = 2592000000"
  by (simp add: MAX_VALIDITY_MS_def)

lemma nk_verify_ok_iff:
  "nk_verify ed a = Inr u \<longleftrightarrow>
    verify_sig ed (nk_identity a) (nk_signing_payload a) (nk_sig a) = Inr ()
    \<and> unat (nk_not_before_ms a) < unat (nk_not_after_ms a)
    \<and> unat (nk_not_after_ms a) \<le> unat (nk_not_before_ms a) + 2592000000 \<and> nk_serial a \<noteq> 0"
  by (auto simp: nk_verify_def result_simps word_le_nat_alt word_less_nat_alt machine_simps)

text \<open>
  Issuing and checking agree: an announcement built for an identity and signed by it verifies
  exactly when its serial is positive, its validity period is between 1 ms and 30 days and the clock
  is not at the end of its range (where the saturated end of validity would equal its start).
\<close>

theorem signed_announcement_verifies:
  assumes "ed25519_ok ed" and "nk_sign ed i (nk_new (node_id_of ed i) key serial now overlap) = Inr a"
    and "unat now + unat overlap < 2 ^ 64"
  shows "nk_verify ed a = Inr () \<longleftrightarrow> serial \<noteq> 0 \<and> 0 < unat overlap \<and> unat overlap \<le> 2592000000"
proof -
  let ?n = "nk_new (node_id_of ed i) key serial now overlap"
  have a: "a = ?n\<lparr>nk_sig := sign ed i (nk_signing_payload ?n)\<rparr>"
    using assms(2) by (simp add: nk_sign_def split: if_splits)
  have "verify_sig ed (nk_identity a) (nk_signing_payload a) (nk_sig a) = Inr ()"
    unfolding a using nk.signed_verifies [OF assms(1), of i ?n] by (simp add: nk_new_def)
  then show ?thesis
    using assms(3) by (auto simp: nk_verify_ok_iff a nk_new_def machine_simps)
qed

lemma demo_lib_ok: "ed25519_ok demo_lib"
  by (simp add: ed25519_ok_def demo_lib_def)

lemma demo_ann_sel [simp]:
  "nk_identity (demo_ann k s v) = [1]" "nk_node_key (demo_ann k s v) = [k]" "nk_serial (demo_ann k s v) = s"
  "nk_not_before_ms (demo_ann k s v) = 1000" "nk_not_after_ms (demo_ann k s v) = sat_add 1000 v"
  by (simp_all add: demo_ann_def nk_new_def)

lemma demo_ann_verifies: "s \<noteq> 0 \<Longrightarrow> 0 < unat v \<Longrightarrow> unat v \<le> 2592000000 \<Longrightarrow>
    nk_verify demo_lib (demo_ann k s v) = Inr ()"
  by (auto simp: nk_verify_ok_iff verify_sig_ok_iff machine_simps)
    (auto simp: demo_lib_def demo_ann_def)

theorem signed_announcement_verifies_witness:
  "\<exists>a. nk_sign demo_lib \<lparr>id_seed = [1]\<rparr> (nk_new [1] [2] 3 1000 2592000000) = Inr a
     \<and> nk_verify demo_lib a = Inr ()"
proof -
  have id: "node_id_of demo_lib \<lparr>id_seed = [1]\<rparr> = [1]"
    by (simp add: node_id_of_def demo_lib_def)
  then obtain a where a: "nk_sign demo_lib \<lparr>id_seed = [1]\<rparr> (nk_new [1] [2] 3 1000 2592000000) = Inr a"
    by (simp add: nk_sign_def nk_new_def)
  show ?thesis
    using signed_announcement_verifies [of demo_lib "\<lparr>id_seed = [1]\<rparr>" "[2]" 3 1000 2592000000 a]
      demo_lib_ok a by (auto simp: id)
qed

section \<open>One slot\<close>

lemma min_by_key_first: "\<forall>y \<in> set xs. f x \<le> f y \<Longrightarrow> min_by_key f (x # xs) = Some x"
  by (cases "min_by_key f xs") (auto dest: min_by_key_Some)

text \<open>On an increasing slot whose last entry is the new one, the capacity loop keeps the last 32.\<close>

lemma trim_slot_drop:
  "serial_sorted slot \<Longrightarrow> slot \<noteq> [] \<Longrightarrow> nk_serial (last slot) = serial \<Longrightarrow>
    trim_slot serial slot = drop (length slot - 32) slot"
proof (induction serial slot rule: trim_slot.induct)
  case (1 serial slot)
  show ?case
  proof (cases "length slot > MAX_ANNOUNCEMENTS_PER_IDENTITY")
    case False
    then show ?thesis by (simp add: trim_slot.simps MAX_ANNOUNCEMENTS_PER_IDENTITY_def)
  next
    case True
    then obtain e es where slot: "slot = e # es" and len: "32 \<le> length es"
      by (cases slot) (auto simp: MAX_ANNOUNCEMENTS_PER_IDENTITY_def)
    have "es \<noteq> []" using len by auto
    with "1.prems" slot have less: "nk_serial e < serial" by auto
    have "min_by_key (\<lambda>(_, e). nk_serial e) (enumerate 0 slot) = Some (0, e)"
      using "1.prems"(1) unfolding slot enumerate_simps
      by (intro min_by_key_first) (auto simp: in_set_enumerate_eq less_imp_le)
    then have first: "map_option fst (min_by_key (\<lambda>(_, e). nk_serial e) (enumerate 0 slot)) = Some 0"
      by simp
    have "trim_slot serial (remove_at 0 slot) = drop (length (remove_at 0 slot) - 32) (remove_at 0 slot)"
      using "1.prems" \<open>es \<noteq> []\<close> by (intro "1.IH" [OF True first]) (simp_all add: slot less remove_at_def)
    moreover have "trim_slot serial slot = trim_slot serial (remove_at 0 slot)"
      using True less by (subst trim_slot.simps) (simp only: first if_True option.case, simp add: slot)
    moreover have "length slot - 32 = Suc (length es - 32)"
      using len by (simp add: slot)
    ultimately show ?thesis
      by (simp only:) (simp add: slot remove_at_def)
  qed
qed

lemma live_sorted:
  assumes "serial_sorted slot" and "\<forall>e \<in> set slot. nk_serial e \<le> nk_serial ann"
  shows "serial_sorted (filter (\<lambda>e. nk_serial e \<noteq> nk_serial ann \<and> P e) slot @ [ann])"
  using assms by (auto simp: sorted_wrt_append sorted_wrt_filter less_le)

lemma upsert_stored:
  assumes "slot_ok ed (nk_identity ann) (slot_of r (nk_identity ann))"
  shows "upsert ed r ann now =
    (case nk_verify ed ann of
       Inl e \<Rightarrow> (Inl e, r)
     | Inr _ \<Rightarrow> if nk_not_after_ms ann \<le> now then (Inl (Crypto ''announcement already expired''), r)
       else (Inr (), r\<lparr>nr_entries := hm_insert (nk_identity ann)
         (if \<exists>e \<in> set (slot_of r (nk_identity ann)). nk_serial e > nk_serial ann
          then slot_of r (nk_identity ann) else stored ann now (slot_of r (nk_identity ann))) (nr_entries r)\<rparr>))"
proof -
  let ?s = "slot_of r (nk_identity ann)"
  have "trim_slot (nk_serial ann) (filter (\<lambda>e. nk_not_after_ms e > now)
      (filter (\<lambda>e. nk_serial e \<noteq> nk_serial ann) ?s @ [ann])) = stored ann now ?s"
    if "\<not> (\<exists>e \<in> set ?s. nk_serial e > nk_serial ann)" and "\<not> nk_not_after_ms ann \<le> now"
    using that trim_slot_drop [OF live_sorted, of ?s ann "\<lambda>e. nk_not_after_ms e > now" "nk_serial ann"] assms
    by (simp add: slot_ok_def stored_def Let_def not_less not_le conj_commute)
  then show ?thesis by (auto simp: upsert_def Let_def split: sum.split)
qed

lemma stored_ok:
  assumes "slot_ok ed (nk_identity ann) slot" and "nk_verify ed ann = Inr ()"
    and "\<not> (\<exists>e \<in> set slot. nk_serial e > nk_serial ann)"
  shows "slot_ok ed (nk_identity ann) (stored ann now slot)"
proof -
  have "serial_sorted (filter (\<lambda>e. nk_serial e \<noteq> nk_serial ann \<and> nk_not_after_ms e > now) slot @ [ann])"
    using assms by (intro live_sorted) (auto simp: slot_ok_def not_less)
  then have "serial_sorted (stored ann now slot)"
    unfolding stored_def Let_def by (rule sorted_wrt_drop)
  moreover have "set (stored ann now slot) \<subseteq> insert ann (set slot)"
    by (auto simp: stored_def Let_def dest!: in_set_dropD)
  moreover have "length (stored ann now slot) \<le> 32"
    by (simp add: stored_def Let_def)
  ultimately show ?thesis
    using assms(1,2) by (auto simp: slot_ok_def MAX_ANNOUNCEMENTS_PER_IDENTITY_def)
qed

section \<open>The ring\<close>

lemma slot_of_insert:
  "slot_of (r\<lparr>nr_entries := hm_insert i s (nr_entries r)\<rparr>) j = (if j = i then s else slot_of r j)"
  by (simp add: slot_of_def hm.get_ins)

lemma upsert_slots:
  assumes "ring_inv ed r" and "upsert ed r ann now = (res, r')"
  shows "slot_of r' j = (if res = Inr () \<and> j = nk_identity ann
      \<and> (\<forall>e \<in> set (slot_of r j). nk_serial e \<le> nk_serial ann)
    then stored ann now (slot_of r j) else slot_of r j)
    \<and> (res = Inr () \<longleftrightarrow> nk_verify ed ann = Inr () \<and> now < nk_not_after_ms ann)"
  using assms upsert_stored [of ed ann r now]
  by (auto simp: ring_inv_def slot_of_insert not_less split: sum.splits if_splits)

lemma upsert_inv:
  assumes "ring_inv ed r"
  shows "ring_inv ed (snd (upsert ed r ann now))"
proof -
  obtain res r' where r': "upsert ed r ann now = (res, r')" by fastforce
  have "hm_wf (nr_entries r')"
    using r' assms by (auto simp: upsert_def Let_def ring_inv_def hm.wf_ins split: sum.splits if_splits)
  moreover have "slot_ok ed j (slot_of r' j)" for j
    using upsert_slots [OF assms r', of j] stored_ok [of ed ann "slot_of r j" now] assms
    by (auto simp: ring_inv_def not_less)
  ultimately show ?thesis by (simp add: r' ring_inv_def)
qed

lemma upserts_inv: "ring_inv ed r \<Longrightarrow> ring_inv ed (upserts ed r xs)"
  by (induction ed r xs rule: upserts.induct) (simp_all add: upsert_inv)

lemma nr_new_inv: "ring_inv ed nr_new"
  by (simp add: ring_inv_def nr_new_def slot_of_def slot_ok_def)

lemma highest_ge: "e \<in> set (slot_of r i) \<Longrightarrow> unat (nk_serial e) \<le> highest r i"
  unfolding highest_def by (rule Max_ge) auto

lemma highest_le_iff: "highest r i \<le> n \<longleftrightarrow> (\<forall>e \<in> set (slot_of r i). unat (nk_serial e) \<le> n)"
  unfolding highest_def by (subst Max_le_iff) auto

lemma upsert_highest:
  assumes "ring_inv ed r" and "upsert ed r ann now = (res, r')"
  shows "highest r' i = (if res = Inr () \<and> i = nk_identity ann then max (highest r i) (unat (nk_serial ann))
    else highest r i)"
proof (cases "res = Inr () \<and> i = nk_identity ann \<and> (\<forall>e \<in> set (slot_of r i). nk_serial e \<le> nk_serial ann)")
  case True
  have slot: "slot_of r' i = stored ann now (slot_of r i)"
    using upsert_slots [OF assms, of i] True by simp
  then have mem: "ann \<in> set (slot_of r' i)" and sub: "set (slot_of r' i) \<subseteq> insert ann (set (slot_of r i))"
    by (auto simp: stored_def Let_def dest!: in_set_dropD)
  have "highest r' i = unat (nk_serial ann)"
    using highest_ge [OF mem] sub True
    by (intro antisym) (auto simp: word_le_nat_alt highest_le_iff)
  moreover have "highest r i \<le> unat (nk_serial ann)"
    using True by (simp add: highest_le_iff word_le_nat_alt)
  ultimately show ?thesis using True by (simp add: max_def)
next
  case False
  then have "slot_of r' i = slot_of r i" using upsert_slots [OF assms, of i] by auto
  then have "highest r' i = highest r i" by (simp add: highest_def)
  moreover have "unat (nk_serial ann) \<le> highest r i" if "res = Inr () \<and> i = nk_identity ann"
    using False that highest_le_iff [of r i "unat (nk_serial ann)"]
    by (auto simp: word_le_nat_alt simp del: not_le)
  ultimately show ?thesis by (auto simp: max_def)
qed

section \<open>Properties of the ring\<close>

text \<open>
  C28. Nobody can fill or poison the ring: after any sequence of received announcements, valid or not, an
  identity has at most 32 stored announcements, with strictly increasing serials, and each of them
  names that identity and carries its valid signature, a positive serial and a validity of at most 30
  days.
\<close>

theorem ring_bounded_and_authentic:
  "length (slot_of (upserts ed nr_new xs) i) \<le> 32
   \<and> sorted_wrt (\<lambda>a b. nk_serial a < nk_serial b) (slot_of (upserts ed nr_new xs) i)
   \<and> set (slot_of (upserts ed nr_new xs) i) \<subseteq> {e. nk_identity e = i
       \<and> verify_sig ed i (nk_signing_payload e) (nk_sig e) = Inr () \<and> nk_serial e \<noteq> 0
       \<and> unat (nk_not_after_ms e) \<le> unat (nk_not_before_ms e) + 2592000000}"
  using upserts_inv [OF nr_new_inv, of ed xs]
  by (auto simp: ring_inv_def slot_ok_def MAX_ANNOUNCEMENTS_PER_IDENTITY_def nk_verify_ok_iff)

lemma upserts_append: "upserts ed r (xs @ ys) = upserts ed (upserts ed r xs) ys"
  by (induction ed r xs rule: upserts.induct) simp_all

lemma upserts_highest: "ring_inv ed r \<Longrightarrow> highest r i \<le> highest (upserts ed r ys) i"
proof (induction ed r ys rule: upserts.induct)
  case (2 ed r a now xs)
  obtain res r' where r': "upsert ed r a now = (res, r')" by fastforce
  have "highest r i \<le> highest r' i" using upsert_highest [OF "2.prems" r'] by simp
  also have "\<dots> \<le> highest (upserts ed r' xs) i"
    using 2 upsert_inv [OF "2.prems", of a now] by (simp add: r')
  finally show ?case by (simp add: r')
qed simp

text \<open>
  C26. No rollback to an older key: the highest serial known for an identity never decreases, whatever
  announcements follow; an announcement with a lower serial changes no slot; and a valid, unexpired one
  with a serial at least as high becomes the highest.
\<close>

theorem serial_never_rolls_back:
  assumes "r = upserts ed nr_new xs"
  shows "highest r i \<le> highest (upserts ed r ys) i
    \<and> (unat (nk_serial a) < highest r (nk_identity a) \<longrightarrow> slot_of (snd (upsert ed r a now)) i = slot_of r i)
    \<and> (nk_verify ed a = Inr () \<longrightarrow> now < nk_not_after_ms a \<longrightarrow> highest r (nk_identity a) \<le> unat (nk_serial a) \<longrightarrow>
        highest (snd (upsert ed r a now)) (nk_identity a) = unat (nk_serial a))"
proof -
  have inv: "ring_inv ed r" using upserts_inv [OF nr_new_inv] by (simp add: assms)
  obtain res r' where r': "upsert ed r a now = (res, r')" by fastforce
  note u = upsert_slots [OF inv r'] upsert_highest [OF inv r', of "nk_identity a"]
  have "unat (nk_serial a) < highest r (nk_identity a) \<Longrightarrow> slot_of r' i = slot_of r i"
    using u(1) [of i] highest_le_iff [of r "nk_identity a" "unat (nk_serial a)"]
    by (auto simp: word_le_nat_alt not_le)
  moreover have "nk_verify ed a = Inr () \<Longrightarrow> now < nk_not_after_ms a \<Longrightarrow>
      highest r (nk_identity a) \<le> unat (nk_serial a) \<Longrightarrow> highest r' (nk_identity a) = unat (nk_serial a)"
    using u(1) [of i] u(2) by simp
  ultimately show ?thesis
    using upserts_highest [OF inv] r' by simp
qed

theorem serial_never_rolls_back_witness:
  "highest (snd (upsert demo_lib (upserts demo_lib nr_new [(demo_ann 5 7 1000, 1500)]) (demo_ann 6 8 2000) 1500)) [1] = 8
    \<and> slot_of (snd (upsert demo_lib (upserts demo_lib nr_new [(demo_ann 5 7 1000, 1500)]) (demo_ann 6 3 2000) 1500)) [1]
      = slot_of (upserts demo_lib nr_new [(demo_ann 5 7 1000, 1500)]) [1]"
proof -
  define r where "r = upserts demo_lib nr_new [(demo_ann 5 7 1000, 1500)]"
  have after: "1500 < sat_add 1000 (1000 :: u64)" "1500 < sat_add 1000 (2000 :: u64)"
    by (simp_all add: sat_add_def)
  obtain res r' where r': "upsert demo_lib nr_new (demo_ann 5 7 1000) 1500 = (res, r')" by fastforce
  have "highest r [1] = 7"
    using upsert_slots [OF nr_new_inv r', of "[1]"] upsert_highest [OF nr_new_inv r', of "[1]"] after
    by (simp add: r_def r' demo_ann_verifies) (simp add: highest_def nr_new_def slot_of_def)
  then show ?thesis
    using serial_never_rolls_back [OF r_def, where i = "[1]" and a = "demo_ann 6 3 2000" and now = 1500]
      serial_never_rolls_back [OF r_def, where i = "[1]" and a = "demo_ann 6 8 2000" and now = 1500] after
    by (simp add: demo_ann_verifies r_def)
qed

lemma current_char:
  assumes "ring_inv ed r"
  shows "current r i now = Some k \<longleftrightarrow> (\<exists>e \<in> set (slot_of r i). nk_node_key e = k \<and> valid_at now e
    \<and> (\<forall>e' \<in> set (slot_of r i). valid_at now e' \<longrightarrow> nk_serial e' \<le> nk_serial e))"
proof -
  let ?v = "filter (valid_at now) (slot_of r i)"
  have sorted: "serial_sorted (slot_of r i)"
    using assms by (simp add: ring_inv_def slot_ok_def)
  have inj: "e = e'" if "e \<in> set (slot_of r i)" "e' \<in> set (slot_of r i)" "nk_serial e = nk_serial e'" for e e'
    using sorted that unfolding sorted_wrt_iff_nth_less in_set_conv_nth
    by (metis linorder_neqE_nat order_less_irrefl)
  have "current r i now = map_option nk_node_key (max_by_key nk_serial ?v)"
    by (auto simp: current_def slot_of_def split: option.split)
  then show ?thesis
    using max_by_key_Some [of nk_serial ?v] max_by_key_None [of nk_serial ?v] inj
    by (cases "max_by_key nk_serial ?v") (auto simp: filter_empty_conv, blast intro: antisym)
qed

text \<open>
  The key to dial: in every ring built from received announcements, \<^verbatim>\<open>current\<close> returns the node
  key of the stored announcement with the highest serial among those whose validity period contains
  the clock, returns nothing exactly when there is none, and \<^verbatim>\<open>accepts\<close> holds of what it returns.
\<close>

theorem current_is_highest_valid:
  assumes "r = upserts ed nr_new xs"
  shows "(current r i now = Some k \<longleftrightarrow> (\<exists>e \<in> set (slot_of r i). nk_node_key e = k \<and> valid_at now e
      \<and> (\<forall>e' \<in> set (slot_of r i). valid_at now e' \<longrightarrow> nk_serial e' \<le> nk_serial e)))
    \<and> (current r i now = None \<longleftrightarrow> (\<forall>e \<in> set (slot_of r i). \<not> valid_at now e))
    \<and> (current r i now = Some k \<longrightarrow> accepts r i k now)"
proof -
  note char = current_char [OF upserts_inv [OF nr_new_inv, of ed xs], folded assms]
  have "current r i now = None \<longleftrightarrow> (\<forall>e \<in> set (slot_of r i). \<not> valid_at now e)"
    by (auto simp: current_def slot_of_def filter_empty_conv split: option.split)
  moreover have "accepts r i k now \<longleftrightarrow> (\<exists>e \<in> set (slot_of r i). nk_node_key e = k \<and> valid_at now e)"
    by (auto simp: accepts_def slot_of_def split: option.split)
  ultimately show ?thesis using char by blast
qed

section \<open>Saving and restoring\<close>

lemma restore_append:
  "restore ed r (xs @ ys) now = (case restore ed r xs now of (Inl e, r') \<Rightarrow> (Inl e, r')
     | (Inr _, r') \<Rightarrow> restore ed r' ys now)"
  by (induction xs arbitrary: r) (auto split: prod.split sum.split)

text \<open>Restoring a whole unexpired slot behind a prefix of it rebuilds it.\<close>

lemma restore_slot:
  assumes "ring_inv ed r" and "slot_of r i = pre" and "slot_ok ed i (pre @ s)"
    and "\<forall>e \<in> set (pre @ s). now < nk_not_after_ms e"
  shows "\<exists>r'. restore ed r s now = (Inr (), r') \<and> ring_inv ed r' \<and> slot_of r' = (slot_of r)(i := pre @ s)"
  using assms
proof (induction s arbitrary: r pre)
  case Nil
  then show ?case by auto
next
  case (Cons a s)
  obtain res r1 where r1: "upsert ed r a now = (res, r1)" by fastforce
  have a: "nk_identity a = i" "nk_verify ed a = Inr ()" "now < nk_not_after_ms a"
    and len: "length pre < 32" and pre: "\<forall>e \<in> set pre. nk_serial e < nk_serial a \<and> now < nk_not_after_ms e"
    using Cons.prems(3,4)
    by (auto simp: slot_ok_def MAX_ANNOUNCEMENTS_PER_IDENTITY_def sorted_wrt_append)
  have "filter (\<lambda>e. nk_serial e \<noteq> nk_serial a \<and> now < nk_not_after_ms e) pre = pre"
    using pre by (intro filter_True) auto
  then have "stored a now pre = pre @ [a]"
    using len by (simp add: stored_def)
  then have slots: "res = Inr ()" "slot_of r1 = (slot_of r)(i := pre @ [a])"
    using upsert_slots [OF Cons.prems(1) r1] a pre Cons.prems(2) by (auto simp: less_imp_le)
  have "ring_inv ed r1" using upsert_inv [OF Cons.prems(1), of a now] by (simp add: r1)
  then have "\<exists>r'. restore ed r1 s now = (Inr (), r') \<and> ring_inv ed r'
      \<and> slot_of r' = (slot_of r1)(i := (pre @ [a]) @ s)"
    using Cons.prems(3,4) slots(2) by (intro Cons.IH) simp_all
  moreover have "(slot_of r1)(i := (pre @ [a]) @ s) = (slot_of r)(i := pre @ a # s)"
    by (simp add: slots)
  ultimately show ?case by (simp only: restore.simps r1 slots prod.case sum.case)
qed

lemma restore_slots:
  assumes "ring_inv ed r" and "distinct (map fst m)"
    and "\<forall>(i, s) \<in> set m. slot_of r i = [] \<and> slot_ok ed i s \<and> (\<forall>e \<in> set s. now < nk_not_after_ms e)"
  shows "\<exists>r'. restore ed r (concat (map snd m)) now = (Inr (), r')
    \<and> (\<forall>i. slot_of r' i = (case map_of m i of Some s \<Rightarrow> s | None \<Rightarrow> slot_of r i))"
  using assms
proof (induction m arbitrary: r)
  case Nil
  then show ?case by simp
next
  case (Cons x m)
  obtain i s where x: "x = (i, s)" by fastforce
  obtain r1 where r1: "restore ed r s now = (Inr (), r1)" "ring_inv ed r1" "slot_of r1 = (slot_of r)(i := s)"
    using restore_slot [OF Cons.prems(1), of i "[]" s now] Cons.prems(3) by (auto simp: x)
  have new: "map_of m i = None" using Cons.prems(2) by (simp add: x map_of_eq_None_iff)
  have "\<exists>r'. restore ed r1 (concat (map snd m)) now = (Inr (), r')
    \<and> (\<forall>j. slot_of r' j = (case map_of m j of Some s \<Rightarrow> s | None \<Rightarrow> slot_of r1 j))"
  proof (rule Cons.IH [OF r1(2)])
    show "distinct (map fst m)" using Cons.prems(2) by simp
    show "\<forall>(j, s) \<in> set m. slot_of r1 j = [] \<and> slot_ok ed j s \<and> (\<forall>e \<in> set s. now < nk_not_after_ms e)"
      using Cons.prems(2,3) r1(3) by (force simp: x)
  qed
  then show ?case
    using r1 new by (auto simp: x restore_append split: option.split)
qed

text \<open>
  C27. Saving and restoring loses nothing while nothing has expired: feeding the exported announcements
  of a ring back into a new ring, in whatever order the map is walked, succeeds and gives every
  identity the slot it had.
\<close>

theorem restore_state_roundtrip:
  assumes "r = upserts ed nr_new xs" and "\<And>m. mset (iter m) = mset m"
    and "\<forall>e \<in> set (ring_state iter r). now < nk_not_after_ms e"
  shows "\<exists>r'. restore ed nr_new (ring_state iter r) now = (Inr (), r') \<and> slot_of r' = slot_of r"
proof -
  let ?m = "iter (nr_entries r)"
  have inv: "ring_inv ed r" using upserts_inv [OF nr_new_inv] by (simp add: assms(1))
  have wf: "hm_wf (nr_entries r)" using inv by (simp add: ring_inv_def)
  have "mset (map fst ?m) = mset (map fst (nr_entries r))" by (simp add: assms(2))
  then have dist: "distinct (map fst ?m)"
    using wf mset_eq_imp_distinct_iff unfolding hm_wf_def by blast
  have get: "map_of ?m i = hm_get (nr_entries r) i" for i
    using map_of_inject_set [OF dist] wf mset_eq_setD [OF assms(2)] unfolding hm_wf_def hm_get_def by metis
  have "\<forall>(i, s) \<in> set ?m. slot_of nr_new i = [] \<and> slot_ok ed i s \<and> (\<forall>e \<in> set s. now < nk_not_after_ms e)"
  proof safe
    fix i s assume mem: "(i, s) \<in> set ?m"
    then have "slot_of r i = s"
      using get [of i] map_of_is_SomeI [OF dist mem] unfolding slot_of_def by (metis option.simps(5))
    then show "slot_ok ed i s" using inv by (auto simp: ring_inv_def)
    show "now < nk_not_after_ms e" if "e \<in> set s" for e
      using assms(3) mem that by (force simp: ring_state_def hm_values_def)
  qed (simp add: nr_new_def slot_of_def)
  from restore_slots [OF nr_new_inv dist this] obtain r' where
    r': "restore ed nr_new (ring_state iter r) now = (Inr (), r')"
    "\<forall>i. slot_of r' i = (case map_of ?m i of Some s \<Rightarrow> s | None \<Rightarrow> slot_of nr_new i)"
    by (auto simp: ring_state_def hm_values_def)
  have "slot_of r' i = slot_of r i" for i
    using r'(2) get [of i] slot_of_def [of r i]
    by (cases "hm_get (nr_entries r) i") (simp_all add: nr_new_def slot_of_def [of "\<lparr>nr_entries = []\<rparr>"])
  then show ?thesis using r'(1) by auto
qed

lemma demo_ring:
  "upserts demo_lib nr_new [(demo_ann 5 7 1000, 1500), (demo_ann 6 8 2000, 1500)]
    = \<lparr>nr_entries = [([1], [demo_ann 5 7 1000, demo_ann 6 8 2000])]\<rparr>"
  by (simp add: upsert_def demo_ann_verifies nr_new_def slot_of_def hm_get_def hm_insert_def sat_add_def
      trim_slot.simps MAX_ANNOUNCEMENTS_PER_IDENTITY_def)

theorem current_is_highest_valid_witness:
  "accepts (upserts demo_lib nr_new [(demo_ann 5 7 1000, 1500), (demo_ann 6 8 2000, 1500)]) [1] [6] 1600"
proof -
  have "current (upserts demo_lib nr_new [(demo_ann 5 7 1000, 1500), (demo_ann 6 8 2000, 1500)]) [1] 1600 = Some [6]"
    unfolding demo_ring by (simp add: current_def hm_get_def valid_at_def sat_add_def)
  then show ?thesis using current_is_highest_valid [OF refl] by blast
qed

theorem restore_state_roundtrip_witness:
  "\<exists>r'. restore demo_lib nr_new (ring_state (\<lambda>m. m) (upserts demo_lib nr_new
      [(demo_ann 5 7 1000, 1500), (demo_ann 6 8 2000, 1500)])) 1900 = (Inr (), r')
    \<and> slot_of r' = slot_of (upserts demo_lib nr_new [(demo_ann 5 7 1000, 1500), (demo_ann 6 8 2000, 1500)])"
  by (rule restore_state_roundtrip [OF refl refl])
    (unfold demo_ring, simp add: ring_state_def hm_values_def sat_add_def)

text \<open>
  One expired announcement stops the restoration: a ring that holds an expired announcement and a
  valid newer one (the ordinary overlap of a rotation) is saved, and restoring it fails at the expired
  one; the valid key, current before, is lost.
\<close>

theorem restore_aborts_on_expired:
  "\<exists>r. r = upserts demo_lib nr_new [(demo_ann 5 7 1000, 1500), (demo_ann 6 8 9000, 1500)]
    \<and> current r [1] 2500 = Some [6]
    \<and> restore demo_lib nr_new (ring_state (\<lambda>m. m) r) 2500
        = (Inl (Crypto ''announcement already expired''), nr_new)
    \<and> current (snd (restore demo_lib nr_new (ring_state (\<lambda>m. m) r) 2500)) [1] 2500 = None"
  by (simp add: upsert_def demo_ann_verifies nr_new_def slot_of_def hm_get_def hm_insert_def sat_add_def
      trim_slot.simps MAX_ANNOUNCEMENTS_PER_IDENTITY_def current_def valid_at_def ring_state_def hm_values_def)

end
