(* ===== verification/Retry.thy ===== *)
theory Retry
  imports Prelude
begin

text \<open>
  \<^verbatim>\<open>crates/core/src/retry.rs\<close>: exponential back-off with full jitter. The outcome of the call for eight
  random bytes is the argument \<open>rng\<close>. The plain \<^verbatim>\<open>-\<close>, \<^verbatim>\<open>+\<close> of the source are checked: \<open>None\<close> is an
  overflow.
\<close>

record retry_policy =
  rp_max_attempts :: u32
  rp_base_delay_ms :: u64
  rp_max_delay_ms :: u64

definition rp_default :: retry_policy where
  "rp_default = \<lparr>rp_max_attempts = 8, rp_base_delay_ms = 2000, rp_max_delay_ms = 15 * 60000\<rparr>"

text \<open>\<^verbatim>\<open>exp.min(max_delay_ms).max(base_delay_ms)\<close> with \<^verbatim>\<open>exp = base.saturating_mul(1 << min(attempt - 1, 20))\<close>.\<close>

definition delay_cap :: "retry_policy \<Rightarrow> u32 \<Rightarrow> u64" where
  "delay_cap p attempt =
     (let shift = min (unat (attempt - 1)) 20;
          exp = sat_mul (rp_base_delay_ms p) (push_bit shift 1)
      in max (min exp (rp_max_delay_ms p)) (rp_base_delay_ms p))"

definition next_delay_ms :: "retry_policy \<Rightarrow> u32 \<Rightarrow> string + bytes \<Rightarrow> u64 result option" where
  "next_delay_ms p attempt rng =
     (if attempt = 0 then Some (Inl (Config ''attempt starts at 1''))
      else if attempt \<ge> rp_max_attempts p then Some (Inl (Config ''attempts exhausted, no next delay''))
      else let cap = delay_cap p attempt in
        case rng of
          Inl e \<Rightarrow> Some (Inl (Entropy e))
        | Inr buf \<Rightarrow> do {
            d \<leftarrow> chk_sub cap (rp_base_delay_ms p);
            span \<leftarrow> chk_add d 1;
            let jitter = word_of_nat (from_be buf) mod span;
            r \<leftarrow> chk_add (rp_base_delay_ms p) jitter;
            Some (Inr r)
          })"

definition exhausted :: "retry_policy \<Rightarrow> u32 \<Rightarrow> bool" where
  "exhausted p attempts \<longleftrightarrow> attempts \<ge> rp_max_attempts p"

section \<open>The delay\<close>

lemma unat_shift20: "s \<le> 20 \<Longrightarrow> unat (push_bit s (1 :: u64)) = 2 ^ s"
proof -
  assume "s \<le> 20"
  then have "(2::nat) ^ s \<le> 2 ^ 20" by (intro power_increasing) auto
  then have "(2::nat) ^ s < 2 ^ LENGTH(64)" by simp
  then have "unat (of_nat (2 ^ s) :: u64) = 2 ^ s" by (simp only: unat_of_nat take_bit_eq_mod mod_less)
  then show ?thesis by (simp add: push_bit_eq_mult)
qed

lemma unat_delay_cap:
  "unat (delay_cap p a) = max (min (unat (rp_base_delay_ms p) * 2 ^ min (unat (a - 1)) 20)
      (unat (rp_max_delay_ms p))) (unat (rp_base_delay_ms p))"
proof -
  have mm: "unat (max x y) = max (unat x) (unat y)" "unat (min x y) = min (unat x) (unat y)" for x y :: u64
    by (auto simp: max_def min_def word_le_nat_alt)
  have top: "min (min (2 ^ 64 - 1) n) (unat (rp_max_delay_ms p)) = min n (unat (rp_max_delay_ms p))" for n
    using unat_bound [of "rp_max_delay_ms p"] by simp
  have sh: "unat (push_bit (min (unat (a - 1)) 20) (1 :: u64)) = 2 ^ min (unat (a - 1)) 20"
    by (rule unat_shift20) simp
  show ?thesis
    unfolding delay_cap_def Let_def mm unat_sat_mul sh using top by simp
qed

text \<open>The span cannot wrap: a base of zero has a cap of zero.\<close>

lemma span_fits: "unat (delay_cap p a) - unat (rp_base_delay_ms p) + 1 < 2 ^ 64"
proof (cases "rp_base_delay_ms p = 0")
  case True
  then show ?thesis by (simp add: unat_delay_cap)
next
  case False
  then have "0 < unat (rp_base_delay_ms p)" by (simp add: unat_gt_0)
  then show ?thesis using unat_bound [of "delay_cap p a"] by simp
qed

lemma next_delay_value:
  assumes "a \<noteq> 0" and "a < rp_max_attempts p" and "rng = Inr buf"
  shows "\<exists>d. next_delay_ms p a rng = Some (Inr d) \<and> unat (rp_base_delay_ms p) \<le> unat d
    \<and> unat d \<le> unat (delay_cap p a)"
proof -
  let ?base = "rp_base_delay_ms p" and ?cap = "delay_cap p a"
  have le: "unat ?base \<le> unat ?cap" by (simp add: unat_delay_cap)
  then have d: "chk_sub ?cap ?base = Some (?cap - ?base)" "unat (?cap - ?base) = unat ?cap - unat ?base"
    by (simp_all add: chk_sub_def word_le_nat_alt unat_sub)
  have fits: "unat (?cap - ?base) + unat (1 :: u64) < 2 ^ LENGTH(64)"
    using span_fits [of p a] by (simp add: d)
  then have span: "chk_add (?cap - ?base) 1 = Some (?cap - ?base + 1)"
    "unat (?cap - ?base + 1) = unat ?cap - unat ?base + 1"
    using d(2) by (simp_all add: chk_add_def unat_plus_no_overflow)
  define j where "j = (word_of_nat (from_be buf) :: u64) mod (?cap - ?base + 1)"
  have "unat j < unat ?cap - unat ?base + 1"
    unfolding j_def unat_mod_distrib span(2) by (rule mod_less_divisor) simp
  then have j: "unat ?base + unat j \<le> unat ?cap" using le by linarith
  then have "unat ?base + unat j < 2 ^ LENGTH(64)" using unat_bound [of ?cap] by simp
  then have "chk_add ?base j = Some (?base + j)" "unat (?base + j) = unat ?base + unat j"
    by (simp_all add: chk_add_def unat_plus_no_overflow)
  then show ?thesis
    using assms d(1) span(1) j by (auto simp: next_delay_ms_def Let_def j_def)
qed

text \<open>
  C33. Every back-off is in range: for an attempt below the limit and any random bytes, the delay exists
  (none of the plain additions and subtractions overflows, whatever the policy) and lies between the
  base delay and the base delay doubled once per earlier attempt (at most 20 times), cut at the
  maximum; outside that range of attempts, or without randomness, the call reports an error.
\<close>

theorem next_delay_in_range:
  "(case next_delay_ms p a rng of
      None \<Rightarrow> False
    | Some (Inr d) \<Rightarrow> unat (rp_base_delay_ms p) \<le> unat d
        \<and> unat d \<le> max (min (unat (rp_base_delay_ms p) * 2 ^ min (unat (a - 1)) 20)
             (unat (rp_max_delay_ms p))) (unat (rp_base_delay_ms p))
        \<and> a \<noteq> 0 \<and> \<not> exhausted p a
    | Some (Inl e) \<Rightarrow> a = 0 \<or> exhausted p a \<or> isl rng)"
proof (cases "a = 0 \<or> exhausted p a \<or> isl rng")
  case True
  then show ?thesis by (auto simp: next_delay_ms_def exhausted_def Let_def split: sum.splits)
next
  case False
  then obtain buf where rng: "rng = Inr buf" by (cases rng) auto
  then obtain d where "next_delay_ms p a rng = Some (Inr d)" "unat (rp_base_delay_ms p) \<le> unat d"
    "unat d \<le> unat (delay_cap p a)"
    using next_delay_value [of a p rng buf] False by (auto simp: exhausted_def not_le)
  then show ?thesis using False by (simp add: unat_delay_cap)
qed

end
