(* ===== verification/Sql.thy ===== *)
theory Sql
  imports Prelude Strings
begin

text \<open>
  What the three SQLite components (\<^verbatim>\<open>queue.rs\<close>, \<^verbatim>\<open>contacts.rs\<close>, \<^verbatim>\<open>signal_store.rs\<close>) share: tables as
  lists of rows, the statements they run on them, the outcome of the database calls, and the quoting of
  the encryption key.

  The outcome of the \<open>n\<close>-th library call of an operation is \<open>f n\<close> for the argument \<open>f :: faults\<close>:
  \<open>None\<close> is success, \<open>Some m\<close> a failure with message \<open>m\<close> that leaves the tables as they were. Columns
  are typed: a row whose stored value has another SQL type is outside the model, one whose blob has the
  wrong length is not.
\<close>

section \<open>Statements\<close>

type_synonym faults = "nat \<Rightarrow> string option"

text \<open>\<^verbatim>\<open>INSERT OR IGNORE\<close> on the key \<open>k\<close>: the number of rows written, and the table.\<close>

definition insert_or_ignore :: "('r \<Rightarrow> 'k) \<Rightarrow> 'r \<Rightarrow> 'r list \<Rightarrow> nat \<times> 'r list" where
  "insert_or_ignore k row rows = (if k row \<in> k ` set rows then (0, rows) else (1, rows @ [row]))"

text \<open>\<^verbatim>\<open>UPDATE ... SET ... WHERE\<close>, and \<^verbatim>\<open>DELETE ... WHERE\<close>.\<close>

definition update_where :: "('r \<Rightarrow> bool) \<Rightarrow> ('r \<Rightarrow> 'r) \<Rightarrow> 'r list \<Rightarrow> 'r list" where
  "update_where P u rows = map (\<lambda>r. if P r then u r else r) rows"

definition delete_where :: "('r \<Rightarrow> bool) \<Rightarrow> 'r list \<Rightarrow> 'r list" where
  "delete_where P rows = filter (\<lambda>r. \<not> P r) rows"

text \<open>\<^verbatim>\<open>rows.collect::<Result<Vec<_>, _>>()\<close>: the first row that fails to convert is the result.\<close>

fun collect :: "('r \<Rightarrow> 'e + 'a) \<Rightarrow> 'r list \<Rightarrow> 'e + 'a list" where
  "collect g [] = Inr []"
| "collect g (r # rs) = try_res (g r) (\<lambda>x. try_res (collect g rs) (\<lambda>xs. Inr (x # xs)))"

text \<open>
  A failed conversion of a column (\<^verbatim>\<open>rusqlite::Error::InvalidColumnType\<close>): its index and name. The text
  \<^verbatim>\<open>rusqlite\<close> prints for it is a parameter of the operations.
\<close>

datatype col_error = InvalidColumnType nat string

text \<open>
  \<^verbatim>\<open>ORDER BY\<close> an integer column: some permutation of the rows on which the column is sorted; SQL leaves
  the order of ties open.
\<close>

definition order_by_ok :: "('r \<Rightarrow> int) \<Rightarrow> ('r list \<Rightarrow> 'r list) \<Rightarrow> bool" where
  "order_by_ok c ord \<longleftrightarrow> (\<forall>rows. mset (ord rows) = mset rows \<and> sorted (map c (ord rows)))"

text \<open>Blobs of a fixed length, and optional ones, read into arrays.\<close>

definition blob :: "nat \<Rightarrow> string \<Rightarrow> nat \<Rightarrow> bytes \<Rightarrow> col_error + bytes" where
  "blob i name n b = (if length b = n then Inr b else Inl (InvalidColumnType i name))"

definition opt_blob :: "nat \<Rightarrow> string \<Rightarrow> nat \<Rightarrow> bytes option \<Rightarrow> col_error + bytes option" where
  "opt_blob i name n x = (case x of None \<Rightarrow> Inr None | Some b \<Rightarrow> try_res (blob i name n b) (\<lambda>b. Inr (Some b)))"

section \<open>The encryption key\<close>

definition quote :: char where "quote = CHR 0x27"

text \<open>\<^verbatim>\<open>k.replace('\'', "''")\<close>, and the statement the three \<^verbatim>\<open>open\<close> functions build with it.\<close>

definition escape_quotes :: "string \<Rightarrow> string" where
  "escape_quotes k = concat (map (\<lambda>c. if c = quote then [quote, quote] else [c]) k)"

definition pragma_key :: "string \<Rightarrow> string" where
  "pragma_key k = ''PRAGMA key = '' @ [quote] @ escape_quotes k @ [quote] @ '';''"

text \<open>
  How SQL reads a string literal after its opening quote: a doubled quote is a quote, a single one ends
  the literal. The result is the value and the rest of the statement.
\<close>

fun read_literal :: "string \<Rightarrow> (string \<times> string) option" where
  "read_literal [] = None"
| "read_literal (c # cs) =
     (if c = quote
      then (case cs of
              d # ds \<Rightarrow> if d = quote then map_option (\<lambda>(v, r). (quote # v, r)) (read_literal ds) else Some ([], cs)
            | [] \<Rightarrow> Some ([], []))
      else map_option (\<lambda>(v, r). (c # v, r)) (read_literal cs))"

section \<open>Facts about statements\<close>

lemma collect_Inr_map: "\<forall>r \<in> set rs. g r = Inr (h r) \<Longrightarrow> collect g rs = Inr (map h rs)"
  by (induction rs) simp_all

lemma collect_Inr_iff: "collect g rs = Inr xs \<longleftrightarrow> list_all2 (\<lambda>r x. g r = Inr x) rs xs"
  by (induction rs arbitrary: xs) (auto simp: result_simps list_all2_Cons1)

lemma blob_simps [simp]: "blob i n k b = Inr c \<longleftrightarrow> length b = k \<and> c = b"
  by (auto simp: blob_def)

lemma order_by_set: "order_by_ok c ord \<Longrightarrow> set (ord rows) = set rows"
  unfolding order_by_ok_def by (metis set_mset_mset)

lemma order_by_length: "order_by_ok c ord \<Longrightarrow> length (ord rows) = length rows"
  unfolding order_by_ok_def by (metis size_mset)

lemma update_where_set: "set (update_where P u rows) = {if P r then u r else r | r. r \<in> set rows}"
  by (auto simp: update_where_def)

lemma update_where_keys:
  "(\<And>r. k (u r) = k r) \<Longrightarrow> map k (update_where P u rows) = map k rows"
  by (induction rows) (auto simp: update_where_def)

lemma insert_or_ignore_distinct:
  "distinct (map k rows) \<Longrightarrow> distinct (map k (snd (insert_or_ignore k row rows)))"
  by (auto simp: insert_or_ignore_def)

lemma insert_or_ignore_twice:
  "k row' = k row \<Longrightarrow> insert_or_ignore k row' (snd (insert_or_ignore k row rows))
    = (0, snd (insert_or_ignore k row rows))"
  by (auto simp: insert_or_ignore_def)

text \<open>In a table with distinct keys, the row of a key is unique.\<close>

lemma find_key_iff:
  "distinct (map k rows) \<Longrightarrow> find (\<lambda>r. k r = x) rows = Some r \<longleftrightarrow> r \<in> set rows \<and> k r = x"
  by (induction rows) (auto simp: rev_image_eqI)

lemma find_update_where:
  assumes "\<And>r. k (u r) = k r"
  shows "find (\<lambda>r. k r = x) (update_where (\<lambda>r. k r = y) u rows)
    = map_option (\<lambda>r. if x = y then u r else r) (find (\<lambda>r. k r = x) rows)"
  by (induction rows) (auto simp: update_where_def assms)

section \<open>The key is one literal\<close>

lemma read_escaped:
  assumes "\<And>ds. rest \<noteq> quote # ds"
  shows "read_literal (escape_quotes k @ quote # rest) = Some (k, rest)"
proof (induction k)
  case Nil
  then show ?case using assms by (auto simp: escape_quotes_def split: list.split)
next
  case (Cons c k)
  then show ?case by (auto simp: escape_quotes_def)
qed

text \<open>
  C25. The key cannot break out of the statement: whatever characters it has, quotes included, the text
  after the opening quote of the \<^verbatim>\<open>PRAGMA\<close> reads as one string literal whose value is exactly the key,
  followed by nothing but the closing semicolon.
\<close>

theorem pragma_key_is_one_literal:
  "\<exists>lit. pragma_key k = ''PRAGMA key = '' @ [quote] @ lit \<and> read_literal lit = Some (k, '';'')"
proof -
  have "read_literal (escape_quotes k @ quote # '';'') = Some (k, '';'')"
    by (rule read_escaped) (simp add: quote_def)
  then show ?thesis by (simp add: pragma_key_def)
qed

end
