(* ===== verification/Queue_Db.thy ===== *)
theory Queue_Db
  imports Sql Envelope Retry
begin

text \<open>
  \<^verbatim>\<open>crates/core/src/queue.rs\<close>: the persistent outbox (pending, sent, dead messages with their retry
  schedule) and the table of message ids already delivered.
\<close>

section \<open>Tables\<close>

record out_row =
  ob_msg_id :: bytes
  ob_recipient :: "bytes option"
  ob_group_id :: "bytes option"
  ob_kind :: int
  ob_body :: bytes
  ob_state :: string
  ob_attempts :: int
  ob_next_attempt_ms :: int
  ob_created_ms :: int

record db =
  db_outbox :: "out_row list"
  db_inbox_seen :: "(msg_id, int) hmap"

definition db_empty :: db where
  "db_empty = \<lparr>db_outbox = [], db_inbox_seen = []\<rparr>"

record pending_row =
  pr_msg_id :: msg_id
  pr_recipient :: "bytes option"
  pr_group_id :: "bytes option"
  pr_kind :: u8
  pr_body :: bytes
  pr_attempts :: u32

definition QUEUE_SCHEMA :: string where
  "QUEUE_SCHEMA = ''
CREATE TABLE IF NOT EXISTS outbox (
    msg_id BLOB PRIMARY KEY,
    recipient BLOB,
    group_id BLOB,
    kind INTEGER NOT NULL,
    body BLOB NOT NULL,
    state TEXT NOT NULL DEFAULT 'pending',
    attempts INTEGER NOT NULL DEFAULT 0,
    next_attempt_ms INTEGER NOT NULL DEFAULT 0,
    created_ms INTEGER NOT NULL
);
CREATE TABLE IF NOT EXISTS inbox_seen (
    msg_id BLOB PRIMARY KEY,
    seen_ms INTEGER NOT NULL
);
CREATE INDEX IF NOT EXISTS idx_outbox_state ON outbox(state, created_ms);
CREATE INDEX IF NOT EXISTS idx_outbox_due ON outbox(state, next_attempt_ms);
''"

section \<open>Opening\<close>

text \<open>
  \<open>conn\<close> is the outcome of opening the connection, \<open>exec\<close> that of executing a batch, \<open>disk\<close> the tables
  the file holds.
\<close>

definition db_open :: "string option \<Rightarrow> (string \<Rightarrow> string option) \<Rightarrow> db \<Rightarrow> string \<Rightarrow> string option
    \<Rightarrow> db result" where
  "db_open conn exec disk path key =
     (if key = None \<and> path \<noteq> '':memory:''
      then Inl (Db ''refusing to create unencrypted database: key required (strict mode)'')
      else try_res (guard_fault Db conn) (\<lambda>_.
        try_res (case key of Some k \<Rightarrow> guard_fault Db (exec (pragma_key k)) | None \<Rightarrow> Inr ()) (\<lambda>_.
        try_res (guard_fault Db (exec QUEUE_SCHEMA)) (\<lambda>_.
        Inr (if path = '':memory:'' then db_empty else disk)))))"

section \<open>The outbox\<close>

definition clamp_ms :: "u64 \<Rightarrow> int" where
  "clamp_ms v = (if uint v \<le> i64_max then uint v else i64_max)"

definition env_row :: "envelope \<Rightarrow> out_row" where
  "env_row env = \<lparr>ob_msg_id = env_msg_id env, ob_recipient = env_recipient env, ob_group_id = env_group env,
     ob_kind = uint (kind_u8 (env_kind env)), ob_body = env_body env, ob_state = ''pending'',
     ob_attempts = 0, ob_next_attempt_ms = 0, ob_created_ms = clamp_ms (env_sent_at_ms env)\<rparr>"

definition enqueue :: "faults \<Rightarrow> db \<Rightarrow> envelope \<Rightarrow> unit result \<times> db" where
  "enqueue f d env =
     (case f 0 of
        Some e \<Rightarrow> (Inl (Db e), d)
      | None \<Rightarrow> (Inr (), d\<lparr>db_outbox := snd (insert_or_ignore ob_msg_id (env_row env) (db_outbox d))\<rparr>))"

definition row_to_pending :: "out_row \<Rightarrow> col_error + pending_row" where
  "row_to_pending r =
     try_res (blob 0 ''msg_id'' 16 (ob_msg_id r)) (\<lambda>i.
     try_res (opt_blob 1 ''recipient'' 32 (ob_recipient r)) (\<lambda>rc.
     try_res (opt_blob 2 ''group_id'' 32 (ob_group_id r)) (\<lambda>g.
     Inr \<lparr>pr_msg_id = i, pr_recipient = rc, pr_group_id = g, pr_kind = word_of_int (ob_kind r),
          pr_body = ob_body r, pr_attempts = word_of_int (ob_attempts r)\<rparr>)))"

text \<open>
  The common shape of \<^verbatim>\<open>pending\<close> and \<^verbatim>\<open>due\<close>: prepare, query, then step through the rows (\<open>f 2\<close> is a
  failure while stepping) and convert them.
\<close>

definition select_rows :: "(col_error \<Rightarrow> string) \<Rightarrow> (out_row list \<Rightarrow> out_row list) \<Rightarrow> faults
    \<Rightarrow> (out_row \<Rightarrow> bool) \<Rightarrow> u32 \<Rightarrow> db \<Rightarrow> pending_row list result" where
  "select_rows shw ord f P limit d =
     try_res (guard_fault Db (f 0)) (\<lambda>_.
     try_res (guard_fault Db (f 1)) (\<lambda>_.
     try_res (guard_fault Db (f 2)) (\<lambda>_.
     map_err (Db \<circ> shw) (collect row_to_pending (take (unat limit) (ord (filter P (db_outbox d))))))))"

definition pending where
  "pending shw ord f d limit = select_rows shw ord f (\<lambda>r. ob_state r = ''pending'') limit d"

definition mark_sent :: "faults \<Rightarrow> db \<Rightarrow> msg_id \<Rightarrow> unit result \<times> db" where
  "mark_sent f d i =
     (case f 0 of
        Some e \<Rightarrow> (Inl (Db e), d)
      | None \<Rightarrow> (Inr (), d\<lparr>db_outbox := update_where (\<lambda>r. ob_msg_id r = i)
          (\<lambda>r. r\<lparr>ob_state := ''sent''\<rparr>) (db_outbox d)\<rparr>))"

text \<open>\<open>None\<close> is the overflow of \<^verbatim>\<open>attempts as u32 + 1\<close> (or one inside \<open>next_delay_ms\<close>, which has none).\<close>

definition fail_and_reschedule :: "faults \<Rightarrow> string + bytes \<Rightarrow> db \<Rightarrow> msg_id \<Rightarrow> retry_policy \<Rightarrow> u64
    \<Rightarrow> (bool result \<times> db) option" where
  "fail_and_reschedule f rng d i policy now_ms =
     (case f 0 of
        Some e \<Rightarrow> Some (Inl (Db e), d)
      | None \<Rightarrow>
          case find (\<lambda>r. ob_msg_id r = i) (db_outbox d) of
            None \<Rightarrow> Some (Inl (Db ''Query returned no rows''), d)
          | Some r \<Rightarrow> do {
              attempts \<leftarrow> chk_add (word_of_int (ob_attempts r) :: u32) 1;
              if exhausted policy attempts
              then (case f 1 of
                      Some e \<Rightarrow> Some (Inl (Db e), d)
                    | None \<Rightarrow> Some (Inr True, d\<lparr>db_outbox := update_where (\<lambda>r. ob_msg_id r = i)
                        (\<lambda>r. r\<lparr>ob_state := ''dead'', ob_attempts := uint attempts\<rparr>) (db_outbox d)\<rparr>))
              else do {
                delay \<leftarrow> next_delay_ms policy attempts rng;
                (case delay of
                   Inl e \<Rightarrow> Some (Inl e, d)
                 | Inr delay \<Rightarrow>
                     let next_attempt = clamp_ms (sat_add now_ms delay) in
                     (case f 1 of
                        Some e \<Rightarrow> Some (Inl (Db e), d)
                      | None \<Rightarrow> Some (Inr False, d\<lparr>db_outbox := update_where (\<lambda>r. ob_msg_id r = i)
                          (\<lambda>r. r\<lparr>ob_attempts := uint attempts, ob_next_attempt_ms := next_attempt\<rparr>)
                          (db_outbox d)\<rparr>)))
              }
            })"

definition due where
  "due shw ord f d now_ms limit =
     select_rows shw ord f (\<lambda>r. ob_state r = ''pending'' \<and> ob_next_attempt_ms r \<le> u64_as_i64 now_ms) limit d"

definition revive :: "faults \<Rightarrow> db \<Rightarrow> msg_id \<Rightarrow> unit result \<times> db" where
  "revive f d i =
     (case f 0 of
        Some e \<Rightarrow> (Inl (Db e), d)
      | None \<Rightarrow> (Inr (), d\<lparr>db_outbox := update_where (\<lambda>r. ob_msg_id r = i)
          (\<lambda>r. r\<lparr>ob_state := ''pending'', ob_attempts := 0, ob_next_attempt_ms := 0\<rparr>) (db_outbox d)\<rparr>))"

section \<open>The table of delivered ids\<close>

definition record_seen :: "faults \<Rightarrow> db \<Rightarrow> msg_id \<Rightarrow> u64 \<Rightarrow> bool result \<times> db" where
  "record_seen f d i now_ms =
     (case f 0 of
        Some e \<Rightarrow> (Inl (Db e), d)
      | None \<Rightarrow> if hm_contains (db_inbox_seen d) i then (Inr False, d)
          else (Inr True, d\<lparr>db_inbox_seen := hm_insert i (clamp_ms now_ms) (db_inbox_seen d)\<rparr>))"

definition prune_seen :: "faults \<Rightarrow> db \<Rightarrow> u64 \<Rightarrow> nat result \<times> db" where
  "prune_seen f d before_ms =
     (case f 0 of
        Some e \<Rightarrow> (Inl (Db e), d)
      | None \<Rightarrow> let kept = hm_retain (\<lambda>_ seen. \<not> seen < u64_as_i64 before_ms) (db_inbox_seen d)
          in (Inr (hm_len (db_inbox_seen d) - hm_len kept), d\<lparr>db_inbox_seen := kept\<rparr>))"

definition stats :: "faults \<Rightarrow> db \<Rightarrow> (u32 \<times> u32 \<times> u32) result" where
  "stats f d =
     try_res (guard_fault Db (f 0)) (\<lambda>_.
     let pending = word_of_nat (length (filter (\<lambda>r. ob_state r = ''pending'') (db_outbox d))) in
     try_res (guard_fault Db (f 1)) (\<lambda>_.
     let dead = word_of_nat (length (filter (\<lambda>r. ob_state r = ''dead'') (db_outbox d))) in
     try_res (guard_fault Db (f 2)) (\<lambda>_.
     Inr (pending, dead, word_of_nat (hm_len (db_inbox_seen d))))))"

section \<open>Reachable databases\<close>

text \<open>Every operation that writes, as a step; an operation that panics changes nothing.\<close>

datatype db_op =
    Enqueue envelope
  | MarkSent msg_id
  | Fail msg_id retry_policy u64 "string + bytes"
  | Revive msg_id
  | RecordSeen msg_id u64
  | PruneSeen u64

fun db_apply :: "faults \<Rightarrow> db_op \<Rightarrow> db \<Rightarrow> db" where
  "db_apply f (Enqueue e) d = snd (enqueue f d e)"
| "db_apply f (MarkSent i) d = snd (mark_sent f d i)"
| "db_apply f (Fail i p now rng) d =
     (case fail_and_reschedule f rng d i p now of None \<Rightarrow> d | Some (_, d') \<Rightarrow> d')"
| "db_apply f (Revive i) d = snd (revive f d i)"
| "db_apply f (RecordSeen i now) d = snd (record_seen f d i now)"
| "db_apply f (PruneSeen b) d = snd (prune_seen f d b)"

fun op_wf :: "db_op \<Rightarrow> bool" where
  "op_wf (Enqueue e) = wf_envelope e"
| "op_wf _ = True"

inductive db_step :: "db \<Rightarrow> db \<Rightarrow> bool" where
  step: "op_wf op \<Longrightarrow> db_step d (db_apply f op d)"

inductive db_reach :: "db \<Rightarrow> bool" where
  init: "db_reach db_empty"
| next_db: "db_reach d \<Longrightarrow> db_step d d' \<Longrightarrow> db_reach d'"

inductive_cases db_stepE: "db_step d d'"

definition row_ok :: "out_row \<Rightarrow> bool" where
  "row_ok r \<longleftrightarrow> length (ob_msg_id r) = 16 \<and> opt_len 32 (ob_recipient r) \<and> opt_len 32 (ob_group_id r)
     \<and> ob_state r \<in> {''pending'', ''sent'', ''dead''}
     \<and> 0 \<le> ob_attempts r \<and> ob_attempts r < 2 ^ 32
     \<and> 0 \<le> ob_next_attempt_ms r \<and> ob_next_attempt_ms r \<le> i64_max
     \<and> 0 \<le> ob_created_ms r \<and> ob_created_ms r \<le> i64_max"

definition db_inv :: "db \<Rightarrow> bool" where
  "db_inv d \<longleftrightarrow> distinct (map ob_msg_id (db_outbox d)) \<and> (\<forall>r \<in> set (db_outbox d). row_ok r)
     \<and> hm_wf (db_inbox_seen d) \<and> (\<forall>t \<in> set (hm_values (db_inbox_seen d)). 0 \<le> t \<and> t \<le> i64_max)"

text \<open>The part of a row that is fixed at its insertion.\<close>

definition row_content :: "out_row \<Rightarrow> bytes \<times> bytes option \<times> bytes option \<times> int \<times> bytes \<times> int" where
  "row_content r = (ob_msg_id r, ob_recipient r, ob_group_id r, ob_kind r, ob_body r, ob_created_ms r)"

definition to_pending :: "out_row \<Rightarrow> pending_row" where
  "to_pending r = \<lparr>pr_msg_id = ob_msg_id r, pr_recipient = ob_recipient r, pr_group_id = ob_group_id r,
     pr_kind = word_of_int (ob_kind r), pr_body = ob_body r, pr_attempts = word_of_int (ob_attempts r)\<rparr>"

text \<open>The types the queue declares for a message it hands out.\<close>

definition pending_typed :: "pending_row \<Rightarrow> bool" where
  "pending_typed m \<longleftrightarrow> length (pr_msg_id m) = 16 \<and> opt_len 32 (pr_recipient m) \<and> opt_len 32 (pr_group_id m)
     \<and> (\<exists>k. pr_kind m = kind_u8 k)"

text \<open>A message failing \<open>n\<close> times in a row, at the given clocks and with the given random bytes.\<close>

fun fail_run :: "db \<Rightarrow> msg_id \<Rightarrow> retry_policy \<Rightarrow> (u64 \<times> bytes) list \<Rightarrow> (bool result list \<times> db) option" where
  "fail_run d i p [] = Some ([], d)"
| "fail_run d i p ((now, rnd) # xs) = do {
     (r, d') \<leftarrow> fail_and_reschedule (\<lambda>_. None) (Inr rnd) d i p now;
     (rs, d'') \<leftarrow> fail_run d' i p xs;
     Some (r # rs, d'')
   }"

text \<open>Calls on the table of delivered ids as steps of a replay guard; a prune accepts nothing.\<close>

datatype seen_op = Rec msg_id u64 | Prune u64

fun seen_step :: "db \<Rightarrow> seen_op \<Rightarrow> bool \<times> db" where
  "seen_step d (Rec i now) = (let (r, d') = record_seen (\<lambda>_. None) d i now in (r = Inr True, d'))"
| "seen_step d (Prune b) = (False, snd (prune_seen (\<lambda>_. None) d b))"

fun seen_key :: "seen_op \<Rightarrow> msg_id" where
  "seen_key (Rec i now) = i"
| "seen_key (Prune b) = []"

definition seen_held :: "db \<Rightarrow> msg_id \<Rightarrow> bool" where
  "seen_held d i \<longleftrightarrow> hm_contains (db_inbox_seen d) i"

fun seen_keeps :: "db \<Rightarrow> seen_op \<Rightarrow> msg_id \<Rightarrow> bool" where
  "seen_keeps d (Rec i now) k = True"
| "seen_keeps d (Prune b) k = (\<forall>t. hm_get (db_inbox_seen d) k = Some t \<longrightarrow> u64_as_i64 b \<le> t)"

text \<open>A concrete message, used to instantiate the theorems.\<close>

definition demo_message :: "u64 \<Rightarrow> envelope" where
  "demo_message t = \<lparr>env_msg_id = replicate 16 1, env_sender = replicate 32 3, env_recipient = Some (replicate 32 4),
     env_group = None, env_kind = Text, env_body = [7], env_sent_at_ms = t, env_ttl_hops = 6\<rparr>"

text \<open>The shape of a successful write to the outbox: an insertion, or an update of one message's row.\<close>

definition outbox_write :: "db \<Rightarrow> db \<Rightarrow> bool" where
  "outbox_write d d' \<longleftrightarrow> (\<exists>e. wf_envelope e
      \<and> d' = d\<lparr>db_outbox := snd (insert_or_ignore ob_msg_id (env_row e) (db_outbox d))\<rparr>)
    \<or> (\<exists>i u. (\<forall>r. row_content (u r) = row_content r) \<and> (\<forall>r. row_ok r \<longrightarrow> row_ok (u r))
      \<and> d' = d\<lparr>db_outbox := update_where (\<lambda>r. ob_msg_id r = i) u (db_outbox d)\<rparr>)"

section \<open>Bounds on stored values\<close>

lemma i64_consts [machine_simps]: "i64_max = 9223372036854775807" "i64_min = - 9223372036854775808"
  by (simp_all add: i64_max_def i64_min_def)

lemma clamp_ms_bounds [simp]: "0 \<le> clamp_ms v" "clamp_ms v \<le> i64_max"
  by (auto simp: clamp_ms_def machine_simps)

lemma clamp_ms_min: "clamp_ms v = min (uint v) i64_max"
  by (simp add: clamp_ms_def)

lemma word_of_int_uint32: "0 \<le> x \<Longrightarrow> x < 2 ^ 32 \<Longrightarrow> uint (word_of_int x :: u32) = x"
  by (simp add: word_of_int_inverse take_bit_int_eq_self)

section \<open>The invariant\<close>

lemma row_to_pending_ok: "row_ok r \<Longrightarrow> row_to_pending r = Inr (to_pending r)"
  by (auto simp: row_ok_def row_to_pending_def to_pending_def opt_blob_def opt_len_def blob_def
      split: option.splits)

lemma env_row_ok: "wf_envelope e \<Longrightarrow> row_ok (env_row e)"
  by (simp add: wf_envelope_def row_ok_def env_row_def) (simp add: machine_simps)

lemma update_row_ok:
  assumes "\<forall>r \<in> set rows. row_ok r" and "\<And>r. row_ok r \<Longrightarrow> row_ok (u r)"
  shows "\<forall>r \<in> set (update_where P u rows). row_ok r"
  using assms by (auto simp: update_where_set)

lemma fail_cases:
  assumes "fail_and_reschedule f rng d i p now = Some (res, d')"
  obtains (unchanged) "d' = d" and "isl res"
  | (written) r a where "find (\<lambda>r. ob_msg_id r = i) (db_outbox d) = Some r"
    and "chk_add (word_of_int (ob_attempts r) :: u32) 1 = Some a"
    and "res = Inr (exhausted p a)"
    and "exhausted p a \<Longrightarrow> d' = d\<lparr>db_outbox := update_where (\<lambda>r. ob_msg_id r = i)
      (\<lambda>r. r\<lparr>ob_state := ''dead'', ob_attempts := uint a\<rparr>) (db_outbox d)\<rparr>"
    and "\<not> exhausted p a \<Longrightarrow> \<exists>dl. next_delay_ms p a rng = Some (Inr dl) \<and>
      d' = d\<lparr>db_outbox := update_where (\<lambda>r. ob_msg_id r = i)
      (\<lambda>r. r\<lparr>ob_attempts := uint a, ob_next_attempt_ms := clamp_ms (sat_add now dl)\<rparr>) (db_outbox d)\<rparr>"
  using assms
  by (auto simp: fail_and_reschedule_def Let_def split: option.splits if_splits Option.bind_splits sum.splits)

lemma db_apply_write:
  assumes "op_wf op"
  shows "db_apply f op d = d \<or> outbox_write d (db_apply f op d)
    \<or> (\<exists>i t. op = RecordSeen i t \<or> op = PruneSeen t)"
proof (cases op)
  case (Enqueue e)
  then show ?thesis using assms by (auto simp: enqueue_def outbox_write_def split: option.split)
next
  case (MarkSent i)
  have "outbox_write d (d\<lparr>db_outbox := update_where (\<lambda>r. ob_msg_id r = i) (\<lambda>r. r\<lparr>ob_state := ''sent''\<rparr>) (db_outbox d)\<rparr>)"
    unfolding outbox_write_def
    by (intro disjI2 exI [of _ i] exI [of _ "\<lambda>r. r\<lparr>ob_state := ''sent''\<rparr>"]) (simp add: row_content_def row_ok_def)
  then show ?thesis by (simp add: MarkSent mark_sent_def split: option.split)
next
  case (Revive i)
  let ?u = "\<lambda>r. r\<lparr>ob_state := ''pending'', ob_attempts := 0, ob_next_attempt_ms := 0\<rparr>"
  have "outbox_write d (d\<lparr>db_outbox := update_where (\<lambda>r. ob_msg_id r = i) ?u (db_outbox d)\<rparr>)"
    unfolding outbox_write_def
    by (intro disjI2 exI [of _ i] exI [of _ ?u]) (simp add: row_content_def row_ok_def machine_simps)
  then show ?thesis by (simp add: Revive revive_def split: option.split)
next
  case (Fail i p now rng)
  have dead: "outbox_write d (d\<lparr>db_outbox := update_where (\<lambda>r. ob_msg_id r = i)
      (\<lambda>r. r\<lparr>ob_state := ''dead'', ob_attempts := uint a\<rparr>) (db_outbox d)\<rparr>)" for a :: u32
    unfolding outbox_write_def
    by (intro disjI2 exI [of _ i] exI [of _ "\<lambda>r. r\<lparr>ob_state := ''dead'', ob_attempts := uint a\<rparr>"])
      (use uint_lt2p [of a] in \<open>simp add: row_content_def row_ok_def\<close>)
  have again: "outbox_write d (d\<lparr>db_outbox := update_where (\<lambda>r. ob_msg_id r = i)
      (\<lambda>r. r\<lparr>ob_attempts := uint a, ob_next_attempt_ms := clamp_ms n\<rparr>) (db_outbox d)\<rparr>)" for a :: u32 and n
    unfolding outbox_write_def
    by (intro disjI2 exI [of _ i] exI [of _ "\<lambda>r. r\<lparr>ob_attempts := uint a, ob_next_attempt_ms := clamp_ms n\<rparr>"])
      (use uint_lt2p [of a] in \<open>simp add: row_content_def row_ok_def\<close>)
  show ?thesis
  proof (cases "fail_and_reschedule f rng d i p now")
    case (Some x)
    obtain res d' where x: "x = (res, d')" by fastforce
    from Some have "fail_and_reschedule f rng d i p now = Some (res, d')" by (simp add: x)
    then have "d' = d \<or> outbox_write d d'"
    proof (cases rule: fail_cases)
      case (written r a)
      then show ?thesis using dead again by (cases "exhausted p a") auto
    qed simp
    then show ?thesis by (auto simp: Fail Some x)
  qed (simp add: Fail)
qed simp_all

lemma outbox_write_inv:
  assumes "db_inv d" and "outbox_write d d'"
  shows "db_inv d' \<and> row_content ` set (db_outbox d) \<subseteq> row_content ` set (db_outbox d')"
  using assms(2) unfolding outbox_write_def
proof (elim disjE exE conjE)
  fix e assume "wf_envelope e"
    and "d' = d\<lparr>db_outbox := snd (insert_or_ignore ob_msg_id (env_row e) (db_outbox d))\<rparr>"
  then show ?thesis
    using assms(1) env_row_ok insert_or_ignore_distinct [of ob_msg_id "db_outbox d" "env_row e"]
    by (auto simp: db_inv_def insert_or_ignore_def)
next
  fix i and u :: "out_row \<Rightarrow> out_row"
  assume u: "\<forall>r. row_content (u r) = row_content r" "\<forall>r. row_ok r \<longrightarrow> row_ok (u r)"
    and d': "d' = d\<lparr>db_outbox := update_where (\<lambda>r. ob_msg_id r = i) u (db_outbox d)\<rparr>"
  have "map ob_msg_id (db_outbox d') = map ob_msg_id (db_outbox d)"
    unfolding d' using u(1) by (simp add: update_where_keys row_content_def)
  moreover have "map row_content (db_outbox d') = map row_content (db_outbox d)"
    unfolding d' using u(1) by (simp add: update_where_keys)
  ultimately show ?thesis
    using assms(1) update_row_ok [of "db_outbox d" u] u(2)
    by (auto simp: db_inv_def d' dest!: arg_cong [where f = set])
qed

lemma seen_apply_inv:
  assumes "db_inv d"
  shows "db_inv (snd (record_seen f d i now))" and "db_inv (snd (prune_seen f d b))"
  using assms hm_values_insert [of i "clamp_ms now" "db_inbox_seen d"]
    hm_values_retain [of "\<lambda>_ seen. \<not> seen < u64_as_i64 b" "db_inbox_seen d"]
  by (auto simp: db_inv_def record_seen_def prune_seen_def Let_def hm.wf_ins hm.wf_keep split: option.split)

lemma db_apply_inv:
  assumes "db_inv d" and "op_wf op"
  shows "db_inv (db_apply f op d) \<and> row_content ` set (db_outbox d) \<subseteq> row_content ` set (db_outbox (db_apply f op d))"
proof (cases "\<exists>i t. op = RecordSeen i t \<or> op = PruneSeen t")
  case True
  then show ?thesis
    using seen_apply_inv [OF assms(1)]
    by (auto simp: record_seen_def prune_seen_def Let_def split: option.split)
next
  case False
  then have "db_apply f op d = d \<or> outbox_write d (db_apply f op d)"
    using db_apply_write [OF assms(2), of f d] by blast
  then show ?thesis using outbox_write_inv [OF assms(1)] assms(1) by auto
qed

lemma db_empty_inv: "db_inv db_empty"
  by (simp add: db_inv_def db_empty_def hm_values_def)

lemma db_reach_inv: "db_reach d \<Longrightarrow> db_inv d"
  by (induction rule: db_reach.induct) (auto simp: db_empty_inv elim!: db_stepE dest: db_apply_inv)

section \<open>Properties of the outbox\<close>

text \<open>
  C7. No message is lost or altered: in every database reached by the operations, with arbitrary
  database failures, message ids are unique, every row is well formed (so that reading it back never
  fails), and a further operation keeps every row's id, addressees, kind, body and creation time.
\<close>

theorem outbox_never_loses_a_message:
  assumes "db_reach d" and "op_wf op"
  shows "distinct (map ob_msg_id (db_outbox d)) \<and> (\<forall>r \<in> set (db_outbox d). row_to_pending r = Inr (to_pending r))
    \<and> row_content ` set (db_outbox d) \<subseteq> row_content ` set (db_outbox (db_apply f op d))"
  using db_reach_inv [OF assms(1)] db_apply_inv [OF _ assms(2), of d f]
  by (auto simp: db_inv_def row_to_pending_ok)

theorem outbox_never_loses_a_message_witness:
  "\<exists>r \<in> set (db_outbox (db_apply (\<lambda>_. None) (MarkSent (replicate 16 0))
      (db_apply (\<lambda>_. None) (Enqueue (demo_message 5)) db_empty))). row_content r = row_content (env_row (demo_message 5))"
proof -
  have wf: "op_wf (Enqueue (demo_message 5))"
    by (simp add: demo_message_def wf_envelope_def opt_len_def)
  let ?d = "db_apply (\<lambda>_. None) (Enqueue (demo_message 5)) db_empty"
  have "db_reach ?d" by (rule next_db [OF init step [OF wf]])
  then have "row_content ` set (db_outbox ?d)
      \<subseteq> row_content ` set (db_outbox (db_apply (\<lambda>_. None) (MarkSent (replicate 16 0)) ?d))"
    using outbox_never_loses_a_message [of ?d "MarkSent (replicate 16 0)" "\<lambda>_. None"] by simp
  moreover have "env_row (demo_message 5) \<in> set (db_outbox ?d)"
    by (simp add: enqueue_def insert_or_ignore_def db_empty_def)
  ultimately have "row_content (env_row (demo_message 5))
      \<in> row_content ` set (db_outbox (db_apply (\<lambda>_. None) (MarkSent (replicate 16 0)) ?d))"
    by (meson imageI subsetD)
  then show ?thesis unfolding image_iff by (simp only: eq_commute)
qed

lemma select_rows_ok:
  assumes "db_inv d" and "\<And>rows. set (ord rows) = set rows"
  shows "select_rows shw ord (\<lambda>_. None) P limit d
    = Inr (map to_pending (take (unat limit) (ord (filter P (db_outbox d)))))"
proof -
  have "collect row_to_pending (take (unat limit) (ord (filter P (db_outbox d))))
    = Inr (map to_pending (take (unat limit) (ord (filter P (db_outbox d)))))"
    using assms by (intro collect_Inr_map) (auto simp: db_inv_def row_to_pending_ok dest!: in_set_takeD)
  then show ?thesis by (simp add: select_rows_def)
qed

lemma sorted_take_le:
  assumes "sorted (map f xs)" and "x \<in> set xs" and "x \<notin> set (take n xs)" and "q \<in> set (take n xs)"
  shows "f q \<le> f x"
proof -
  have "set xs = set (take n xs) \<union> set (drop n xs)" by (metis append_take_drop_id set_append)
  then have "x \<in> set (drop n xs)" using assms(2,3) by blast
  moreover have "sorted (map f (take n xs) @ map f (drop n xs))" using assms(1) by (simp flip: map_append)
  ultimately show ?thesis using assms(4) by (auto simp: sorted_append)
qed

text \<open>
  C24. What is due: on every reachable database, if the database calls succeed and the clock is below
  $2^{63}$, \<^verbatim>\<open>due\<close> returns the first \<open>limit\<close> pending messages whose next attempt time has come, in order
  of creation, each once: a due message that is left out was created no earlier than any that is
  returned. With room for all of them it returns exactly those, and nothing else is ever returned.
\<close>

theorem due_returns_exactly_the_due:
  assumes "db_reach d" and "order_by_ok ob_created_ms ord" and "unat now < 2 ^ 63"
  shows "\<exists>rows. due shw ord (\<lambda>_. None) d now limit = Inr (map to_pending rows)
    \<and> sorted (map ob_created_ms rows) \<and> length rows = min (unat limit)
        (length (filter (\<lambda>r. ob_state r = ''pending'' \<and> ob_next_attempt_ms r \<le> uint now) (db_outbox d)))
    \<and> set rows \<subseteq> {r \<in> set (db_outbox d). ob_state r = ''pending'' \<and> ob_next_attempt_ms r \<le> uint now}
    \<and> distinct (map ob_msg_id rows)
    \<and> (\<forall>r \<in> set (db_outbox d). ob_state r = ''pending'' \<and> ob_next_attempt_ms r \<le> uint now \<and> r \<notin> set rows
         \<longrightarrow> (\<forall>q \<in> set rows. ob_created_ms q \<le> ob_created_ms r))
    \<and> (length (db_outbox d) \<le> unat limit \<longrightarrow>
        set rows = {r \<in> set (db_outbox d). ob_state r = ''pending'' \<and> ob_next_attempt_ms r \<le> uint now})"
proof -
  let ?P = "\<lambda>r. ob_state r = ''pending'' \<and> ob_next_attempt_ms r \<le> uint now"
  let ?all = "ord (filter ?P (db_outbox d))"
  have "uint now < 2 ^ 63" using assms(3) by (metis of_nat_less_iff of_nat_numeral of_nat_power uint_nat)
  then have now: "u64_as_i64 now = uint now" by (simp add: u64_as_i64_def)
  have sets: "set (ord rows) = set rows" and len: "length (ord rows) = length rows" for rows
    using order_by_set order_by_length assms(2) by blast+
  have "sorted (map ob_created_ms ?all)" using assms(2) by (simp add: order_by_ok_def)
  then have "sorted (map ob_created_ms (take (unat limit) ?all))"
    by (simp add: take_map [symmetric] sorted_wrt_take)
  moreover have "distinct (map ob_msg_id (take (unat limit) ?all))"
  proof -
    have ms: "mset (map ob_msg_id ?all) = mset (map ob_msg_id (filter ?P (db_outbox d)))"
      using assms(2) by (simp add: order_by_ok_def)
    have "distinct (map ob_msg_id (filter ?P (db_outbox d)))"
      using db_reach_inv [OF assms(1)] by (simp add: db_inv_def distinct_map_filter)
    then have "distinct (map ob_msg_id ?all)" unfolding mset_eq_imp_distinct_iff [OF ms] .
    then show ?thesis unfolding take_map [symmetric] by (rule distinct_take)
  qed
  moreover have "ob_created_ms q \<le> ob_created_ms r"
    if "r \<in> set (db_outbox d)" "?P r" "r \<notin> set (take (unat limit) ?all)" "q \<in> set (take (unat limit) ?all)" for q r
  proof -
    have "r \<in> set ?all" using that(1,2) sets by simp
    with \<open>sorted (map ob_created_ms ?all)\<close> show ?thesis using that(3,4) by (rule sorted_take_le)
  qed
  moreover have "due shw ord (\<lambda>_. None) d now limit = Inr (map to_pending (take (unat limit) ?all))"
    using select_rows_ok [OF db_reach_inv [OF assms(1)], of ord shw ?P limit] sets by (simp add: due_def now)
  moreover have "length (db_outbox d) \<le> unat limit \<Longrightarrow> take (unat limit) ?all = ?all"
    using len [of "filter ?P (db_outbox d)"] by (simp add: le_trans [OF length_filter_le])
  ultimately show ?thesis
    using sets len by (intro exI [of _ "take (unat limit) ?all"]) (auto dest!: in_set_takeD simp: min.commute)
qed

lemma order_sort: "order_by_ok ob_created_ms (sort_key ob_created_ms)"
  by (simp add: order_by_ok_def)

lemma demo_reach: "db_reach (db_apply (\<lambda>_. None) (Enqueue (demo_message t)) db_empty)"
  by (rule next_db [OF init step]) (simp add: demo_message_def wf_envelope_def opt_len_def)

lemma demo_outbox: "db_outbox (db_apply (\<lambda>_. None) (Enqueue (demo_message t)) db_empty) = [env_row (demo_message t)]"
  by (simp add: enqueue_def insert_or_ignore_def db_empty_def)

theorem due_returns_exactly_the_due_witness:
  "\<exists>rows. due (\<lambda>_. []) (sort_key ob_created_ms) (\<lambda>_. None)
      (db_apply (\<lambda>_. None) (Enqueue (demo_message 5)) db_empty) 9 4 = Inr (map to_pending rows)
    \<and> set rows = {env_row (demo_message 5)}"
proof -
  have "unat (9 :: u64) < 2 ^ 63" by simp
  from due_returns_exactly_the_due [OF demo_reach [of 5] order_sort this, of "\<lambda>_. []" 4]
  obtain rows where "due (\<lambda>_. []) (sort_key ob_created_ms) (\<lambda>_. None)
      (db_apply (\<lambda>_. None) (Enqueue (demo_message 5)) db_empty) 9 4 = Inr (map to_pending rows)"
    and "set rows = {r \<in> {env_row (demo_message 5)}. ob_state r = ''pending'' \<and> ob_next_attempt_ms r \<le> uint (9 :: u64)}"
    unfolding demo_outbox by auto
  moreover have "ob_state (env_row (demo_message 5)) = ''pending''" "ob_next_attempt_ms (env_row (demo_message 5)) = 0"
    by (simp_all add: env_row_def)
  ultimately show ?thesis by auto
qed

lemma stored_kind: "db_reach d \<Longrightarrow> r \<in> set (db_outbox d) \<Longrightarrow> \<exists>k. ob_kind r = uint (kind_u8 k)"
proof (induction arbitrary: r rule: db_reach.induct)
  case init
  then show ?case by (simp add: db_empty_def)
next
  case (next_db d d')
  obtain f op where op: "op_wf op" "d' = db_apply f op d" using next_db.hyps(2) by (auto elim: db_stepE)
  consider "db_outbox d' = db_outbox d" | "outbox_write d d'"
    using db_apply_write [OF op(1), of f d] unfolding op(2)
    by (auto simp: record_seen_def prune_seen_def Let_def split: option.splits if_splits)
  then show ?case
  proof cases
    case 2
    have "\<exists>k. ob_kind (env_row e) = uint (kind_u8 k)" for e by (auto simp: env_row_def)
    moreover have "ob_kind (u r) = ob_kind r" if "row_content (u r) = row_content r" for u and r :: out_row
      using that by (simp add: row_content_def)
    ultimately show ?thesis
      using 2 next_db.IH next_db.prems
      by (fastforce simp: outbox_write_def insert_or_ignore_def update_where_set split: if_splits)
  qed (use next_db in simp)
qed

text \<open>What a read returns: an error of the database library, or values of the declared types.\<close>

lemma select_rows_typed:
  assumes "db_reach d" and "order_by_ok ob_created_ms ord"
  shows "case select_rows shw ord f P limit d of
      Inl e \<Rightarrow> \<exists>k < 3. \<exists>x. f k = Some x \<and> e = Db x
    | Inr ms \<Rightarrow> \<forall>m \<in> set ms. pending_typed m \<and> (\<exists>r \<in> set (db_outbox d). ob_msg_id r = pr_msg_id m \<and> ob_attempts r = uint (pr_attempts m))"
proof (cases "f 0 = None \<and> f 1 = None \<and> f 2 = None")
  case True
  have sets: "set (ord rows) = set rows" for rows using order_by_set [OF assms(2)] .
  have inv: "db_inv d" by (rule db_reach_inv [OF assms(1)])
  have "select_rows shw ord f P limit d = Inr (map to_pending (take (unat limit) (ord (filter P (db_outbox d)))))"
    using select_rows_ok [OF inv sets, of shw P limit] True by (simp add: select_rows_def)
  moreover have "pending_typed (to_pending r) \<and> ob_attempts r = uint (pr_attempts (to_pending r))" if r: "r \<in> set (db_outbox d)" for r
  proof -
    obtain k where k: "ob_kind r = uint (kind_u8 k)" using stored_kind [OF assms(1) r] by blast
    have ok: "row_ok r" using inv r by (simp add: db_inv_def)
    have "uint (word_of_int (ob_attempts r) :: u32) = ob_attempts r" using ok by (intro word_of_int_uint32) (simp_all add: row_ok_def)
    then show ?thesis using ok k by (auto simp: pending_typed_def to_pending_def row_ok_def)
  qed
  ultimately show ?thesis using sets by (auto dest!: in_set_takeD simp: to_pending_def)
next
  case False
  then show ?thesis
    by (force simp: select_rows_def guard_fault_def split: option.splits)
qed

text \<open>
  C8. Types are kept: on every reachable database the reads of the outbox never fail on the type, the length
  or the range of a stored value. An error is one of the database library; what is returned has ids of
  16 bytes, addressees of 32, a kind the protocol defines, and the stored attempt counter without truncation.
\<close>

theorem stored_messages_are_well_typed:
  assumes "db_reach d" and "order_by_ok ob_created_ms ord" and "res \<in> {pending shw ord f d limit, due shw ord f d now limit}"
  shows "case res of
      Inl e \<Rightarrow> \<exists>k < 3. \<exists>x. f k = Some x \<and> e = Db x
    | Inr ms \<Rightarrow> \<forall>m \<in> set ms. pending_typed m \<and> (\<exists>r \<in> set (db_outbox d). ob_msg_id r = pr_msg_id m \<and> ob_attempts r = uint (pr_attempts m))"
  using assms(3) select_rows_typed [OF assms(1,2)] unfolding pending_def due_def by blast

theorem stored_messages_are_well_typed_witness:
  "\<exists>ms. pending (\<lambda>_. []) (sort_key ob_created_ms) (\<lambda>_. None) (db_apply (\<lambda>_. None) (Enqueue (demo_message 5)) db_empty) 4 = Inr ms
    \<and> (\<forall>m \<in> set ms. pending_typed m)"
  using stored_messages_are_well_typed [OF demo_reach [of 5] order_sort insertI1, where f = "\<lambda>_. None" and shw = "\<lambda>_. []" and limit = 4]
  by (auto split: sum.splits)

text \<open>
  The clock in the queries is not clamped: for readings of $2^{63}$ ms and above, \<^verbatim>\<open>due\<close> returns no
  message of any reachable database and \<^verbatim>\<open>prune_seen\<close> removes nothing, since the cast makes them
  negative, while the stored times are clamped to be non-negative.
\<close>

theorem huge_clock_disables_due_and_prune:
  assumes "db_reach d" and "2 ^ 63 \<le> unat now" and "order_by_ok ob_created_ms ord"
  shows "due shw ord (\<lambda>_. None) d now limit = Inr [] \<and> prune_seen (\<lambda>_. None) d now = (Inr 0, d)"
proof -
  have inv: "db_inv d" by (rule db_reach_inv [OF assms(1)])
  have "2 ^ 63 \<le> uint now" using assms(2) by (metis of_nat_le_iff of_nat_numeral of_nat_power uint_nat)
  then have neg: "u64_as_i64 now < 0"
    using uint_lt2p [of now] by (simp add: u64_as_i64_def)
  have sets: "set (ord rows) = set rows" for rows using order_by_set [OF assms(3)] .
  then have nil: "ord [] = []" by (metis set_empty)
  have "filter (\<lambda>r. ob_state r = ''pending'' \<and> ob_next_attempt_ms r \<le> u64_as_i64 now) (db_outbox d) = []"
    using inv neg by (auto simp: filter_empty_conv db_inv_def row_ok_def)
  then have "due shw ord (\<lambda>_. None) d now limit = Inr []"
    using select_rows_ok [OF inv, of ord] sets nil by (simp add: due_def)
  moreover have "hm_retain (\<lambda>_ seen. \<not> seen < u64_as_i64 now) (db_inbox_seen d) = db_inbox_seen d"
    unfolding hm_retain_def using inv neg
    by (intro filter_True) (force simp: db_inv_def hm_values_def)
  ultimately show ?thesis by (simp add: prune_seen_def)
qed

theorem huge_clock_disables_due_and_prune_witness:
  "due (\<lambda>_. []) (sort_key ob_created_ms) (\<lambda>_. None)
      (db_apply (\<lambda>_. None) (Enqueue (demo_message 5)) db_empty) (- 1) 4 = Inr []"
  using huge_clock_disables_due_and_prune [OF demo_reach [of 5] _ order_sort, of "- 1" "\<lambda>_. []" 4]
  by (simp add: unat_neg1)

text \<open>
  Enqueue and read back: after a successful enqueue of a new message, reading the pending messages
  (with room for all of them) gives it with its id, addressees, kind and body unchanged and no attempts;
  enqueuing a message with an id already stored changes nothing, so the first content wins.
\<close>

theorem enqueue_read_back:
  assumes "db_reach d" and "wf_envelope e" and "order_by_ok ob_created_ms ord"
    and "enqueue (\<lambda>_. None) d e = (res, d')" and "length (db_outbox d') \<le> unat limit"
  shows "(if env_msg_id e \<in> ob_msg_id ` set (db_outbox d) then d' = d
     else \<exists>rows. pending shw ord (\<lambda>_. None) d' limit = Inr rows
       \<and> \<lparr>pr_msg_id = env_msg_id e, pr_recipient = env_recipient e, pr_group_id = env_group e,
          pr_kind = kind_u8 (env_kind e), pr_body = env_body e, pr_attempts = 0\<rparr> \<in> set rows)"
proof -
  have d': "d' = db_apply (\<lambda>_. None) (Enqueue e) d" using assms(4) by simp
  have inv: "db_inv d'"
    using db_apply_inv [OF db_reach_inv [OF assms(1)], of "Enqueue e" "\<lambda>_. None"] assms(2) by (simp add: d')
  let ?rows = "ord (filter (\<lambda>r. ob_state r = ''pending'') (db_outbox d'))"
  have sets: "set (ord rows) = set rows" for rows using order_by_set [OF assms(3)] .
  have "length ?rows \<le> unat limit"
    using assms(5) order_by_length [OF assms(3)] by (simp add: le_trans [OF length_filter_le])
  then have read: "pending shw ord (\<lambda>_. None) d' limit = Inr (map to_pending ?rows)"
    using select_rows_ok [OF inv, of ord shw _ limit] sets by (simp add: pending_def)
  show ?thesis
  proof (cases "env_msg_id e \<in> ob_msg_id ` set (db_outbox d)")
    case True
    then show ?thesis by (simp add: d' enqueue_def insert_or_ignore_def env_row_def)
  next
    case False
    then have "env_row e \<in> set ?rows"
      by (simp add: sets d' enqueue_def insert_or_ignore_def) (simp add: env_row_def)
    then have "to_pending (env_row e) \<in> set (map to_pending ?rows)" by simp
    then show ?thesis using False read by (simp add: to_pending_def env_row_def)
  qed
qed

theorem enqueue_read_back_witness:
  "\<exists>rows. pending (\<lambda>_. []) (sort_key ob_created_ms) (\<lambda>_. None) (snd (enqueue (\<lambda>_. None) db_empty (demo_message 5))) 4
      = Inr rows \<and> \<lparr>pr_msg_id = replicate 16 1, pr_recipient = Some (replicate 32 4), pr_group_id = None, pr_kind = 1,
        pr_body = [7], pr_attempts = 0\<rparr> \<in> set rows"
proof -
  have wf: "wf_envelope (demo_message 5)" by (simp add: demo_message_def wf_envelope_def opt_len_def)
  have "enqueue (\<lambda>_. None) db_empty (demo_message 5) = (Inr (), snd (enqueue (\<lambda>_. None) db_empty (demo_message 5)))"
    by (simp add: enqueue_def)
  moreover have sel: "env_msg_id (demo_message 5) = replicate 16 1" "env_recipient (demo_message 5) = Some (replicate 32 4)"
    "env_group (demo_message 5) = None" "env_kind (demo_message 5) = Text" "env_body (demo_message 5) = [7]"
    "db_outbox db_empty = []"
    by (simp_all add: demo_message_def db_empty_def)
  ultimately show ?thesis
    using enqueue_read_back [OF init wf order_sort, of "Inr ()" _ 4 "\<lambda>_. []"] demo_outbox [of 5]
    by (simp add: sel)
qed

section \<open>The retry schedule\<close>

lemma fail_step:
  assumes "find (\<lambda>r. ob_msg_id r = i) (db_outbox d) = Some r" and "ob_attempts r = int k" and "Suc k < 2 ^ 32"
  shows "\<exists>d' r'. fail_and_reschedule (\<lambda>_. None) (Inr rnd) d i p now = Some (Inr (unat (rp_max_attempts p) \<le> Suc k), d')
    \<and> (\<forall>j. find (\<lambda>r. ob_msg_id r = j) (db_outbox d')
          = (if j = i then Some r' else find (\<lambda>r. ob_msg_id r = j) (db_outbox d)))
    \<and> ob_attempts r' = int (Suc k)
    \<and> (if unat (rp_max_attempts p) \<le> Suc k then ob_state r' = ''dead''
       else ob_state r' = ob_state r
         \<and> min (int (unat now + unat (rp_base_delay_ms p))) i64_max \<le> ob_next_attempt_ms r'
         \<and> ob_next_attempt_ms r' \<le> int (unat now + unat (delay_cap p (word_of_nat (Suc k)))))"
proof -
  let ?a = "word_of_nat (Suc k) :: u32"
  have conv: "word_of_int (ob_attempts r) = (word_of_nat k :: u32)" by (simp add: assms(2))
  have unat_a: "unat ?a = Suc k" and unat_k: "unat (word_of_nat k :: u32) = k"
    using assms(3) unat_of_nat_small [of k, where 'a = 32] unat_of_nat_small [of "Suc k", where 'a = 32] by auto
  have chk: "chk_add (word_of_int (ob_attempts r) :: u32) 1 = Some ?a"
  proof -
    have "k + unat (1 :: u32) < 2 ^ LENGTH(32)" using assms(3) by simp
    then show ?thesis unfolding conv chk_add_def unat_k by (simp only: if_True of_nat_Suc add.commute)
  qed
  have uint_a: "uint ?a = int (Suc k)" using unat_a by (simp only: uint_nat)
  have ex: "exhausted p ?a \<longleftrightarrow> unat (rp_max_attempts p) \<le> Suc k"
    unfolding exhausted_def word_le_nat_alt unat_a ..
  show ?thesis
  proof (cases "exhausted p ?a")
    case True
    then show ?thesis
      using ex assms(1) chk uint_a
      by (simp add: fail_and_reschedule_def find_update_where option.map_ident)
  next
    case False
    have "?a \<noteq> 0" using unat_a by (metis unat_0 nat.distinct(1))
    then obtain dl where dl: "next_delay_ms p ?a (Inr rnd) = Some (Inr dl)"
      "unat (rp_base_delay_ms p) \<le> unat dl" "unat dl \<le> unat (delay_cap p ?a)"
      using next_delay_value [of ?a p "Inr rnd" rnd] False by (auto simp: exhausted_def not_le)
    let ?n = "clamp_ms (sat_add now dl)"
    have n: "?n = min (int (unat now + unat dl)) i64_max"
    proof -
      have "min (int (min (2 ^ LENGTH(64) - 1) m)) i64_max = min (int m) i64_max" for m
        by (simp add: machine_simps min_def)
      then show ?thesis unfolding clamp_ms_min uint_nat unat_sat_add .
    qed
    have "min (int (unat now + unat (rp_base_delay_ms p))) i64_max \<le> ?n \<and> ?n \<le> int (unat now + unat (delay_cap p ?a))"
    proof -
      have "min (int (a + b)) m \<le> min (int (a + c)) m \<and> min (int (a + c)) m \<le> int (a + e)"
        if "b \<le> c" "c \<le> e" for a b c e m using that by (auto simp: min_def)
      from this [OF dl(2,3)] show ?thesis unfolding n .
    qed
    then show ?thesis
      using False ex assms(1) chk uint_a dl(1)
      by (simp add: fail_and_reschedule_def find_update_where option.map_ident)
  qed
qed

text \<open>
  C23. The life of a message that keeps failing: starting from a pending message without attempts and a
  policy of \<open>m\<close> attempts, the first \<open>m - 1\<close> failures each report that the message stays queued and count
  one attempt; the \<open>m\<close>-th reports and stores that it is dead. No failure is lost and none is counted
  twice, whatever the clocks and the random bytes.
\<close>

theorem failing_message_dies_at_the_limit:
  assumes "find (\<lambda>r. ob_msg_id r = i) (db_outbox d) = Some r" and "ob_state r = ''pending''"
    and "ob_attempts r = int k" and "k + length xs \<le> unat (rp_max_attempts p)"
  shows "\<exists>d' r'. fail_run d i p xs
      = Some (map (\<lambda>j. Inr (unat (rp_max_attempts p) \<le> j)) [Suc k..<Suc (k + length xs)], d')
    \<and> find (\<lambda>r. ob_msg_id r = i) (db_outbox d') = Some r' \<and> ob_attempts r' = int (k + length xs)
    \<and> ob_state r' = (if xs \<noteq> [] \<and> k + length xs = unat (rp_max_attempts p) then ''dead'' else ''pending'')"
  using assms
proof (induction xs arbitrary: d r k)
  case Nil
  then show ?case by simp
next
  case (Cons x xs)
  obtain now rnd where x: "x = (now, rnd)" by fastforce
  let ?m = "unat (rp_max_attempts p)"
  have "?m < 2 ^ 32" using unat_bound [of "rp_max_attempts p"] by simp
  then have small: "Suc k < 2 ^ 32" using Cons.prems(4) by simp
  obtain d1 r1 where d1: "fail_and_reschedule (\<lambda>_. None) (Inr rnd) d i p now = Some (Inr (?m \<le> Suc k), d1)"
    "find (\<lambda>r. ob_msg_id r = i) (db_outbox d1) = Some r1" "ob_attempts r1 = int (Suc k)"
    "if ?m \<le> Suc k then ob_state r1 = ''dead'' else ob_state r1 = ob_state r"
    using fail_step [OF Cons.prems(1,3) small, of rnd p now] by (auto split: if_splits)
  show ?case
  proof (cases "?m \<le> Suc k")
    case True
    moreover have "Suc (k + length xs) \<le> ?m" using Cons.prems(4) by simp
    ultimately have "length xs = 0" and "?m = Suc k" by linarith+
    then show ?thesis using d1 by (simp add: x)
  next
    case False
    have "\<exists>d' r'. fail_run d1 i p xs = Some (map (\<lambda>j. Inr (?m \<le> j)) [Suc (Suc k)..<Suc (Suc k + length xs)], d')
      \<and> find (\<lambda>r. ob_msg_id r = i) (db_outbox d') = Some r' \<and> ob_attempts r' = int (Suc k + length xs)
      \<and> ob_state r' = (if xs \<noteq> [] \<and> Suc k + length xs = ?m then ''dead'' else ''pending'')"
      using False d1 Cons.prems(2,4) by (intro Cons.IH) auto
    moreover have "[Suc k..<Suc (k + length (x # xs))] = Suc k # [Suc (Suc k)..<Suc (Suc k + length xs)]"
      by (subst upt_conv_Cons) simp_all
    ultimately show ?thesis using d1(1) False by (auto simp: x)
  qed
qed

theorem failing_message_dies_at_the_limit_witness:
  "\<exists>d' r'. fail_run (snd (enqueue (\<lambda>_. None) db_empty (demo_message 5))) (replicate 16 1)
      (rp_default\<lparr>rp_max_attempts := 3\<rparr>) [(10, [1]), (20, [2]), (30, [3])] = Some ([Inr False, Inr False, Inr True], d')
    \<and> find (\<lambda>r. ob_msg_id r = replicate 16 1) (db_outbox d') = Some r' \<and> ob_state r' = ''dead''"
proof -
  have "find (\<lambda>r. ob_msg_id r = replicate 16 1) (db_outbox (snd (enqueue (\<lambda>_. None) db_empty (demo_message 5))))
      = Some (env_row (demo_message 5))"
    using demo_outbox [of 5] by (simp add: env_row_def demo_message_def)
  moreover have "ob_state (env_row (demo_message 5)) = ''pending''" "ob_attempts (env_row (demo_message 5)) = int 0"
    by (simp_all add: env_row_def)
  ultimately show ?thesis
    using failing_message_dies_at_the_limit [where xs = "[(10, [1]), (20, [2]), (30, [3])]"
        and p = "rp_default\<lparr>rp_max_attempts := 3\<rparr>" and k = 0] by (fastforce simp: upt_rec)
qed

section \<open>Delivered ids\<close>

lemma record_seen_get:
  "record_seen (\<lambda>_. None) d i now = (Inr (\<not> hm_contains (db_inbox_seen d) i),
    if hm_contains (db_inbox_seen d) i then d
    else d\<lparr>db_inbox_seen := hm_insert i (clamp_ms now) (db_inbox_seen d)\<rparr>)"
  by (simp add: record_seen_def)

interpretation sn: replay_guard seen_step seen_key seen_held db_inv seen_keeps
proof unfold_locales
  fix s :: db and x :: seen_op and k :: msg_id
  assume inv: "db_inv s"
  then have wf: "hm_wf (db_inbox_seen s)" by (simp add: db_inv_def)
  show "db_inv (snd (seen_step s x))"
    using seen_apply_inv [OF inv] by (cases x) (simp_all add: case_prod_unfold Let_def)
  show "fst (seen_step s x) \<Longrightarrow> seen_held (snd (seen_step s x)) (seen_key x)"
    by (cases x) (auto simp: record_seen_get seen_held_def hm_contains_def hm.get_ins)
  show "seen_held s (seen_key x) \<Longrightarrow> seen_keeps s x (seen_key x) \<Longrightarrow> \<not> fst (seen_step s x)"
    by (cases x) (auto simp: record_seen_get seen_held_def)
  show "seen_held s k \<Longrightarrow> seen_keeps s x k \<Longrightarrow> seen_held (snd (seen_step s x)) k"
    using wf by (cases x) (auto simp: record_seen_get seen_held_def hm_contains_def hm.get_ins
        prune_seen_def Let_def hm.get_keep split: option.splits)
qed

lemma seen_step_get:
  assumes "db_inv s" and get: "hm_get (db_inbox_seen s) i = Some t"
    and "\<And>b. x = Prune b \<Longrightarrow> u64_as_i64 b \<le> t"
  shows "seen_keeps s x i \<and> hm_get (db_inbox_seen (snd (seen_step s x))) i = Some t"
proof (cases x)
  case (Rec j now)
  then show ?thesis
    using get by (auto simp: record_seen_get hm_contains_def hm.get_ins)
next
  case (Prune b)
  have "hm_wf (db_inbox_seen s)" using assms(1) by (simp add: db_inv_def)
  then show ?thesis
    using get assms(3) [OF Prune] by (simp add: Prune prune_seen_def Let_def hm.get_keep_Some)
qed

text \<open>
  A delivered message is never delivered again until its record is pruned: after a database has
  accepted an id at time \<open>now\<close>, every later recording of the id is reported as a duplicate, through any
  sequence of recordings and prunings whose limits are not above \<open>now\<close>.
\<close>

theorem delivered_once_until_pruned:
  assumes "db_reach d" and "record_seen (\<lambda>_. None) d i now = (Inr True, d')"
    and "\<forall>b. Prune b \<in> set ops \<longrightarrow> unat b \<le> unat now" and "unat now < 2 ^ 63"
  shows "\<forall>t. Rec i t \<notin> set (accepted seen_step d' ops)"
proof -
  have inv: "db_inv d'"
    using seen_apply_inv(1) [OF db_reach_inv [OF assms(1)], of "\<lambda>_. None" i now] assms(2) by simp
  have u: "uint now < 2 ^ 63" using assms(4) by (metis of_nat_less_iff of_nat_numeral of_nat_power uint_nat)
  have get: "hm_get (db_inbox_seen d') i = Some (uint now)"
    using assms(2) u by (auto simp: record_seen_get hm.get_ins clamp_ms_def machine_simps)
  have keep: "kept seen_step seen_keeps i s ops"
    if "db_inv s" "hm_get (db_inbox_seen s) i = Some (uint now)" for s
    using that assms(3)
  proof (induction ops arbitrary: s)
    case (Cons x ops)
    have "u64_as_i64 b \<le> uint now" if "x = Prune b" for b
    proof -
      have "unat b \<le> unat now" using Cons.prems(3) that by simp
      then have "uint b \<le> uint now" by (simp only: uint_nat of_nat_le_iff)
      then show ?thesis using u by (simp add: u64_as_i64_def)
    qed
    then have "seen_keeps s x i \<and> hm_get (db_inbox_seen (snd (seen_step s x))) i = Some (uint now)"
      by (rule seen_step_get [OF Cons.prems(1,2)])
    then show ?case using Cons sn.inv_chk by simp
  qed simp
  have "i \<notin> seen_key ` set (accepted seen_step d' ops)"
    using sn.held_none_accepted [OF inv, of i ops] keep [OF inv get] get by (simp add: seen_held_def hm_contains_def)
  then show ?thesis by (metis image_eqI seen_key.simps(1))
qed

theorem delivered_once_until_pruned_witness:
  "\<forall>t. Rec [1] t \<notin> set (accepted seen_step (snd (record_seen (\<lambda>_. None) db_empty [1] 50))
     [Rec [2] 60, Prune 40, Rec [1] 70])"
proof -
  have "record_seen (\<lambda>_. None) db_empty [1] 50 = (Inr True, snd (record_seen (\<lambda>_. None) db_empty [1] 50))"
    by (simp add: record_seen_get db_empty_def hm_contains_def)
  then show ?thesis by (rule delivered_once_until_pruned [OF init]) auto
qed

text \<open>
  No unencrypted file: opening any path other than the in-memory one without a key is refused before
  anything is opened or executed; with a key, every failure of the library is reported as a database
  error, and a successful open of a file gives the tables it holds.
\<close>

theorem open_refuses_plaintext_files:
  "(case db_open conn exec disk path key of
      Inl e \<Rightarrow> (\<exists>m. e = Db m)
    | Inr d \<Rightarrow> conn = None \<and> exec QUEUE_SCHEMA = None
        \<and> (if path = '':memory:'' then d = db_empty
           else d = disk \<and> (\<exists>k. key = Some k \<and> exec (pragma_key k) = None)))"
  by (cases key; cases conn) (auto simp: db_open_def guard_fault_def try_res_def split: option.splits if_splits)

end
