(* ===== verification/Clock.thy ===== *)
theory Clock
  imports Identity "HOL-Library.Sublist"
begin

text \<open>
  \<^verbatim>\<open>crates/core/src/clock.rs\<close>: the internal clock, calibrated by pairs of network sources or by a quorum
  of verified contacts, with a high-water mark against set-back system clocks.

  \<^verbatim>\<open>i64\<close> values are integers: \<open>i64_sat\<close> marks the saturating operations of the source, \<open>i64_chk\<close> the
  plain ones, whose overflow is the value \<open>None\<close> of the operation. \<^verbatim>\<open>/ 2\<close> truncates (\<open>sdiv\<close>).
\<close>

section \<open>Constants and state\<close>

definition MAX_CORRECTION_MS :: int where "MAX_CORRECTION_MS = 24 * 60 * 60 * 1000"
definition NETWORK_FRESH_MS :: int where "NETWORK_FRESH_MS = 6 * 60 * 60 * 1000"
definition MAX_RTT_MS :: int where "MAX_RTT_MS = 5000"
definition CLUSTER_TOLERANCE_MS :: int where "CLUSTER_TOLERANCE_MS = 60000"
definition PEER_QUORUM :: nat where "PEER_QUORUM = 3"
definition CROSS_CHECK_TOLERANCE_MS :: int where "CROSS_CHECK_TOLERANCE_MS = 5000"
definition NETWORK_ADOPTION_CAP_MS :: int where "NETWORK_ADOPTION_CAP_MS = 2 * 60000"
definition NETWORK_ADOPTION_COOLDOWN_MS :: int where "NETWORK_ADOPTION_COOLDOWN_MS = 10 * 60000"

datatype time_source = Unsynced | Network | Peers

datatype clock_error = RttTooLarge | Clamped | UntrustedPeer

record peer_sample =
  ps_offset_ms :: int
  ps_at_local_ms :: int

record clock =
  ck_network_offset_ms :: "int option"
  ck_network_fresh_until :: int
  ck_pending_network :: "(u8 \<times> int) option"
  ck_last_network_adopted_at :: int
  ck_trusted_peers :: "(node_id, unit) hmap"
  ck_peers :: "(node_id, peer_sample) hmap"
  ck_internal_high_water_ms :: u64
  ck_local_high_water_ms :: int
  ck_last_offset_ms :: int
  ck_rollback_detected :: bool

text \<open>\<^verbatim>\<open>i64::MIN / 2\<close>.\<close>

definition LONG_AGO :: int where "LONG_AGO = i64_min sdiv 2"

definition clock_default :: clock where
  "clock_default = \<lparr>ck_network_offset_ms = None, ck_network_fresh_until = LONG_AGO,
     ck_pending_network = None, ck_last_network_adopted_at = LONG_AGO, ck_trusted_peers = [],
     ck_peers = [], ck_internal_high_water_ms = 0, ck_local_high_water_ms = LONG_AGO,
     ck_last_offset_ms = 0, ck_rollback_detected = False\<rparr>"

definition clock_new :: clock where
  "clock_new = clock_default"

definition MAX_PLAUSIBLE_MS :: u64 where "MAX_PLAUSIBLE_MS = 4102444800000"

definition restore_high_water :: "clock \<Rightarrow> u64 \<Rightarrow> clock" where
  "restore_high_water c persisted_ms = (let v = min persisted_ms MAX_PLAUSIBLE_MS in
     c\<lparr>ck_internal_high_water_ms := max (ck_internal_high_water_ms c) v\<rparr>)"

definition high_water_ms :: "clock \<Rightarrow> u64" where
  "high_water_ms c = ck_internal_high_water_ms c"

definition trust_peer :: "clock \<Rightarrow> node_id \<Rightarrow> clock" where
  "trust_peer c peer = c\<lparr>ck_trusted_peers := hm_insert peer () (ck_trusted_peers c)\<rparr>"

definition distrust_peer :: "clock \<Rightarrow> node_id \<Rightarrow> clock" where
  "distrust_peer c peer = c\<lparr>ck_trusted_peers := hm_remove peer (ck_trusted_peers c),
     ck_peers := hm_remove peer (ck_peers c)\<rparr>"

definition is_trusted :: "clock \<Rightarrow> node_id \<Rightarrow> bool" where
  "is_trusted c peer \<longleftrightarrow> hm_contains (ck_trusted_peers c) peer"

section \<open>The consensus of the contacts\<close>

text \<open>
  The loop over \<^verbatim>\<open>offsets.windows(2)\<close>: the best run so far, the current run, the previous offset, the
  offsets left. A run that is not longer than the best is dropped.
\<close>

fun cluster_loop :: "int list \<Rightarrow> int list \<Rightarrow> int \<Rightarrow> int list \<Rightarrow> int list option" where
  "cluster_loop best run prev [] = Some (if length run > length best then run else best)"
| "cluster_loop best run prev (x # xs) = do {
     d \<leftarrow> i64_chk (x - prev);
     if d \<le> CLUSTER_TOLERANCE_MS then cluster_loop best (run @ [x]) x xs
     else cluster_loop (if length run > length best then run else best) [x] x xs
   }"

definition peak_cluster :: "clock \<Rightarrow> int \<Rightarrow> int list option option" where
  "peak_cluster c local_ms = do {
     fresh_cut \<leftarrow> i64_chk (local_ms - 30 * 60 * 1000);
     let offsets = map ps_offset_ms (filter (\<lambda>s. ps_at_local_ms s \<ge> fresh_cut) (hm_values (ck_peers c)));
     if length offsets < PEER_QUORUM then Some None
     else do {
       let offsets = sort offsets;
       best \<leftarrow> cluster_loop [] [hd offsets] (hd offsets) (tl offsets);
       Some (if length best \<ge> PEER_QUORUM then Some best else None)
     }
   }"

definition source :: "clock \<Rightarrow> int \<Rightarrow> time_source option" where
  "source c local_ms =
     (if ck_network_offset_ms c \<noteq> None \<and> local_ms \<le> ck_network_fresh_until c then Some Network
      else do {
        p \<leftarrow> peak_cluster c local_ms;
        Some (if p \<noteq> None then Peers else Unsynced)
      })"

definition effective_offset :: "clock \<Rightarrow> int \<Rightarrow> int option" where
  "effective_offset c local_ms =
     (case ck_network_offset_ms c of
        Some net_offset \<Rightarrow>
          if local_ms \<le> ck_network_fresh_until c then Some net_offset
          else do { p \<leftarrow> peak_cluster c local_ms;
                    Some (case p of Some v \<Rightarrow> sort v ! (length v div 2) | None \<Rightarrow> 0) }
      | None \<Rightarrow> do { p \<leftarrow> peak_cluster c local_ms;
                    Some (case p of Some v \<Rightarrow> sort v ! (length v div 2) | None \<Rightarrow> 0) })"

section \<open>Calibration\<close>

definition drop_network :: "clock \<Rightarrow> clock" where
  "drop_network c = c\<lparr>ck_network_offset_ms := None, ck_network_fresh_until := LONG_AGO\<rparr>"

definition on_network_sync :: "clock \<Rightarrow> u8 \<Rightarrow> int \<Rightarrow> int \<Rightarrow> clock option" where
  "on_network_sync c source_id local_ms network_ms =
     (let raw = i64_sat (network_ms - local_ms);
          clamped = clamp_int (- MAX_CORRECTION_MS) MAX_CORRECTION_MS raw;
          taken = c\<lparr>ck_pending_network := None\<rparr>
      in case ck_pending_network c of
           Some (prev_source, prev_offset) \<Rightarrow>
             if prev_source \<noteq> source_id then do {
               diff \<leftarrow> i64_chk (prev_offset - clamped);
               dist \<leftarrow> i64_chk \<bar>diff\<bar>;
               if dist \<le> CROSS_CHECK_TOLERANCE_MS then do {
                 sum \<leftarrow> i64_chk (prev_offset + clamped);
                 let adopted = sum sdiv 2;
                 let delta = i64_sat (adopted - ck_last_offset_ms c);
                 let cooling = i64_sat (local_ms - ck_last_network_adopted_at c) < NETWORK_ADOPTION_COOLDOWN_MS;
                 move \<leftarrow> i64_chk \<bar>delta\<bar>;
                 if move > NETWORK_ADOPTION_CAP_MS \<or> cooling then Some (drop_network taken)
                 else do {
                   until \<leftarrow> i64_chk (local_ms + NETWORK_FRESH_MS);
                   Some (taken\<lparr>ck_network_offset_ms := Some adopted, ck_network_fresh_until := until,
                     ck_last_network_adopted_at := local_ms\<rparr>)
                 }
               }
               else Some (drop_network taken)
             }
             else Some (taken\<lparr>ck_pending_network := Some (source_id, clamped)\<rparr>)
         | None \<Rightarrow> Some (taken\<lparr>ck_pending_network := Some (source_id, clamped)\<rparr>))"

definition on_peer_exchange :: "clock \<Rightarrow> node_id \<Rightarrow> int \<Rightarrow> int \<Rightarrow> int \<Rightarrow> int \<Rightarrow> (clock_error + int) \<times> clock" where
  "on_peer_exchange c peer t1 t2 t3 t4 =
     (if \<not> is_trusted c peer then (Inl UntrustedPeer, c)
      else let rtt = i64_sat (i64_sat (t4 - t1) - i64_sat (t3 - t2)) in
        if t2 > t3 then (Inl RttTooLarge, c)
        else if \<not> (0 \<le> rtt \<and> rtt \<le> MAX_RTT_MS) then (Inl RttTooLarge, c)
        else let raw = i64_sat (i64_sat (t2 - t1) + i64_sat (t3 - t4)) sdiv 2;
                 clamped = clamp_int (- MAX_CORRECTION_MS) MAX_CORRECTION_MS raw
          in (Inr clamped, c\<lparr>ck_peers := hm_insert peer
               \<lparr>ps_offset_ms = clamped, ps_at_local_ms = t4\<rparr> (ck_peers c)\<rparr>))"

section \<open>Reading the clock\<close>

definition now :: "clock \<Rightarrow> int \<Rightarrow> (int \<times> clock) option" where
  "now c local_ms = do {
     offset \<leftarrow> effective_offset c local_ms;
     let c = (if local_ms < i64_sat (ck_local_high_water_ms c - 60000)
              then c\<lparr>ck_rollback_detected := True\<rparr> else c);
     let c = (if local_ms > ck_local_high_water_ms c
              then c\<lparr>ck_local_high_water_ms := local_ms, ck_rollback_detected := False\<rparr> else c);
     let internal = max (i64_sat (local_ms + offset)) 0;
     let c = (if offset \<noteq> ck_last_offset_ms c
              then c\<lparr>ck_last_offset_ms := offset, ck_internal_high_water_ms := i64_as_u64 internal\<rparr>
              else c\<lparr>ck_internal_high_water_ms := max (ck_internal_high_water_ms c) (i64_as_u64 internal)\<rparr>);
     if ck_rollback_detected c then Some (u64_as_i64 (ck_internal_high_water_ms c), c)
     else Some (max internal (u64_as_i64 (ck_internal_high_water_ms c)), c)
   }"

section \<open>Reachable clocks\<close>

datatype clock_op =
    Restore u64
  | Trust node_id
  | Distrust node_id
  | Sync u8 int int
  | Exchange node_id int int int int
  | Now int

text \<open>The arguments are \<^verbatim>\<open>i64\<close> values; an operation that panics changes nothing.\<close>

fun clock_op_ok :: "clock_op \<Rightarrow> bool" where
  "clock_op_ok (Sync s l n) = (in_i64 l \<and> in_i64 n)"
| "clock_op_ok (Exchange p t1 t2 t3 t4) = (in_i64 t1 \<and> in_i64 t2 \<and> in_i64 t3 \<and> in_i64 t4)"
| "clock_op_ok (Now l) = in_i64 l"
| "clock_op_ok _ = True"

fun clock_apply :: "clock_op \<Rightarrow> clock \<Rightarrow> clock" where
  "clock_apply (Restore v) c = restore_high_water c v"
| "clock_apply (Trust p) c = trust_peer c p"
| "clock_apply (Distrust p) c = distrust_peer c p"
| "clock_apply (Sync s l n) c = (case on_network_sync c s l n of None \<Rightarrow> c | Some c' \<Rightarrow> c')"
| "clock_apply (Exchange p t1 t2 t3 t4) c = snd (on_peer_exchange c p t1 t2 t3 t4)"
| "clock_apply (Now l) c = (case now c l of None \<Rightarrow> c | Some (_, c') \<Rightarrow> c')"

inductive clock_step :: "clock \<Rightarrow> clock \<Rightarrow> bool" where
  "clock_op_ok op \<Longrightarrow> clock_step c (clock_apply op c)"

inductive_cases clock_stepE: "clock_step c c'"

abbreviation clock_reach :: "clock \<Rightarrow> bool" where
  "clock_reach c \<equiv> clock_step\<^sup>*\<^sup>* clock_new c"

definition in_day :: "int \<Rightarrow> bool" where
  "in_day x \<longleftrightarrow> - MAX_CORRECTION_MS \<le> x \<and> x \<le> MAX_CORRECTION_MS"

definition clock_inv :: "clock \<Rightarrow> bool" where
  "clock_inv c \<longleftrightarrow> (\<forall>x. ck_network_offset_ms c = Some x \<longrightarrow> in_day x)
     \<and> (\<forall>s x. ck_pending_network c = Some (s, x) \<longrightarrow> in_day x)
     \<and> (\<forall>p \<in> set (hm_values (ck_peers c)). in_day (ps_offset_ms p))
     \<and> hm_wf (ck_peers c) \<and> hm_wf (ck_trusted_peers c)
     \<and> (\<forall>k. hm_contains (ck_peers c) k \<longrightarrow> hm_contains (ck_trusted_peers c) k)
     \<and> in_day (ck_last_offset_ms c) \<and> in_i64 (ck_last_network_adopted_at c)
     \<and> in_i64 (ck_local_high_water_ms c) \<and> uint (ck_internal_high_water_ms c) \<le> i64_max"

text \<open>A chain of offsets: neighbours at most the tolerance apart.\<close>

definition chain :: "int list \<Rightarrow> bool" where
  "chain xs = successively (\<lambda>x y. y - x \<le> CLUSTER_TOLERANCE_MS) xs"

text \<open>The offsets of the samples of the last 30 minutes, sorted.\<close>

definition fresh_offsets :: "clock \<Rightarrow> int \<Rightarrow> int list" where
  "fresh_offsets c local_ms = sort (map ps_offset_ms
     (filter (\<lambda>s. ps_at_local_ms s \<ge> local_ms - 30 * 60 * 1000) (hm_values (ck_peers c))))"

text \<open>
  The first of the longest chains: a run of the list such that every chain that starts earlier is strictly
  shorter, and none is longer.
\<close>

definition first_longest :: "int list \<Rightarrow> int list \<Rightarrow> bool" where
  "first_longest xs r \<longleftrightarrow> chain r \<and> (\<forall>b. chain b \<longrightarrow> sublist b xs \<longrightarrow> length b \<le> length r)
     \<and> (\<exists>pre post. xs = pre @ r @ post
          \<and> (\<forall>pre' b post'. xs = pre' @ b @ post' \<longrightarrow> chain b \<longrightarrow> length pre' < length pre \<longrightarrow> length b < length r))"

text \<open>The offset a network reading gives, and when a second reading is adopted against a pending one.\<close>

definition reading :: "int \<Rightarrow> int \<Rightarrow> int" where
  "reading local_ms network_ms = clamp_int (- MAX_CORRECTION_MS) MAX_CORRECTION_MS (i64_sat (network_ms - local_ms))"

definition adoptable :: "clock \<Rightarrow> int \<Rightarrow> int \<Rightarrow> int \<Rightarrow> bool" where
  "adoptable c local_ms first second \<longleftrightarrow> \<bar>first - second\<bar> \<le> 5000
     \<and> \<bar>(first + second) sdiv 2 - ck_last_offset_ms c\<bar> \<le> 120000
     \<and> 600000 \<le> local_ms - ck_last_network_adopted_at c"

text \<open>Two agreeing readings at local time 0, then a reading seven hours later.\<close>

definition demo_synced :: clock where
  "demo_synced = clock_apply (Sync 1 0 1000) clock_new"

definition demo_clock :: clock where
  "demo_clock = clock_apply (Now 25200000) (clock_apply (Sync 2 0 1000) demo_synced)"

text \<open>The same pair, and one of the sources again a minute later.\<close>

definition demo_confirmed :: clock where
  "demo_confirmed = clock_apply (Sync 1 60000 61000) (clock_apply (Sync 2 0 1000) demo_synced)"

text \<open>Six contacts in two groups that disagree: three around 0 and three around 500 seconds.\<close>

definition demo_vote :: clock where
  "demo_vote = foldl (\<lambda>c op. clock_apply op c) clock_new
     (concat (map (\<lambda>(p, t). [Trust [p], Exchange [p] 0 t t 0]) [(1, 500010), (2, 0), (3, 10), (4, 500000), (5, 20), (6, 500020)]))"

section \<open>The longest chain\<close>

lemmas clock_consts = MAX_CORRECTION_MS_def NETWORK_FRESH_MS_def MAX_RTT_MS_def CLUSTER_TOLERANCE_MS_def
  PEER_QUORUM_def CROSS_CHECK_TOLERANCE_MS_def NETWORK_ADOPTION_CAP_MS_def NETWORK_ADOPTION_COOLDOWN_MS_def

lemma chain_append: "chain (xs @ ys) \<longleftrightarrow> chain xs \<and> chain ys
    \<and> (xs = [] \<or> ys = [] \<or> hd ys - last xs \<le> CLUSTER_TOLERANCE_MS)"
  by (auto simp: chain_def successively_append_iff)

lemma chain_simps [simp]: "chain []" "chain [x]"
  by (simp_all add: chain_def)

text \<open>A chain inside two lists that do not link up lies in one of them.\<close>

lemma chain_sublist_append:
  assumes "chain b" and "sublist b (xs @ ys)" and "xs \<noteq> [] \<Longrightarrow> ys \<noteq> [] \<Longrightarrow> CLUSTER_TOLERANCE_MS < hd ys - last xs"
  shows "sublist b xs \<or> sublist b ys"
proof (rule ccontr)
  assume no: "\<not> (sublist b xs \<or> sublist b ys)"
  with assms(2) obtain b1 b2 where b: "b = b1 @ b2" "suffix b1 xs" "prefix b2 ys"
    by (auto simp: sublist_append)
  have "b1 \<noteq> []" "b2 \<noteq> []"
    using no b suffix_imp_sublist prefix_imp_sublist by (metis append_Nil, metis append_Nil2)
  moreover from this b have "last b1 = last xs" "hd b2 = hd ys" "xs \<noteq> []" "ys \<noteq> []"
    by (auto simp: suffix_def prefix_def)
  ultimately show False
    using assms(1,3) b(1) by (auto simp: chain_append)
qed

text \<open>A chain that starts before a break ends before it.\<close>

lemma chain_before_break:
  assumes "dn @ run = pre @ b @ post" and "length pre < length dn" and "chain b"
    and "run \<noteq> [] \<Longrightarrow> CLUSTER_TOLERANCE_MS < hd run - last dn"
  shows "\<exists>q. dn = pre @ b @ q"
proof -
  have two: "(\<exists>us. xs = zs @ us \<and> us @ ys = ts) \<or> (\<exists>us. xs @ us = zs \<and> us \<noteq> [] \<and> ys = us @ ts)"
    if "xs @ ys = zs @ ts" for xs ys zs ts :: "int list"
    using that unfolding append_eq_append_conv2 by (metis append_Nil append_Nil2)
  obtain us where us: "dn = pre @ us" "us \<noteq> []" "us @ run = b @ post"
    using two [OF assms(1)] assms(2) by force
  consider q where "us = b @ q" | vs where "b = us @ vs" "run = vs @ post" "vs \<noteq> []"
    using two [OF us(3)] by metis
  then show ?thesis
  proof cases
    case 1
    then show ?thesis using us(1) by blast
  next
    case 2
    then have "hd run - last dn \<le> CLUSTER_TOLERANCE_MS" using assms(3) us(1,2) by (auto simp: chain_append)
    then show ?thesis using assms(4) 2(2,3) by auto
  qed
qed

lemma first_longest_step:
  assumes "first_longest dn best" and "chain run" and "run \<noteq> []" and "dn \<noteq> [] \<Longrightarrow> CLUSTER_TOLERANCE_MS < hd run - last dn"
  shows "first_longest (dn @ run) (if length run > length best then run else best)" (is "first_longest _ ?r")
proof -
  obtain pre post where dn: "dn = pre @ best @ post"
    "\<And>pre' b post'. dn = pre' @ b @ post' \<Longrightarrow> chain b \<Longrightarrow> length pre' < length pre \<Longrightarrow> length b < length best"
    and best: "chain best" "\<And>b. chain b \<Longrightarrow> sublist b dn \<Longrightarrow> length b \<le> length best"
    using assms(1) unfolding first_longest_def by blast
  have longest: "length b \<le> length ?r" if b: "chain b" "sublist b (dn @ run)" for b
  proof -
    have "length b \<le> length best \<or> length b \<le> length run"
      using chain_sublist_append [OF b] assms(4) best(2) [OF b(1)] sublist_length_le by blast
    then show ?thesis by auto
  qed
  have early: "\<exists>q. dn = pre' @ b @ q" if "dn @ run = pre' @ b @ post'" "chain b" "length pre' < length dn" for pre' b post'
    using chain_before_break [OF that(1,3,2)] assms(4) that(3) by fastforce
  show ?thesis
  proof (cases "length run > length best")
    case True
    have "length b < length run" if b: "dn @ run = pre' @ b @ post'" "chain b" "length pre' < length dn" for pre' b post'
    proof -
      obtain q where "dn = pre' @ b @ q" using early [OF b] by blast
      then have "length b \<le> length best" using best(2) [OF b(2)] by (auto simp: sublist_def)
      then show ?thesis using True by simp
    qed
    then have "\<exists>pre post. dn @ run = pre @ run @ post \<and> (\<forall>pre' b post'. dn @ run = pre' @ b @ post' \<longrightarrow> chain b
        \<longrightarrow> length pre' < length pre \<longrightarrow> length b < length run)"
      by (intro exI [of _ dn] exI [of _ "[]"]) simp
    then show ?thesis
      unfolding first_longest_def using True assms(2) longest by simp
  next
    case False
    have "length b < length best" if b: "dn @ run = pre' @ b @ post'" "chain b" "length pre' < length pre" for pre' b post'
    proof -
      have "length pre' < length dn" using b(3) dn(1) by simp
      then obtain q where "dn = pre' @ b @ q" using early [OF b(1,2)] by blast
      then show ?thesis using dn(2) b(2,3) by blast
    qed
    then have "\<exists>pre post. dn @ run = pre @ best @ post \<and> (\<forall>pre' b post'. dn @ run = pre' @ b @ post' \<longrightarrow> chain b
        \<longrightarrow> length pre' < length pre \<longrightarrow> length b < length best)"
      using dn(1) by (intro exI [of _ pre] exI [of _ "post @ run"]) simp
    then show ?thesis
      unfolding first_longest_def using False best(1) longest by simp
  qed
qed

lemma first_longest_Nil: "first_longest [] []"
  by (simp add: first_longest_def)

lemma first_longest_unique:
  assumes "first_longest xs r" and "first_longest xs r'"
  shows "r = r'"
proof -
  obtain pre post where xs: "xs = pre @ r @ post"
    and early: "\<And>q b q'. xs = q @ b @ q' \<Longrightarrow> chain b \<Longrightarrow> length q < length pre \<Longrightarrow> length b < length r"
    using assms(1) unfolding first_longest_def by blast
  obtain pre' post' where xs': "xs = pre' @ r' @ post'"
    and early': "\<And>q b q'. xs = q @ b @ q' \<Longrightarrow> chain b \<Longrightarrow> length q < length pre' \<Longrightarrow> length b < length r'"
    using assms(2) unfolding first_longest_def by blast
  have chain: "chain r" "chain r'"
    and most: "\<And>b. chain b \<Longrightarrow> sublist b xs \<Longrightarrow> length b \<le> length r" "\<And>b. chain b \<Longrightarrow> sublist b xs \<Longrightarrow> length b \<le> length r'"
    using assms unfolding first_longest_def by blast+
  have "sublist r xs" "sublist r' xs" using xs xs' unfolding sublist_def by blast+
  then have len: "length r = length r'" using most chain by (simp add: le_antisym)
  have "\<not> length pre' < length pre" "\<not> length pre < length pre'"
    using early [OF xs' chain(2)] early' [OF xs chain(1)] len by auto
  then have "length pre = length pre'" by simp
  then have "r @ post = r' @ post'" using xs xs' by simp
  then show ?thesis using len by simp
qed

lemma cluster_loop_longest:
  assumes "\<forall>x \<in> set (dn @ run @ rest). in_day x" and "run \<noteq> []" and "last run = prev" and "chain run"
    and "dn \<noteq> [] \<Longrightarrow> CLUSTER_TOLERANCE_MS < hd run - last dn" and "first_longest dn best"
  shows "\<exists>r. cluster_loop best run prev rest = Some r \<and> first_longest (dn @ run @ rest) r"
  using assms
proof (induction best run prev rest arbitrary: dn rule: cluster_loop.induct)
  case (1 best run prev)
  then show ?case using first_longest_step [of dn best run] by simp
next
  case (2 best run prev x xs)
  have "in_day x" "in_day prev" using "2.prems"(1,2,3) by auto
  then have chk: "i64_chk (x - prev) = Some (x - prev)"
    by (auto simp: i64_chk_def in_day_def in_i64_def i64_min_def i64_max_def clock_consts)
  show ?case
  proof (cases "x - prev \<le> CLUSTER_TOLERANCE_MS")
    case True
    have "\<exists>r. cluster_loop best (run @ [x]) x xs = Some r \<and> first_longest (dn @ (run @ [x]) @ xs) r"
      by (rule "2.IH"(1) [OF chk True]) (use True "2.prems" in \<open>auto simp: chain_append\<close>)
    then show ?thesis using True chk by simp
  next
    case False
    let ?best = "if length run > length best then run else best"
    have "first_longest (dn @ run) ?best"
      using "2.prems"(6,4,2,5) by (rule first_longest_step)
    then have "\<exists>r. cluster_loop ?best [x] x xs = Some r \<and> first_longest ((dn @ run) @ [x] @ xs) r"
      by (intro "2.IH"(2) [OF chk False]) (use False "2.prems" in auto)
    then show ?thesis using False chk by simp
  qed
qed

lemma fresh_in_day: "clock_inv c \<Longrightarrow> \<forall>x \<in> set (fresh_offsets c l). in_day x"
  by (auto simp: clock_inv_def fresh_offsets_def)

lemma first_longest_sublist: "first_longest xs r \<Longrightarrow> sublist r xs"
  by (auto simp: first_longest_def sublist_def)

lemma clock_cluster:
  assumes "clock_inv c" and "i64_min + 1800000 \<le> l" and "l \<le> i64_max"
  shows "\<exists>p. peak_cluster c l = Some p \<and> (case p of
      Some r \<Rightarrow> first_longest (fresh_offsets c l) r \<and> 3 \<le> length r
    | None \<Rightarrow> (\<forall>b. chain b \<longrightarrow> sublist b (fresh_offsets c l) \<longrightarrow> length b < 3))"
proof -
  have cut: "i64_chk (l - 30 * 60 * 1000) = Some (l - 30 * 60 * 1000)"
    using assms(2,3) by (simp add: i64_chk_def in_i64_def)
  let ?o = "map ps_offset_ms (filter (\<lambda>s. ps_at_local_ms s \<ge> l - 30 * 60 * 1000) (hm_values (ck_peers c)))"
  have fresh: "sort ?o = fresh_offsets c l" by (simp add: fresh_offsets_def)
  have len: "length (fresh_offsets c l) = length ?o" by (simp add: fresh_offsets_def)
  show ?thesis
  proof (cases "length ?o < PEER_QUORUM")
    case True
    then have "length b < 3" if "sublist b (fresh_offsets c l)" for b
      using sublist_length_le [OF that] unfolding len PEER_QUORUM_def by linarith
    moreover have "peak_cluster c l = Some None"
      unfolding peak_cluster_def cut Let_def using True by simp
    ultimately show ?thesis by simp
  next
    case False
    then have "length (fresh_offsets c l) \<noteq> 0"
      unfolding len PEER_QUORUM_def by linarith
    then obtain x xs where L: "fresh_offsets c l = x # xs" by (cases "fresh_offsets c l") auto
    have "\<exists>r. cluster_loop [] [x] x xs = Some r \<and> first_longest ([] @ [x] @ xs) r"
      by (rule cluster_loop_longest) (use fresh_in_day [OF assms(1), of l] L first_longest_Nil in auto)
    then obtain r where r: "cluster_loop [] [x] x xs = Some r" "first_longest (fresh_offsets c l) r" by (auto simp: L)
    have "peak_cluster c l = do {
        best \<leftarrow> cluster_loop [] [x] x xs; Some (if length best \<ge> PEER_QUORUM then Some best else None) }"
      unfolding peak_cluster_def cut Let_def using False fresh L by simp
    then have "peak_cluster c l = Some (if length r \<ge> PEER_QUORUM then Some r else None)" using r(1) by simp
    then show ?thesis
      using r(2) by (auto simp: PEER_QUORUM_def first_longest_def not_le intro: le_less_trans)
  qed
qed

lemma effective_offset_cases:
  assumes "clock_inv c" and "i64_min + 1800000 \<le> l" and "l \<le> i64_max"
  obtains (network) o' where "ck_network_offset_ms c = Some o'" and "l \<le> ck_network_fresh_until c"
      and "effective_offset c l = Some o'"
  | (peers) r where "\<not> (ck_network_offset_ms c \<noteq> None \<and> l \<le> ck_network_fresh_until c)"
      and "peak_cluster c l = Some (Some r)" and "first_longest (fresh_offsets c l) r" and "3 \<le> length r"
      and "effective_offset c l = Some (sort r ! (length r div 2))"
  | (unsynced) "\<not> (ck_network_offset_ms c \<noteq> None \<and> l \<le> ck_network_fresh_until c)"
      and "peak_cluster c l = Some None" and "\<forall>b. chain b \<longrightarrow> sublist b (fresh_offsets c l) \<longrightarrow> length b < 3"
      and "effective_offset c l = Some 0"
proof -
  obtain p where p: "peak_cluster c l = Some p" "case p of
      Some r \<Rightarrow> first_longest (fresh_offsets c l) r \<and> 3 \<le> length r
    | None \<Rightarrow> (\<forall>b. chain b \<longrightarrow> sublist b (fresh_offsets c l) \<longrightarrow> length b < 3)"
    using clock_cluster [OF assms] by blast
  show ?thesis
  proof (cases "\<exists>o'. ck_network_offset_ms c = Some o' \<and> l \<le> ck_network_fresh_until c")
    case True
    then show ?thesis using network by (auto simp: effective_offset_def)
  next
    case False
    then have none: "\<not> (ck_network_offset_ms c \<noteq> None \<and> l \<le> ck_network_fresh_until c)" by auto
    then have "effective_offset c l = Some (case p of Some r \<Rightarrow> sort r ! (length r div 2) | None \<Rightarrow> 0)"
      using p(1) by (auto simp: effective_offset_def split: option.split)
    then show ?thesis
      using peers [OF none] unsynced [OF none] p by (cases p) auto
  qed
qed

lemma sort_median_mem: "r \<noteq> [] \<Longrightarrow> sort r ! (length r div 2) \<in> set (r :: int list)"
  by (metis length_sort nth_mem set_sort div_less_dividend length_greater_0_conv one_less_numeral_iff
      semiring_norm(76))

lemma effective_offset_in_day:
  assumes "clock_inv c" and "i64_min + 1800000 \<le> l" and "l \<le> i64_max"
  shows "\<exists>x. effective_offset c l = Some x \<and> in_day x"
  using assms
proof (cases rule: effective_offset_cases)
  case (network x)
  then show ?thesis using assms(1) by (auto simp: clock_inv_def)
next
  case (peers r)
  have "sort r ! (length r div 2) \<in> set (fresh_offsets c l)"
    using peers(4) sort_median_mem [of r] set_mono_sublist [OF first_longest_sublist [OF peers(3)]] by (cases r) auto
  then show ?thesis using peers(5) fresh_in_day [OF assms(1)] by auto
next
  case unsynced
  then show ?thesis by (simp add: in_day_def MAX_CORRECTION_MS_def)
qed

section \<open>The invariant\<close>

lemma long_ago_i64: "in_i64 LONG_AGO"
  by (simp add: LONG_AGO_def in_i64_def i64_min_def i64_max_def signed_divide_int_def)

lemma clock_new_inv: "clock_inv clock_new"
  using long_ago_i64
  by (simp add: clock_inv_def clock_new_def clock_default_def hm_values_def hm_contains_def in_day_def
      MAX_CORRECTION_MS_def i64_max_def)

lemma clamp_in_day: "in_day (clamp_int (- MAX_CORRECTION_MS) MAX_CORRECTION_MS x)"
  by (auto simp: in_day_def clamp_int_def MAX_CORRECTION_MS_def)

lemma half_in_day: "in_day x \<Longrightarrow> in_day y \<Longrightarrow> in_day ((x + y) sdiv 2)"
  by (auto simp: in_day_def signed_divide_int_def sgn_if MAX_CORRECTION_MS_def abs_if)

lemma uint_as_u64: "0 \<le> x \<Longrightarrow> x \<le> i64_max \<Longrightarrow> uint (i64_as_u64 x) = x"
  by (simp add: i64_as_u64_def i64_max_def uint_word_of_int_eq take_bit_int_eq_self)

lemma u64_as_i64_small: "uint w \<le> i64_max \<Longrightarrow> u64_as_i64 w = uint w"
  by (simp add: u64_as_i64_def i64_max_def)

text \<open>What a reading does: the mark moves to the internal time, never down unless the offset changes.\<close>

lemma now_result:
  assumes "clock_inv c" and "effective_offset c l = Some x" and "in_i64 l"
  defines "internal \<equiv> max (i64_sat (l + x)) 0"
  shows "\<exists>rb w. now c l = Some (uint w, c\<lparr>ck_local_high_water_ms := max (ck_local_high_water_ms c) l,
      ck_rollback_detected := rb, ck_last_offset_ms := x, ck_internal_high_water_ms := w\<rparr>)
    \<and> uint w = (if x \<noteq> ck_last_offset_ms c then internal
        else max (uint (ck_internal_high_water_ms c)) internal)"
proof -
  have int: "0 \<le> internal" "internal \<le> i64_max"
    unfolding internal_def using in_i64_sat [of "l + x"] by (auto simp: in_i64_def i64_max_def)
  have hw: "uint (ck_internal_high_water_ms c) \<le> i64_max" using assms(1) by (simp add: clock_inv_def)
  have umax: "uint (max a b) = max (uint a) (uint b)" for a b :: u64
    by (simp add: max_def word_le_def)
  define w where "w = (if x \<noteq> ck_last_offset_ms c then i64_as_u64 internal
    else max (ck_internal_high_water_ms c) (i64_as_u64 internal))"
  have w: "uint w = (if x \<noteq> ck_last_offset_ms c then internal
      else max (uint (ck_internal_high_water_ms c)) internal)"
    using int by (simp add: w_def umax uint_as_u64)
  then have "uint w \<le> i64_max" and ge: "max internal (uint w) = uint w"
    using int hw by auto
  then have small: "u64_as_i64 w = uint w" by (intro u64_as_i64_small)
  let ?lh = "ck_local_high_water_ms c"
  let ?c = "\<lambda>rb. c\<lparr>ck_local_high_water_ms := max ?lh l, ck_rollback_detected := rb, ck_last_offset_ms := x,
    ck_internal_high_water_ms := w\<rparr>"
  define c1 where "c1 = (let c = (if l < i64_sat (?lh - 60000) then c\<lparr>ck_rollback_detected := True\<rparr> else c)
    in if l > ck_local_high_water_ms c
      then c\<lparr>ck_local_high_water_ms := l, ck_rollback_detected := False\<rparr> else c)"
  have c1: "c1 = c\<lparr>ck_local_high_water_ms := max ?lh l, ck_rollback_detected := ck_rollback_detected c1\<rparr>"
    by (auto simp: c1_def Let_def max_def)
  then have c1_sel: "ck_last_offset_ms c1 = ck_last_offset_ms c"
    "ck_internal_high_water_ms c1 = ck_internal_high_water_ms c"
    by (metis clock.select_convs clock.surjective clock.update_convs)+
  define c2 where "c2 = (if x \<noteq> ck_last_offset_ms c1
    then c1\<lparr>ck_last_offset_ms := x, ck_internal_high_water_ms := i64_as_u64 internal\<rparr>
    else c1\<lparr>ck_internal_high_water_ms := max (ck_internal_high_water_ms c1) (i64_as_u64 internal)\<rparr>)"
  have c2: "c2 = c1\<lparr>ck_last_offset_ms := x, ck_internal_high_water_ms := w\<rparr>"
    by (simp add: c2_def w_def c1_sel)
  have "now c l = Some (uint w, c2)"
  proof -
    have "now c l = (if ck_rollback_detected c2 then Some (u64_as_i64 (ck_internal_high_water_ms c2), c2)
        else Some (max internal (u64_as_i64 (ck_internal_high_water_ms c2)), c2))"
      unfolding now_def assms(2) Let_def bind.bind_lunit c2_def c1_def internal_def ..
    then show ?thesis using small ge by (simp add: c2)
  qed
  moreover have "c2 = ?c (ck_rollback_detected c1)"
    unfolding c2 by (subst c1) simp
  ultimately have "\<exists>rb. now c l = Some (uint w, ?c rb)" by auto
  then show ?thesis using w by blast
qed

section \<open>Network readings\<close>

lemma i64_chk_days: "\<bar>x\<bar> \<le> 4 * MAX_CORRECTION_MS \<Longrightarrow> i64_chk x = Some x \<and> i64_sat x = x"
  by (auto simp: i64_chk_def in_i64_def i64_sat_def i64_min_def i64_max_def MAX_CORRECTION_MS_def)

lemma i64_sat_less: "y \<le> i64_max \<Longrightarrow> i64_min < y \<Longrightarrow> i64_sat x < y \<longleftrightarrow> x < y"
  by (auto simp: i64_sat_def)

lemma network_sync_eq:
  assumes "clock_inv c"
  shows "on_network_sync c s l n =
    (case ck_pending_network c of
       Some (s', o') \<Rightarrow>
         if s' \<noteq> s
         then if adoptable c l o' (reading l n)
           then do { u \<leftarrow> i64_chk (l + NETWORK_FRESH_MS);
                     Some (c\<lparr>ck_pending_network := None, ck_network_offset_ms := Some ((o' + reading l n) sdiv 2),
                       ck_network_fresh_until := u, ck_last_network_adopted_at := l\<rparr>) }
           else Some (drop_network (c\<lparr>ck_pending_network := None\<rparr>))
         else Some (c\<lparr>ck_pending_network := Some (s, reading l n)\<rparr>)
     | None \<Rightarrow> Some (c\<lparr>ck_pending_network := Some (s, reading l n)\<rparr>))"
proof (cases "ck_pending_network c")
  case None
  then show ?thesis by (simp add: on_network_sync_def reading_def Let_def)
next
  case (Some p)
  obtain s' o' where p: "p = (s', o')" by fastforce
  let ?r = "reading l n"
  let ?a = "(o' + ?r) sdiv 2"
  have days: "in_day o'" "in_day ?r" "in_day (ck_last_offset_ms c)"
    using assms Some p clamp_in_day by (auto simp: clock_inv_def reading_def)
  then have a: "in_day ?a" using half_in_day by blast
  have chk: "i64_chk (o' - ?r) = Some (o' - ?r)" "i64_chk \<bar>o' - ?r\<bar> = Some \<bar>o' - ?r\<bar>"
    "i64_chk (o' + ?r) = Some (o' + ?r)" "i64_sat (?a - ck_last_offset_ms c) = ?a - ck_last_offset_ms c"
    "i64_chk \<bar>?a - ck_last_offset_ms c\<bar> = Some \<bar>?a - ck_last_offset_ms c\<bar>"
    using days a by (auto simp: in_day_def intro!: i64_chk_days [THEN conjunct1] i64_chk_days [THEN conjunct2])
  have cool: "i64_sat (l - ck_last_network_adopted_at c) < NETWORK_ADOPTION_COOLDOWN_MS
      \<longleftrightarrow> \<not> 600000 \<le> l - ck_last_network_adopted_at c"
    by (subst i64_sat_less) (auto simp: i64_max_def i64_min_def NETWORK_ADOPTION_COOLDOWN_MS_def)
  show ?thesis
    unfolding on_network_sync_def Some p Let_def reading_def [symmetric]
    by (simp add: chk cool adoptable_def CROSS_CHECK_TOLERANCE_MS_def NETWORK_ADOPTION_CAP_MS_def not_le)
qed

lemma drop_network_sel [simp]: "ck_network_offset_ms (drop_network c) = None"
  "ck_pending_network (drop_network c) = ck_pending_network c" "ck_peers (drop_network c) = ck_peers c"
  "ck_trusted_peers (drop_network c) = ck_trusted_peers c"
  "ck_last_offset_ms (drop_network c) = ck_last_offset_ms c"
  "ck_last_network_adopted_at (drop_network c) = ck_last_network_adopted_at c"
  "ck_local_high_water_ms (drop_network c) = ck_local_high_water_ms c"
  "ck_internal_high_water_ms (drop_network c) = ck_internal_high_water_ms c"
  by (simp_all add: drop_network_def)

lemma sync_inv: "clock_inv c \<Longrightarrow> in_i64 l \<Longrightarrow> on_network_sync c s l n = Some c' \<Longrightarrow> clock_inv c'"
  using clamp_in_day
  by (auto simp: network_sync_eq clock_inv_def half_in_day reading_def split: option.splits if_splits
      Option.bind_splits)

lemma exchange_inv:
  assumes "clock_inv c"
  shows "clock_inv (snd (on_peer_exchange c p t1 t2 t3 t4))"
proof -
  have "clock_inv (c\<lparr>ck_peers := hm_insert p \<lparr>ps_offset_ms = x, ps_at_local_ms = t\<rparr> (ck_peers c)\<rparr>)"
    if "is_trusted c p" "in_day x" for x t
    using assms that hm_values_insert [of p "\<lparr>ps_offset_ms = x, ps_at_local_ms = t\<rparr>" "ck_peers c"]
    by (auto simp: clock_inv_def is_trusted_def hm.wf_ins hm_contains_def hm.get_ins)
  then show ?thesis using assms clamp_in_day by (simp add: on_peer_exchange_def Let_def)
qed

lemma now_inv:
  assumes "clock_inv c" and "in_i64 l" and "now c l = Some (t, c')"
  shows "clock_inv c'"
proof -
  obtain x where x: "effective_offset c l = Some x"
    using assms(3) by (auto simp: now_def split: Option.bind_splits)
  have cut: "i64_min + 1800000 \<le> l \<or> ck_network_offset_ms c = Some x"
    using x by (auto simp: effective_offset_def peak_cluster_def i64_chk_def in_i64_def
        split: option.splits if_splits Option.bind_splits)
  then have "in_day x"
  proof
    assume "i64_min + 1800000 \<le> l"
    then show ?thesis using effective_offset_in_day [OF assms(1), of l] assms(2) x by (auto simp: in_i64_def)
  next
    assume "ck_network_offset_ms c = Some x"
    then show ?thesis using assms(1) by (simp add: clock_inv_def)
  qed
  moreover obtain rb w where c': "c' = c\<lparr>ck_local_high_water_ms := max (ck_local_high_water_ms c) l,
      ck_rollback_detected := rb, ck_last_offset_ms := x, ck_internal_high_water_ms := w\<rparr>"
    and w: "uint w = (if x \<noteq> ck_last_offset_ms c then max (i64_sat (l + x)) 0
        else max (uint (ck_internal_high_water_ms c)) (max (i64_sat (l + x)) 0))"
    using now_result [OF assms(1) x assms(2)] assms(3) by auto
  moreover have "uint w \<le> i64_max"
    using assms(1) in_i64_sat [of "l + x"] by (auto simp: w clock_inv_def in_i64_def i64_max_def)
  moreover have "in_i64 (max (ck_local_high_water_ms c) l)"
    using assms(1,2) by (simp add: clock_inv_def max_def)
  ultimately show ?thesis
    using assms(1) by (simp add: clock_inv_def c')
qed

lemma apply_inv: "clock_inv c \<Longrightarrow> clock_op_ok op \<Longrightarrow> clock_inv (clock_apply op c)"
proof (cases op)
  case (Restore v)
  assume inv: "clock_inv c"
  have "uint (min v MAX_PLAUSIBLE_MS) \<le> 4102444800000"
    by (simp add: min_def word_le_def MAX_PLAUSIBLE_MS_def)
  then show ?thesis
    using inv by (auto simp: Restore restore_high_water_def clock_inv_def max_def i64_max_def)
next
  case (Trust p)
  assume inv: "clock_inv c"
  then show ?thesis by (auto simp: Trust trust_peer_def clock_inv_def hm.wf_ins hm_contains_def hm.get_ins)
next
  case (Distrust p)
  assume inv: "clock_inv c"
  have "set (hm_values (hm_remove p (ck_peers c))) \<subseteq> set (hm_values (ck_peers c))"
    by (auto simp: hm_remove_filter hm_values_def)
  then show ?thesis
    using inv by (auto simp: Distrust distrust_peer_def clock_inv_def hm.wf_rem hm_contains_def hm.get_rem)
qed (auto simp: sync_inv exchange_inv intro: now_inv split: option.split prod.split)

lemma clock_reach_inv: "clock_reach c \<Longrightarrow> clock_inv c"
  by (induction rule: rtranclp_induct) (auto simp: clock_new_inv apply_inv elim!: clock_stepE)

section \<open>Concrete clocks\<close>

lemma clock_reach_apply: "clock_reach c \<Longrightarrow> clock_op_ok op \<Longrightarrow> clock_reach (clock_apply op c)"
  by (blast intro: rtranclp.rtrancl_into_rtrancl clock_step.intros)

lemma demo_synced_reach: "clock_reach demo_synced"
  unfolding demo_synced_def
  by (rule r_into_rtranclp, rule clock_step.intros) (simp add: in_i64_def i64_min_def i64_max_def)

lemma demo_clock_reach: "clock_reach demo_clock"
proof -
  have "clock_reach (clock_apply (Sync 2 0 1000) demo_synced)"
    using demo_synced_reach
    by (rule rtranclp.rtrancl_into_rtrancl, intro clock_step.intros) (simp add: in_i64_def i64_min_def i64_max_def)
  then show ?thesis unfolding demo_clock_def
    by (rule rtranclp.rtrancl_into_rtrancl, intro clock_step.intros) (simp add: in_i64_def i64_min_def i64_max_def)
qed

lemma long_ago_value: "LONG_AGO = - 4611686018427387904" "(2000 :: int) sdiv 2 = 1000"
  by (simp_all add: LONG_AGO_def i64_min_def signed_divide_int_def)

lemmas clock_eval = clock_new_def clock_default_def on_network_sync_def Let_def clamp_int_def clock_consts
  i64_sat_def i64_chk_def in_i64_def i64_min_def i64_max_def long_ago_value drop_network_def now_def
  effective_offset_def peak_cluster_def hm_values_def i64_as_u64_def u64_as_i64_def high_water_ms_def reading_def

lemma demo_clock_eq: "demo_clock = clock_new\<lparr>ck_network_offset_ms := Some 1000, ck_network_fresh_until := 21600000,
    ck_last_network_adopted_at := 0, ck_internal_high_water_ms := 25200000, ck_local_high_water_ms := 25200000\<rparr>"
  by (simp add: demo_clock_def demo_synced_def clock_eval)

lemma demo_vote_reach: "clock_reach demo_vote"
proof -
  have "clock_reach (foldl (\<lambda>c op. clock_apply op c) c ops)" if "clock_reach c" "\<forall>op \<in> set ops. clock_op_ok op" for c ops
    using that by (induction ops arbitrary: c) (auto intro: clock_reach_apply)
  from this [OF rtranclp.rtrancl_refl] show ?thesis
    unfolding demo_vote_def by this (simp add: in_i64_def i64_min_def i64_max_def)
qed

lemma vote_step:
  assumes "0 \<le> t" and "t \<le> 86400000"
  shows "snd (on_peer_exchange (trust_peer c p) p 0 t t 0)
    = c\<lparr>ck_trusted_peers := hm_insert p () (ck_trusted_peers c),
        ck_peers := hm_insert p \<lparr>ps_offset_ms = t, ps_at_local_ms = 0\<rparr> (ck_peers c)\<rparr>"
proof -
  have "(t + t) sdiv 2 = t" using assms(1) by (cases "t = 0") (simp_all add: signed_divide_int_def sgn_if)
  moreover have "i64_sat t = t" "i64_sat (t + t) = t + t" "i64_sat 0 = 0" "i64_sat (- t) = - t"
    using assms by (simp_all add: i64_sat_def i64_min_def i64_max_def)
  ultimately show ?thesis
    using assms
    by (simp add: on_peer_exchange_def is_trusted_def trust_peer_def hm_contains_def hm.get_ins clamp_int_def clock_consts Let_def)
qed

lemma demo_vote_eq: "demo_vote = clock_new\<lparr>ck_trusted_peers := map (\<lambda>k. ([k], ())) [1, 2, 3, 4, 5, 6],
    ck_peers := map (\<lambda>(k, t). ([k], \<lparr>ps_offset_ms = t, ps_at_local_ms = 0\<rparr>))
      [(1, 500010), (2, 0), (3, 10), (4, 500000), (5, 20), (6, 500020)]\<rparr>"
  by (simp add: demo_vote_def vote_step) (simp add: clock_new_def clock_default_def hm_insert_def)

lemma demo_vote_offsets: "fresh_offsets demo_vote 1000 = [0, 10, 20, 500000, 500010, 500020]"
  by (simp add: demo_vote_eq fresh_offsets_def hm_values_def)

lemma first_two_groups: "first_longest [0, 10, 20, 500000, 500010, 500020] [0, 10, 20]"
proof -
  let ?a = "[0, 10, 20] :: int list" and ?b = "[500000, 500010, 500020] :: int list"
  have "chain ?a" "chain ?b" by (simp_all add: chain_def clock_consts)
  moreover have "first_longest ?a ?a"
    using first_longest_step [OF first_longest_Nil \<open>chain ?a\<close>] by simp
  ultimately show ?thesis using first_longest_step [of ?a ?a ?b] by (simp add: clock_consts)
qed

section \<open>Properties of the clock\<close>

text \<open>
  C21. The contacts' vote: on every reachable clock, for local times at least 30 minutes above the start
  of the range, the vote exists without overflow, and the consensus is exactly one run of the sorted fresh
  samples: the first of the longest runs whose neighbours are at most 60 s apart, provided it has three
  samples. Every run that starts earlier is strictly shorter, so the first group wins a tie; there is no
  consensus exactly when every such run has fewer than three samples.
\<close>

theorem peer_consensus_is_longest_chain:
  assumes "clock_reach c" and "i64_min + 1800000 \<le> l" and "l \<le> i64_max"
  shows "\<exists>p. peak_cluster c l = Some p
    \<and> (\<forall>r. p = Some r \<longleftrightarrow> 3 \<le> length r \<and> first_longest (fresh_offsets c l) r)
    \<and> (p = None \<longleftrightarrow> (\<forall>b. chain b \<longrightarrow> sublist b (fresh_offsets c l) \<longrightarrow> length b < 3))"
proof -
  obtain p where p: "peak_cluster c l = Some p" "case p of
      Some r \<Rightarrow> first_longest (fresh_offsets c l) r \<and> 3 \<le> length r
    | None \<Rightarrow> (\<forall>b. chain b \<longrightarrow> sublist b (fresh_offsets c l) \<longrightarrow> length b < 3)"
    using clock_cluster [OF clock_reach_inv [OF assms(1)] assms(2,3)] by blast
  have none: "p = None \<longleftrightarrow> (\<forall>b. chain b \<longrightarrow> sublist b (fresh_offsets c l) \<longrightarrow> length b < 3)"
  proof (cases p)
    case (Some r)
    then have r: "first_longest (fresh_offsets c l) r" "3 \<le> length r" using p(2) by simp_all
    have "chain r" "sublist r (fresh_offsets c l)" using r(1) first_longest_sublist by (auto simp: first_longest_def)
    then show ?thesis using Some r(2) not_le by blast
  qed (use p(2) in simp)
  have some: "p = Some r \<longleftrightarrow> 3 \<le> length r \<and> first_longest (fresh_offsets c l) r" for r
  proof
    assume "3 \<le> length r \<and> first_longest (fresh_offsets c l) r"
    moreover from this none obtain r' where "p = Some r'" "first_longest (fresh_offsets c l) r'"
      using p(2) first_longest_sublist by (cases p) (auto simp: first_longest_def not_less)
    ultimately show "p = Some r" using first_longest_unique by blast
  qed (use p(2) in simp)
  show ?thesis
    by (rule exI [of _ p]) (simp only: p(1) none [symmetric] some simp_thms)
qed

text \<open>
  C19. Who can move the clock: on every reachable clock the offset in force is within 24 hours and is one
  of three things. It is a network offset still fresh; or, without one, it is the median of a run of at least
  three samples of the last 30 minutes that agree (neighbours within 60 s), the first of the longest such runs,
  each sample from a contact that is trusted now; or, without such a run, it is 0. In particular a stranger's
  sample is refused and leaves the clock as it was.
\<close>

theorem offset_needs_network_or_quorum:
  assumes "clock_reach c" and "i64_min + 1800000 \<le> l" and "l \<le> i64_max"
  shows "\<exists>x. effective_offset c l = Some x \<and> \<bar>x\<bar> \<le> 86400000
    \<and> (ck_network_offset_ms c = Some x \<and> l \<le> ck_network_fresh_until c
       \<or> \<not> (ck_network_offset_ms c \<noteq> None \<and> l \<le> ck_network_fresh_until c)
         \<and> ((\<exists>r. chain r \<and> sublist r (fresh_offsets c l) \<and> first_longest (fresh_offsets c l) r
               \<and> 3 \<le> length r \<and> x = sort r ! (length r div 2))
           \<or> (\<forall>b. chain b \<longrightarrow> sublist b (fresh_offsets c l) \<longrightarrow> length b < 3) \<and> x = 0))
    \<and> {k. hm_contains (ck_peers c) k} \<subseteq> {k. is_trusted c k}
    \<and> (\<not> is_trusted c p \<longrightarrow> on_peer_exchange c p t1 t2 t3 t4 = (Inl UntrustedPeer, c))"
proof -
  have inv: "clock_inv c" by (rule clock_reach_inv [OF assms(1)])
  obtain x where x: "effective_offset c l = Some x" "in_day x"
    using effective_offset_in_day [OF inv assms(2,3)] by blast
  have "ck_network_offset_ms c = Some x \<and> l \<le> ck_network_fresh_until c
       \<or> \<not> (ck_network_offset_ms c \<noteq> None \<and> l \<le> ck_network_fresh_until c)
         \<and> ((\<exists>r. chain r \<and> sublist r (fresh_offsets c l) \<and> first_longest (fresh_offsets c l) r
               \<and> 3 \<le> length r \<and> x = sort r ! (length r div 2))
           \<or> (\<forall>b. chain b \<longrightarrow> sublist b (fresh_offsets c l) \<longrightarrow> length b < 3) \<and> x = 0)"
    using inv assms(2,3)
  proof (cases rule: effective_offset_cases)
    case (peers r)
    then have "chain r" "sublist r (fresh_offsets c l)" using first_longest_sublist by (auto simp: first_longest_def)
    then show ?thesis using peers x(1) by auto
  qed (use x(1) in auto)
  moreover have "\<bar>x\<bar> \<le> 86400000" using x(2) by (auto simp: in_day_def MAX_CORRECTION_MS_def)
  moreover have "{k. hm_contains (ck_peers c) k} \<subseteq> {k. is_trusted c k}"
    using inv by (auto simp: clock_inv_def is_trusted_def)
  ultimately show ?thesis using x(1) by (auto simp: on_peer_exchange_def)
qed

text \<open>
  C20. One network source alone never sets the clock: a reading sets the network offset only if the
  reading before it came from a different source and agrees within 5 s, the resulting offset is at most
  two minutes from the one in force, and at least ten minutes of local time have passed since the last
  adoption; the offset set is the average of the two readings.
\<close>

theorem network_adoption_needs_two_sources:
  assumes "clock_reach c" and "on_network_sync c s l n = Some c'" and "ck_network_offset_ms c' = Some x"
    and "ck_network_offset_ms c' \<noteq> ck_network_offset_ms c \<or> ck_last_network_adopted_at c' \<noteq> ck_last_network_adopted_at c"
  shows "\<exists>s' y. ck_pending_network c = Some (s', y) \<and> s' \<noteq> s \<and> \<bar>y - reading l n\<bar> \<le> 5000
    \<and> x = (y + reading l n) sdiv 2 \<and> \<bar>x - ck_last_offset_ms c\<bar> \<le> 120000
    \<and> ck_last_network_adopted_at c + 600000 \<le> l \<and> ck_last_network_adopted_at c' = l"
  using assms(2-4) unfolding network_sync_eq [OF clock_reach_inv [OF assms(1)]]
  by (auto simp: adoptable_def split: option.splits if_splits Option.bind_splits)

text \<open>
  While the offset in force stays the same, the reading never goes back: for every local time, even
  one far behind the earlier ones, the reading is at least the high-water mark and at least the reading
  before, and becomes the new mark.
\<close>

theorem reading_monotone_for_constant_offset:
  assumes "clock_reach c" and "in_i64 l" and "effective_offset c l = Some (ck_last_offset_ms c)"
  shows "\<exists>t c'. now c l = Some (t, c') \<and> uint (high_water_ms c) \<le> t \<and> t = uint (high_water_ms c')
    \<and> t = max (uint (high_water_ms c)) (max (i64_sat (l + ck_last_offset_ms c)) 0)
    \<and> ck_last_offset_ms c' = ck_last_offset_ms c"
  using now_result [OF clock_reach_inv [OF assms(1)] assms(3,2)] by (auto simp: high_water_ms_def)

text \<open>The effect of a run of operations on the time of the last adoption.\<close>

lemma apply_adopted:
  assumes "clock_inv c"
  shows "ck_last_network_adopted_at (clock_apply op c) = ck_last_network_adopted_at c
    \<or> ck_last_network_adopted_at c + 600000 \<le> ck_last_network_adopted_at (clock_apply op c)"
proof (cases op)
  case (Sync s l n)
  then show ?thesis
    by (auto simp: network_sync_eq [OF assms] adoptable_def split: option.splits if_splits Option.bind_splits)
next
  case (Now l)
  then show ?thesis
    by (auto simp: now_def Let_def split: option.split Option.bind_splits)
qed (auto simp: restore_high_water_def trust_peer_def distrust_peer_def on_peer_exchange_def Let_def)

text \<open>
  Network adoptions are at least ten minutes of local time apart: along any sequence of operations
  on a reachable clock, the time of the last adoption stays or moves forward by at least ten minutes at
  each change.
\<close>

theorem adoptions_ten_minutes_apart:
  assumes "clock_reach c" and "clock_step\<^sup>*\<^sup>* c c'"
  shows "ck_last_network_adopted_at c' = ck_last_network_adopted_at c
    \<or> ck_last_network_adopted_at c + 600000 \<le> ck_last_network_adopted_at c'"
  using assms(2)
proof (induction rule: rtranclp_induct)
  case base
  then show ?case by simp
next
  case (step d d')
  have "clock_inv d" using clock_reach_inv rtranclp_trans [OF assms(1) step.hyps(1)] .
  moreover obtain op where "d' = clock_apply op d" using step.hyps(2) by (auto elim: clock_stepE)
  ultimately show ?case using step.IH apply_adopted [of d op] by auto
qed

text \<open>
  C22. Reading and calibrating never overflow away from the ends of the range: on every reachable clock a
  reading at a local time 30 minutes above the start of the range returns, within the non-negative
  range of the type, and a calibration at a local time six hours below its end returns.
\<close>

theorem clock_never_overflows:
  assumes "clock_reach c" and "in_i64 l"
  shows "(i64_min + 1800000 \<le> l \<longrightarrow> (\<exists>t c'. now c l = Some (t, c') \<and> 0 \<le> t \<and> t \<le> i64_max))
    \<and> (l \<le> i64_max - 21600000 \<longrightarrow> on_network_sync c s l n \<noteq> None)"
proof -
  have inv: "clock_inv c" by (rule clock_reach_inv [OF assms(1)])
  have "\<exists>t c'. now c l = Some (t, c') \<and> 0 \<le> t \<and> t \<le> i64_max" if low: "i64_min + 1800000 \<le> l"
  proof -
    obtain x where x: "effective_offset c l = Some x"
      using effective_offset_in_day [OF inv low] assms(2) by (auto simp: in_i64_def)
    obtain rb w where "now c l = Some (uint w, c\<lparr>ck_local_high_water_ms := max (ck_local_high_water_ms c) l,
      ck_rollback_detected := rb, ck_last_offset_ms := x, ck_internal_high_water_ms := w\<rparr>)"
      using now_result [OF inv x assms(2)] by blast
    then show ?thesis using now_inv [OF inv assms(2)] by (fastforce simp: clock_inv_def)
  qed
  moreover have "on_network_sync c s l n \<noteq> None" if "l \<le> i64_max - 21600000"
    using that assms(2) by (auto simp: network_sync_eq [OF inv] i64_chk_def in_i64_def NETWORK_FRESH_MS_def
        split: option.split)
  ultimately show ?thesis by blast
qed

text \<open>
  Setting the system clock back can set the internal clock back: two network sources agree on an
  offset of one second; seven hours later it has expired and the clock reads seven hours; the system
  clock is then set back to one hour, where the expired offset is fresh again, the offset in force
  changes, the high-water mark is reset, and the clock reads one hour and a second, although the
  rollback is detected.
\<close>

theorem rollback_into_fresh_window_sets_the_clock_back:
  "clock_reach demo_clock \<and> high_water_ms demo_clock = 25200000
   \<and> (\<exists>c'. now demo_clock 3600000 = Some (3601000, c') \<and> ck_rollback_detected c')"
  using demo_clock_reach by (simp add: demo_clock_eq) (simp add: clock_eval)

text \<open>Two groups of three: the first one, in the order of the offsets, wins, and its middle sample is the offset.\<close>

theorem peer_consensus_is_longest_chain_witness:
  "fresh_offsets demo_vote 1000 = [0, 10, 20, 500000, 500010, 500020] \<and> peak_cluster demo_vote 1000 = Some (Some [0, 10, 20])"
proof -
  obtain p where p: "peak_cluster demo_vote 1000 = Some p"
    "p = Some [0, 10, 20] \<longleftrightarrow> 3 \<le> length [0, 10, 20 :: int] \<and> first_longest (fresh_offsets demo_vote 1000) [0, 10, 20]"
    using peer_consensus_is_longest_chain [OF demo_vote_reach, of 1000]
    by (auto simp: i64_min_def i64_max_def)
  then show ?thesis using demo_vote_offsets first_two_groups by simp
qed

theorem offset_needs_network_or_quorum_witness:
  "effective_offset demo_vote 1000 = Some 10 \<and> ck_network_offset_ms demo_vote = None"
proof -
  have none: "ck_network_offset_ms demo_vote = None" by (simp add: demo_vote_eq clock_new_def clock_default_def)
  obtain x where x: "effective_offset demo_vote 1000 = Some x"
    "(\<exists>r. chain r \<and> first_longest (fresh_offsets demo_vote 1000) r \<and> x = sort r ! (length r div 2))
     \<or> (\<forall>b. chain b \<longrightarrow> sublist b (fresh_offsets demo_vote 1000) \<longrightarrow> length b < 3)"
    using offset_needs_network_or_quorum [OF demo_vote_reach, of 1000 "[]" 0 0 0 0] none by (auto simp: i64_min_def i64_max_def)
  have first: "first_longest (fresh_offsets demo_vote 1000) [0, 10, 20]" using demo_vote_offsets first_two_groups by simp
  then have "\<not> (\<forall>b. chain b \<longrightarrow> sublist b (fresh_offsets demo_vote 1000) \<longrightarrow> length b < 3)"
    using first_longest_sublist [OF first] by (auto simp: first_longest_def intro!: exI [of _ "[0, 10, 20]"])
  then obtain r where "first_longest (fresh_offsets demo_vote 1000) r" "x = sort r ! (length r div 2)" using x(2) by blast
  then have "x = sort [0, 10, 20] ! (length [0, 10, 20 :: int] div 2)" using first_longest_unique [OF first] by blast
  then show ?thesis using x(1) none by simp
qed

theorem network_adoption_needs_two_sources_witness:
  "\<exists>s' y. ck_pending_network demo_synced = Some (s', y) \<and> s' \<noteq> 2 \<and> \<bar>y - reading 0 1000\<bar> \<le> 5000"
proof -
  have "on_network_sync demo_synced 2 0 1000 = Some (demo_synced\<lparr>ck_pending_network := None,
      ck_network_offset_ms := Some 1000, ck_network_fresh_until := 21600000, ck_last_network_adopted_at := 0\<rparr>)"
    by (simp add: demo_synced_def clock_eval)
  from network_adoption_needs_two_sources [OF demo_synced_reach this] show ?thesis
    by (auto simp: demo_synced_def clock_eval)
qed

theorem reading_monotone_for_constant_offset_witness:
  "\<exists>t c'. now clock_new 5 = Some (t, c') \<and> t = uint (high_water_ms c')"
proof -
  have "effective_offset clock_new 5 = Some (ck_last_offset_ms clock_new)"
    by (simp add: clock_eval PEER_QUORUM_def)
  from reading_monotone_for_constant_offset [OF _ _ this] show ?thesis
    by (auto simp: in_i64_def i64_min_def i64_max_def)
qed

theorem adoptions_ten_minutes_apart_witness:
  "ck_last_network_adopted_at demo_clock = ck_last_network_adopted_at clock_new
    \<or> ck_last_network_adopted_at clock_new + 600000 \<le> ck_last_network_adopted_at demo_clock"
  by (rule adoptions_ten_minutes_apart [OF rtranclp.rtrancl_refl demo_clock_reach])

theorem clock_never_overflows_witness:
  "(\<exists>t c'. now demo_clock 3600000 = Some (t, c') \<and> 0 \<le> t) \<and> on_network_sync demo_clock 7 3600000 5 \<noteq> None"
  using clock_never_overflows [OF demo_clock_reach, of 3600000 7 5] by (auto simp: in_i64_def i64_min_def i64_max_def)

text \<open>
  Confirming an offset too early withdraws it: when two sources agree, within ten minutes of the last
  adoption, on exactly the offset that is in force, the clock does not merely ignore the pair but falls
  back to what it would read without any network time.
\<close>

theorem confirmation_in_cooldown_withdraws_the_offset:
  assumes "clock_reach c" and "ck_network_offset_ms c = Some x" and "ck_pending_network c = Some (s', x)"
    and "s' \<noteq> s" and "reading l n = x" and "l < ck_last_network_adopted_at c + 600000"
  shows "\<exists>c'. on_network_sync c s l n = Some c' \<and> ck_network_offset_ms c' = None
    \<and> (\<forall>l'. effective_offset c' l' = effective_offset (c\<lparr>ck_network_offset_ms := None\<rparr>) l')"
  using assms network_sync_eq [OF clock_reach_inv [OF assms(1)], of s l n]
  by (simp add: adoptable_def effective_offset_def peak_cluster_def drop_network_def)

theorem confirmation_in_cooldown_withdraws_the_offset_witness:
  "effective_offset demo_confirmed 60000 = Some 1000
    \<and> (\<exists>c'. on_network_sync demo_confirmed 2 60000 61000 = Some c' \<and> ck_network_offset_ms c' = None)"
proof -
  have eq: "demo_confirmed = clock_new\<lparr>ck_network_offset_ms := Some 1000, ck_network_fresh_until := 21600000,
      ck_last_network_adopted_at := 0, ck_pending_network := Some (1, 1000)\<rparr>"
    by (simp add: demo_confirmed_def demo_synced_def clock_eval)
  have "clock_reach demo_confirmed"
    unfolding demo_confirmed_def
    by (intro clock_reach_apply demo_synced_reach)
      (simp_all add: in_i64_def i64_min_def i64_max_def)
  from confirmation_in_cooldown_withdraws_the_offset [OF this, of 1000 1 2 60000 61000] show ?thesis
    by (auto simp: eq clock_eval)
qed

end
