(* ===== verification/Adaptive.thy ===== *)
theory Adaptive
  imports Complex_Main Prelude
begin

text \<open>
  \<^verbatim>\<open>crates/core/src/adaptive.rs\<close>: the policy engine that picks a load tier from the group size and the
  message rate. Promotion is immediate, demotion is one level after a number of consecutive lower samples.

  A finite \<^verbatim>\<open>f32\<close> is the rational it stands for (the two zeros are one value, as for every comparison of
  this file). The only arithmetic, \<^verbatim>\<open>rate_medium * 4.0\<close>, is exact unless it leaves the range of the
  format, where it is an infinity: scaling a binary floating-point number up by a power of two keeps its
  mantissa.
\<close>

section \<open>Single-precision values\<close>

datatype f32 = NaN | PInf | NInf | Fin rat

fun is_finite :: "f32 \<Rightarrow> bool" where
  "is_finite (Fin _) = True"
| "is_finite _ = False"

text \<open>\<^verbatim>\<open>a > b\<close>: false as soon as one side is not a number.\<close>

fun f32_gt :: "f32 \<Rightarrow> f32 \<Rightarrow> bool" where
  "f32_gt (Fin a) (Fin b) = (a > b)"
| "f32_gt PInf (Fin b) = True"
| "f32_gt PInf NInf = True"
| "f32_gt (Fin a) NInf = True"
| "f32_gt _ _ = False"

text \<open>\<^verbatim>\<open>x * 4.0\<close>; \<open>2 ^ 128\<close> is the first power of two beyond the largest finite value.\<close>

fun f32_times4 :: "f32 \<Rightarrow> f32" where
  "f32_times4 (Fin a) = (if 4 * a \<ge> 2 ^ 128 then PInf else if 4 * a \<le> - (2 ^ 128) then NInf else Fin (4 * a))"
| "f32_times4 x = x"

section \<open>Tiers and thresholds\<close>

datatype tier = Light | Medium | Heavy

fun tier_rank :: "tier \<Rightarrow> nat" where
  "tier_rank Light = 0"
| "tier_rank Medium = 1"
| "tier_rank Heavy = 2"

text \<open>\<^verbatim>\<open>derive(PartialOrd, Ord)\<close>: the order of the variants.\<close>

instantiation tier :: linorder
begin

definition less_eq_tier :: "tier \<Rightarrow> tier \<Rightarrow> bool" where
  "less_eq_tier a b \<longleftrightarrow> tier_rank a \<le> tier_rank b"

definition less_tier :: "tier \<Rightarrow> tier \<Rightarrow> bool" where
  "less_tier a b \<longleftrightarrow> tier_rank a < tier_rank b"

instance
proof
  fix x y :: tier
  show "x \<le> y \<Longrightarrow> y \<le> x \<Longrightarrow> x = y"
    by (cases x; cases y) (simp_all add: less_eq_tier_def)
qed (auto simp: less_eq_tier_def less_tier_def)

end

text \<open>\<^verbatim>\<open>as_str\<close>: the labels of the user interface, in the UTF-8 bytes of the source.\<close>

fun tier_as_str :: "tier \<Rightarrow> bytes" where
  "tier_as_str Light = [0xE8, 0xBD, 0xBB, 0xE8, 0xBD, 0xBD]"
| "tier_as_str Medium = [0xE4, 0xB8, 0xAD, 0xE8, 0xBD, 0xBD]"
| "tier_as_str Heavy = [0xE9, 0x87, 0x8D, 0xE8, 0xBD, 0xBD]"

definition DEFAULT_GROUP_MEDIUM :: u32 where "DEFAULT_GROUP_MEDIUM = 50"
definition DEFAULT_RATE_MEDIUM :: f32 where "DEFAULT_RATE_MEDIUM = Fin 20"
definition DEFAULT_DEMOTE_SAMPLES :: u32 where "DEFAULT_DEMOTE_SAMPLES = 5"

record thresholds =
  th_group_medium :: u32
  th_rate_medium :: f32
  th_demote_samples :: u32

definition th_default :: thresholds where
  "th_default = \<lparr>th_group_medium = DEFAULT_GROUP_MEDIUM, th_rate_medium = DEFAULT_RATE_MEDIUM,
     th_demote_samples = DEFAULT_DEMOTE_SAMPLES\<rparr>"

record metrics =
  mt_group_size :: u32
  mt_msg_rate :: f32

record policy_engine =
  pe_thresholds :: thresholds
  pe_locked :: "tier option"
  pe_current :: tier
  pe_below_count :: u32

definition pe_new :: "thresholds \<Rightarrow> policy_engine" where
  "pe_new th = \<lparr>pe_thresholds = th, pe_locked = None, pe_current = Light, pe_below_count = 0\<rparr>"

section \<open>The engine\<close>

definition pe_tier :: "policy_engine \<Rightarrow> tier" where
  "pe_tier e = (case pe_locked e of Some t \<Rightarrow> t | None \<Rightarrow> pe_current e)"

definition demanded :: "policy_engine \<Rightarrow> metrics \<Rightarrow> tier" where
  "demanded e m =
     (let t = pe_thresholds e;
          rate = (if is_finite (mt_msg_rate m) then mt_msg_rate m else PInf);
          high_load = mt_group_size m > th_group_medium t \<or> f32_gt rate (th_rate_medium t);
          extreme_load = mt_group_size m > sat_mul (th_group_medium t) 4
            \<or> f32_gt rate (f32_times4 (th_rate_medium t))
      in if extreme_load then Heavy else if high_load then Medium else Light)"

fun demote :: "tier \<Rightarrow> tier" where
  "demote Heavy = Medium"
| "demote Medium = Light"
| "demote Light = Light"

text \<open>\<open>None\<close> is the overflow of \<^verbatim>\<open>below_count += 1\<close>.\<close>

definition observe :: "policy_engine \<Rightarrow> metrics \<Rightarrow> (tier \<times> policy_engine) option" where
  "observe e m =
     (if pe_locked e \<noteq> None then Some (pe_tier e, e)
      else let want = demanded e m in
        if want > pe_current e then
          let e' = e\<lparr>pe_current := want, pe_below_count := 0\<rparr> in Some (pe_current e', e')
        else if want < pe_current e then do {
          n \<leftarrow> chk_add (pe_below_count e) 1;
          let e' = e\<lparr>pe_below_count := n\<rparr>;
          let e'' = (if n \<ge> th_demote_samples (pe_thresholds e)
                     then e'\<lparr>pe_current := demote (pe_current e), pe_below_count := 0\<rparr> else e');
          Some (pe_current e'', e'')
        }
        else let e' = e\<lparr>pe_below_count := 0\<rparr> in Some (pe_current e', e'))"

section \<open>Runs\<close>

fun observe_all :: "policy_engine \<Rightarrow> metrics list \<Rightarrow> policy_engine option" where
  "observe_all e [] = Some e"
| "observe_all e (m # ms) = do { (_, e') \<leftarrow> observe e m; observe_all e' ms }"

definition pe_inv :: "policy_engine \<Rightarrow> bool" where
  "pe_inv e \<longleftrightarrow> pe_below_count e = 0 \<or> pe_below_count e < th_demote_samples (pe_thresholds e)"

section \<open>Properties\<close>

lemma tier_less [simp]: "Light < Medium" "Medium < Heavy" "Light < Heavy" "\<not> x < Light" "\<not> Heavy < x"
  by (cases x; simp add: less_tier_def)+

lemma tier_le [simp]: "Light \<le> x" "x \<le> Heavy"
  by (cases x; simp add: less_eq_tier_def)+

lemma count_step:
  assumes "pe_inv e"
  shows "\<exists>n. chk_add (pe_below_count e) 1 = Some n \<and> unat n = unat (pe_below_count e) + 1"
proof -
  have "unat (pe_below_count e) + 1 < 2 ^ LENGTH(32)"
    using assms unat_bound [of "th_demote_samples (pe_thresholds e)"]
    by (auto simp: pe_inv_def word_less_nat_alt)
  then show ?thesis by (simp add: chk_add_def unat_plus_no_overflow)
qed

lemma observe_returns:
  assumes "pe_inv e"
  shows "\<exists>t e'. observe e m = Some (t, e') \<and> pe_inv e' \<and> pe_thresholds e' = pe_thresholds e
    \<and> pe_locked e' = pe_locked e \<and> t = pe_tier e'"
proof (cases "pe_locked e = None \<and> demanded e m < pe_current e")
  case True
  obtain n where "chk_add (pe_below_count e) 1 = Some n" using count_step [OF assms] by blast
  then show ?thesis using True by (auto simp: observe_def Let_def pe_inv_def pe_tier_def not_le)
next
  case False
  then show ?thesis using assms by (auto simp: observe_def Let_def pe_inv_def pe_tier_def split: option.splits)
qed

text \<open>
  C38. The engine answers every sample and never under-provisions: starting from a new engine, every
  sequence of samples is processed without overflow; each observation leaves the tier at least at what
  the sample demands or at most one level lower than before; and a locked engine keeps its tier.
\<close>

theorem engine_promotes_at_once_and_demotes_by_one:
  "\<exists>e t e'. observe_all (pe_new th) ms = Some e \<and> observe (e\<lparr>pe_locked := lock\<rparr>) m = Some (t, e')
    \<and> (case lock of
         Some l \<Rightarrow> t = l \<and> e' = e\<lparr>pe_locked := lock\<rparr>
       | None \<Rightarrow> t = pe_current e' \<and> (if demanded e m \<ge> pe_current e then t = demanded e m
           else t = pe_current e \<or> t = demote (pe_current e)))"
proof -
  have run: "\<exists>e'. observe_all e ms = Some e' \<and> pe_inv e' \<and> pe_locked e' = pe_locked e" if "pe_inv e" for e
    using that
  proof (induction ms arbitrary: e)
    case (Cons m ms)
    obtain t e1 where "observe e m = Some (t, e1)" "pe_inv e1" "pe_locked e1 = pe_locked e"
      using observe_returns [OF Cons.prems] by blast
    then show ?case using Cons.IH [of e1] by auto
  qed simp
  have "pe_inv (pe_new th)" by (simp add: pe_inv_def pe_new_def)
  from run [OF this] obtain e where e: "observe_all (pe_new th) ms = Some e" "pe_inv e" "pe_locked e = None"
    by (auto simp: pe_new_def)
  have same: "demanded (e\<lparr>pe_locked := l\<rparr>) m = demanded e m" for l by (simp add: demanded_def)
  obtain n where "chk_add (pe_below_count e) 1 = Some n" using count_step [OF e(2)] by blast
  then show ?thesis
    using e by (cases lock) (auto simp: observe_def Let_def pe_tier_def same not_less not_le split: if_splits)
qed

text \<open>
  Corrupt rates fail safe: with any finite rate threshold below \<open>2 ^ 126\<close>, a rate that is not a
  number or is infinite demands the heaviest tier, whatever the group size.
\<close>

theorem non_finite_rate_demands_heavy:
  assumes "th_rate_medium (pe_thresholds e) = Fin r" and "r < 2 ^ 126" and "\<not> is_finite (mt_msg_rate m)"
  shows "demanded e m = Heavy"
proof -
  have "\<not> 4 * r \<ge> 2 ^ 128" using assms(2) by simp
  then show ?thesis using assms(1,3) by (simp add: demanded_def Let_def)
qed

theorem non_finite_rate_demands_heavy_witness:
  "demanded (pe_new th_default) \<lparr>mt_group_size = 2, mt_msg_rate = NaN\<rparr> = Heavy"
  by (rule non_finite_rate_demands_heavy [where r = 20])
    (simp_all add: pe_new_def th_default_def DEFAULT_RATE_MEDIUM_def)

lemma lower_sample:
  assumes "pe_locked e = None" and "demanded e m < pe_current e" and "unat (pe_below_count e) = k"
    and "Suc k \<le> max 1 (unat (th_demote_samples (pe_thresholds e)))"
  shows "\<exists>t e'. observe e m = Some (t, e') \<and> pe_thresholds e' = pe_thresholds e \<and> pe_locked e' = None
    \<and> (if Suc k = max 1 (unat (th_demote_samples (pe_thresholds e)))
       then pe_current e' = demote (pe_current e) \<and> pe_below_count e' = 0
       else pe_current e' = pe_current e \<and> unat (pe_below_count e') = Suc k)"
proof -
  let ?d = "th_demote_samples (pe_thresholds e)"
  have "Suc k < 2 ^ LENGTH(32)" using assms(4) unat_bound [of ?d] by simp
  then have n: "chk_add (pe_below_count e) 1 = Some (pe_below_count e + 1)" "unat (pe_below_count e + 1) = Suc k"
    using assms(3) by (simp_all add: chk_add_def unat_plus_no_overflow)
  have "?d \<le> pe_below_count e + 1 \<longleftrightarrow> Suc k = max 1 (unat ?d)"
    using assms(4) n(2) by (auto simp: word_le_nat_alt)
  then show ?thesis
    using assms(1,2) n by (auto simp: observe_def Let_def not_less dest: less_not_sym)
qed

text \<open>
  Demotion takes exactly the configured number of samples: from an unlocked engine whose count is
  zero, fewer than that many consecutive lower samples (at least one) leave the tier as it is, and
  exactly that many lower it by one level.
\<close>

theorem demotion_after_exact_samples:
  assumes "pe_locked e = None" and "pe_below_count e = 0" and "\<forall>m \<in> set ms. demanded e m < pe_current e"
    and "length ms \<le> max 1 (unat (th_demote_samples (pe_thresholds e)))"
  shows "\<exists>e'. observe_all e ms = Some e'
    \<and> pe_current e' = (if length ms = max 1 (unat (th_demote_samples (pe_thresholds e)))
        then demote (pe_current e) else pe_current e)"
proof -
  have "\<exists>e'. observe_all e ms = Some e'
      \<and> pe_current e' = (if k + length ms = max 1 (unat (th_demote_samples (pe_thresholds e)))
        then demote (pe_current e) else pe_current e)"
    if "pe_locked e = None" "unat (pe_below_count e) = k" "\<forall>m \<in> set ms. demanded e m < pe_current e"
      "k + length ms \<le> max 1 (unat (th_demote_samples (pe_thresholds e)))"
      "k < max 1 (unat (th_demote_samples (pe_thresholds e)))" for k e
    using that
  proof (induction ms arbitrary: e k)
    case Nil
    then show ?case by auto
  next
    case (Cons m ms)
    let ?d = "max 1 (unat (th_demote_samples (pe_thresholds e)))"
    obtain t e' where e': "observe e m = Some (t, e')" "pe_thresholds e' = pe_thresholds e" "pe_locked e' = None"
      "if Suc k = ?d then pe_current e' = demote (pe_current e) \<and> pe_below_count e' = 0
       else pe_current e' = pe_current e \<and> unat (pe_below_count e') = Suc k"
      using lower_sample [of e m k] Cons.prems by auto
    show ?case
    proof (cases "Suc k = ?d")
      case True
      then have "ms = []" using Cons.prems(4) by (cases ms) auto
      then show ?thesis using e' True by simp
    next
      case False
      have "demanded e' x = demanded e x" for x by (simp add: demanded_def e'(2))
      then have "\<exists>e''. observe_all e' ms = Some e'' \<and> pe_current e'' =
          (if Suc k + length ms = max 1 (unat (th_demote_samples (pe_thresholds e')))
           then demote (pe_current e') else pe_current e')"
        using False e' Cons.prems by (intro Cons.IH) auto
      moreover have "pe_current e' = pe_current e" using e'(4) False by simp
      ultimately show ?thesis using e'(1,2) by auto
    qed
  qed
  from this [of e 0] show ?thesis using assms by auto
qed

theorem demotion_after_exact_samples_witness:
  "\<exists>e'. observe_all ((pe_new th_default)\<lparr>pe_current := Heavy\<rparr>)
      (replicate 5 \<lparr>mt_group_size = 2, mt_msg_rate = Fin 1\<rparr>) = Some e' \<and> pe_current e' = Medium"
  using demotion_after_exact_samples [of "(pe_new th_default)\<lparr>pe_current := Heavy\<rparr>"
      "replicate 5 \<lparr>mt_group_size = 2, mt_msg_rate = Fin 1\<rparr>"]
  by (simp add: pe_new_def th_default_def demanded_def DEFAULT_RATE_MEDIUM_def DEFAULT_GROUP_MEDIUM_def
      DEFAULT_DEMOTE_SAMPLES_def sat_mul_def)

end
