(* ===== verification/Settings.thy ===== *)
theory Settings
  imports Adaptive Strings
begin

text \<open>
  \<^verbatim>\<open>crates/core/src/settings.rs\<close>: the settings and their JSON file. The file system is a map from paths to
  contents. Parameters: the JSON writer and reader (\<^verbatim>\<open>serde_json\<close>; the reader gives \<open>None\<close> on any error,
  since the code drops it), and the outcomes of creating the directory and writing the file. A write
  that fails may leave anything behind.
\<close>

section \<open>Data\<close>

datatype theme_mode = FollowSystem | LightTheme | DarkTheme

datatype channel_kind = Bluetooth | Lan | Direct | Relay | Tor

datatype proxy_mode = NoProxy | Http | Socks

datatype channel_priority = ChannelPriority "channel_kind list"

definition channel_priority_default :: channel_priority where
  "channel_priority_default = ChannelPriority [Bluetooth, Lan, Direct, Relay, Tor]"

record proxy_cfg =
  px_mode :: proxy_mode
  px_host :: string
  px_port :: u16
  px_bypass :: "channel_kind list"

definition proxy_cfg_default :: proxy_cfg where
  "proxy_cfg_default = \<lparr>px_mode = NoProxy, px_host = [], px_port = 0, px_bypass = []\<rparr>"

record node_service_cfg =
  ns_enabled :: bool
  ns_scope :: u8
  ns_only_when_charging :: bool
  ns_only_on_unmetered :: bool
  ns_data_cap_mb :: "u32 option"

definition node_service_cfg_default :: node_service_cfg where
  "node_service_cfg_default = \<lparr>ns_enabled = True, ns_scope = 1, ns_only_when_charging = True,
     ns_only_on_unmetered = True, ns_data_cap_mb = Some 200\<rparr>"

record appearance_cfg =
  ap_theme :: theme_mode
  ap_dynamic_color :: bool
  ap_reduced_motion :: bool

definition appearance_cfg_default :: appearance_cfg where
  "appearance_cfg_default = \<lparr>ap_theme = FollowSystem, ap_dynamic_color = True, ap_reduced_motion = False\<rparr>"

record privacy_cfg =
  pv_show_receipts :: bool
  pv_show_typing :: bool
  pv_link_preview :: bool
  pv_screenshot_block :: bool

definition privacy_cfg_default :: privacy_cfg where
  "privacy_cfg_default = \<lparr>pv_show_receipts = True, pv_show_typing = True, pv_link_preview = False,
     pv_screenshot_block = True\<rparr>"

record adaptive_cfg =
  ad_enabled :: bool
  ad_thresholds :: thresholds

definition adaptive_cfg_default :: adaptive_cfg where
  "adaptive_cfg_default = \<lparr>ad_enabled = True, ad_thresholds = th_default\<rparr>"

record settings =
  st_appearance :: appearance_cfg
  st_channel_priority :: channel_priority
  st_proxy :: proxy_cfg
  st_node_service :: node_service_cfg
  st_adaptive :: adaptive_cfg
  st_privacy :: privacy_cfg
  st_bluetooth_switch_seconds :: u32
  st_strict_crypto :: bool

definition settings_default :: settings where
  "settings_default = \<lparr>st_appearance = appearance_cfg_default, st_channel_priority = channel_priority_default,
     st_proxy = proxy_cfg_default, st_node_service = node_service_cfg_default, st_adaptive = adaptive_cfg_default,
     st_privacy = privacy_cfg_default, st_bluetooth_switch_seconds = 10, st_strict_crypto = True\<rparr>"

section \<open>The file\<close>

type_synonym fs = "string \<rightharpoonup> bytes"

text \<open>\<^verbatim>\<open>Path::join\<close> with a relative name, on Unix.\<close>

definition settings_file :: "string \<Rightarrow> string" where
  "settings_file dir = (if dir = [] \<or> last dir = CHR ''/'' then dir @ ''settings.json'' else dir @ ''/settings.json'')"

definition save_settings :: "(settings \<Rightarrow> string + bytes) \<Rightarrow> string option \<Rightarrow> (string \<times> bytes option) option
    \<Rightarrow> settings \<Rightarrow> string \<Rightarrow> fs \<Rightarrow> unit result \<times> fs" where
  "save_settings to_json mkdir wr s dir m =
     (case mkdir of Some e \<Rightarrow> (Inl (Io e), m) | None \<Rightarrow>
      case to_json s of Inl e \<Rightarrow> (Inl (Config e), m) | Inr json \<Rightarrow>
      case wr of
        Some (e, left) \<Rightarrow> (Inl (Io e), m(settings_file dir := left))
      | None \<Rightarrow> (Inr (), m(settings_file dir \<mapsto> json)))"

text \<open>\<^verbatim>\<open>std::fs::read\<close>: \<open>rd\<close> is the error of the file system on the file, if there is one; a missing file is an error too.\<close>

definition fs_read :: "string option \<Rightarrow> string \<Rightarrow> fs \<Rightarrow> string + bytes" where
  "fs_read rd path m =
     (case rd of Some e \<Rightarrow> Inl e
      | None \<Rightarrow> (case m path of Some bytes \<Rightarrow> Inr bytes | None \<Rightarrow> Inl ''not found''))"

definition load_or_default :: "(bytes \<Rightarrow> settings option) \<Rightarrow> string option \<Rightarrow> string \<Rightarrow> fs \<Rightarrow> settings" where
  "load_or_default from_json rd dir m =
     (case fs_read rd (settings_file dir) m of
        Inr bytes \<Rightarrow> (case from_json bytes of Some s \<Rightarrow> s | None \<Rightarrow> settings_default)
      | Inl _ \<Rightarrow> settings_default)"

section \<open>Properties\<close>

text \<open>
  C40. Settings survive a restart: settings that the JSON coder reads back, saved without an error, are
  what the next start loads from that directory if it can read the file; a save that fails before the write
  changes nothing; and a file that is missing, that cannot be read, or that does not parse gives the defaults,
  which keep the strict encryption mode on and link previews off. No other file is touched in any case.
\<close>

theorem settings_survive_a_restart:
  assumes "\<And>b. to_json s = Inr b \<Longrightarrow> from_json b = Some s"
    and "save_settings to_json mkdir wr s dir m = (res, m')"
  shows "(res = Inr () \<longrightarrow> load_or_default from_json None dir m' = s)
    \<and> (mkdir \<noteq> None \<or> (\<exists>e. to_json s = Inl e) \<longrightarrow> (\<exists>e. res = Inl e) \<and> m' = m)
    \<and> (rd \<noteq> None \<or> m' (settings_file dir) = None \<or> (\<exists>b. m' (settings_file dir) = Some b \<and> from_json b = None)
        \<longrightarrow> load_or_default from_json rd dir m' = settings_default \<and> st_strict_crypto (load_or_default from_json rd dir m')
          \<and> \<not> pv_link_preview (st_privacy (load_or_default from_json rd dir m')))
    \<and> (p \<noteq> settings_file dir \<longrightarrow> m' p = m p)"
  using assms
  by (auto simp: save_settings_def load_or_default_def fs_read_def settings_default_def privacy_cfg_default_def
      split: option.splits sum.splits prod.splits)

theorem settings_survive_a_restart_witness:
  "load_or_default (\<lambda>b. if b = [1] then Some (settings_default\<lparr>st_bluetooth_switch_seconds := 3\<rparr>) else None) None ''/data''
     (snd (save_settings (\<lambda>s. Inr [1]) None None (settings_default\<lparr>st_bluetooth_switch_seconds := 3\<rparr>) ''/data'' Map.empty))
   = settings_default\<lparr>st_bluetooth_switch_seconds := 3\<rparr>
   \<and> load_or_default (\<lambda>b. if b = [1] then Some (settings_default\<lparr>st_bluetooth_switch_seconds := 3\<rparr>) else None)
       (Some ''permission denied'') ''/data''
     (snd (save_settings (\<lambda>s. Inr [1]) None None (settings_default\<lparr>st_bluetooth_switch_seconds := 3\<rparr>) ''/data'' Map.empty))
   = settings_default"
proof -
  let ?s = "settings_default\<lparr>st_bluetooth_switch_seconds := 3\<rparr>"
  obtain res m' where eq: "save_settings (\<lambda>s. Inr [1]) None None ?s ''/data'' Map.empty = (res, m')" by fastforce
  have "res = Inr ()" using eq by (simp add: save_settings_def)
  then show ?thesis
    using settings_survive_a_restart [OF _ eq, of "\<lambda>b. if b = [1] then Some ?s else None" "Some ''permission denied''" "[]"]
    by (simp add: eq)
qed

end
