(* ===== verification/Signal_Store.thy ===== *)
theory Signal_Store
  imports Sql
begin

text \<open>
  \<^verbatim>\<open>crates/core/src/signal_store.rs\<close>: the SQLite tables behind the five store traits of
  \<^verbatim>\<open>libsignal_protocol\<close>. The tables with a primary key are association lists: \<^verbatim>\<open>INSERT OR REPLACE\<close> is
  \<open>hm_insert\<close>, \<^verbatim>\<open>DELETE ... WHERE id = ?\<close> is \<open>hm_remove\<close>.

  Parameters: the codings of the library's keys and records (\<open>key_codec\<close>, \<open>rec_codec\<close>), and the outcome
  of the database calls (\<open>faults\<close>): for every trait method the even calls are the lock of the
  connection, the odd ones the statement.
\<close>

section \<open>Library types\<close>

text \<open>\<^verbatim>\<open>ProtocolAddress\<close>: name and device number.\<close>

type_synonym address = "string \<times> u8"

text \<open>
  \<^verbatim>\<open>SignalProtocolError\<close>: the two variants the crate names, and the others by their text.
\<close>

datatype sig_error =
    InvalidState string string
  | UntrustedIdentity address
  | Other_sig string

text \<open>\<^verbatim>\<open>IdentityChange\<close>, made by \<^verbatim>\<open>from_changed\<close>.\<close>

datatype identity_change = From_changed bool

record 'k key_codec =
  kc_serialize :: "'k \<Rightarrow> bytes"
  kc_try_from :: "bytes \<Rightarrow> sig_error + 'k"

record 'r rec_codec =
  rc_serialize :: "'r \<Rightarrow> sig_error + bytes"
  rc_deserialize :: "bytes \<Rightarrow> sig_error + 'r"

section \<open>Tables\<close>

record sig_db =
  sd_local :: "(bytes \<times> int) option"
  sd_trusted :: "(string \<times> int, bytes) hmap"
  sd_sessions :: "(string \<times> int, bytes) hmap"
  sd_pre_keys :: "(int, bytes) hmap"
  sd_signed :: "(int, bytes) hmap"
  sd_kyber :: "(int, bytes) hmap"

definition sd_empty :: sig_db where
  "sd_empty = \<lparr>sd_local = None, sd_trusted = [], sd_sessions = [], sd_pre_keys = [], sd_signed = [],
     sd_kyber = []\<rparr>"

definition SIGNAL_SCHEMA :: string where
  "SIGNAL_SCHEMA = ''
CREATE TABLE IF NOT EXISTS local_identity (
    id INTEGER PRIMARY KEY CHECK (id = 0),
    identity_pair BLOB NOT NULL,
    registration_id INTEGER NOT NULL
);
CREATE TABLE IF NOT EXISTS trusted_identities (
    name TEXT NOT NULL,
    device INTEGER NOT NULL,
    identity BLOB NOT NULL,
    PRIMARY KEY (name, device)
);
CREATE TABLE IF NOT EXISTS sessions (
    name TEXT NOT NULL,
    device INTEGER NOT NULL,
    record BLOB NOT NULL,
    PRIMARY KEY (name, device)
);
CREATE TABLE IF NOT EXISTS pre_keys (
    id INTEGER PRIMARY KEY,
    record BLOB NOT NULL
);
CREATE TABLE IF NOT EXISTS signed_pre_keys (
    id INTEGER PRIMARY KEY,
    record BLOB NOT NULL
);
CREATE TABLE IF NOT EXISTS kyber_pre_keys (
    id INTEGER PRIMARY KEY,
    record BLOB NOT NULL
);
''"

definition row_key :: "address \<Rightarrow> string \<times> int" where
  "row_key a = (fst a, uint (snd a))"

section \<open>Errors and statements\<close>

definition db_sig_err :: "string \<Rightarrow> string \<Rightarrow> sig_error" where
  "db_sig_err meth e = InvalidState meth e"

definition lock_err :: "string \<Rightarrow> sig_error" where
  "lock_err meth = InvalidState meth ''signal store mutex poisoned''"

definition with_conn :: "string \<Rightarrow> string option \<Rightarrow> string + 'a \<Rightarrow> sig_error + 'a" where
  "with_conn meth lock r = (case lock of Some _ \<Rightarrow> Inl (lock_err meth) | None \<Rightarrow> map_err (db_sig_err meth) r)"

text \<open>
  \<^verbatim>\<open>query_row\<close>: no row is an error; followed by \<^verbatim>\<open>optional()\<close> it is \<open>None\<close>. Then a statement that
  changes the tables.
\<close>

definition query_row :: "string option \<Rightarrow> 'a option \<Rightarrow> string + 'a" where
  "query_row fault row = (case fault of Some e \<Rightarrow> Inl e
     | None \<Rightarrow> (case row of None \<Rightarrow> Inl ''QueryReturnedNoRows'' | Some r \<Rightarrow> Inr r))"

definition query_opt :: "string option \<Rightarrow> 'a option \<Rightarrow> string + 'a option" where
  "query_opt fault row = (case fault of Some e \<Rightarrow> Inl e | None \<Rightarrow> Inr row)"

definition run_stmt :: "string \<Rightarrow> string option \<Rightarrow> string option \<Rightarrow> (sig_db \<Rightarrow> sig_db) \<Rightarrow> sig_db
    \<Rightarrow> (sig_error + unit) \<times> sig_db" where
  "run_stmt meth lock fault upd d =
     (case with_conn meth lock (guard_fault (\<lambda>e. e) fault) of
        Inl e \<Rightarrow> (Inl e, d)
      | Inr _ \<Rightarrow> (Inr (), upd d))"

section \<open>Opening and the local identity\<close>

definition sig_open :: "string option \<Rightarrow> (string \<Rightarrow> string option) \<Rightarrow> sig_db \<Rightarrow> string \<Rightarrow> string option
    \<Rightarrow> sig_db result" where
  "sig_open conn exec disk path key =
     (if key = None \<and> path \<noteq> '':memory:''
      then Inl (Db ''refusing to create unencrypted signal store: key required (strict mode)'')
      else try_res (guard_fault Db conn) (\<lambda>_.
        try_res (case key of Some k \<Rightarrow> guard_fault Db (exec (pragma_key k)) | None \<Rightarrow> Inr ()) (\<lambda>_.
        try_res (guard_fault Db (exec SIGNAL_SCHEMA)) (\<lambda>_.
        Inr (if path = '':memory:'' then sd_empty else disk)))))"

definition local_identity :: "faults \<Rightarrow> sig_db \<Rightarrow> (bytes \<times> u32) option result" where
  "local_identity f d =
     try_res (guard_fault Db (f 0)) (\<lambda>_.
     try_res (map_err Db (query_opt (f 1) (sd_local d))) (\<lambda>row.
     Inr (map_option (\<lambda>(pair, reg). (pair, word_of_int reg)) row)))"

definition save_local_identity :: "faults \<Rightarrow> sig_db \<Rightarrow> bytes \<Rightarrow> u32 \<Rightarrow> unit result \<times> sig_db" where
  "save_local_identity f d pair registration_id =
     (case f 0 of Some e \<Rightarrow> (Inl (Db e), d) | None \<Rightarrow>
      case f 1 of Some e \<Rightarrow> (Inl (Db e), d) | None \<Rightarrow>
        (Inr (), d\<lparr>sd_local := Some (pair, uint registration_id)\<rparr>))"

text \<open>
  \<^verbatim>\<open>next_prekey_id\<close>: the table is chosen by name; \<^verbatim>\<open>COALESCE(MAX(id), 0) + 1\<close>, then
  \<^verbatim>\<open>u32::try_from(next).unwrap_or(1)\<close>.
\<close>

definition prekey_table :: "sig_db \<Rightarrow> string \<Rightarrow> (int, bytes) hmap option" where
  "prekey_table d table =
     (if table = ''pre_keys'' then Some (sd_pre_keys d)
      else if table = ''signed_pre_keys'' then Some (sd_signed d)
      else if table = ''kyber_pre_keys'' then Some (sd_kyber d)
      else None)"

definition max_id_plus_one :: "(int, bytes) hmap \<Rightarrow> int" where
  "max_id_plus_one rows = (case rows of [] \<Rightarrow> 0 | r # rs \<Rightarrow> Max (set (map fst (r # rs)))) + 1"

definition next_prekey_id :: "faults \<Rightarrow> sig_db \<Rightarrow> string \<Rightarrow> u32 result" where
  "next_prekey_id f d table =
     (case prekey_table d table of
        None \<Rightarrow> Inl (Config ''unknown prekey table'')
      | Some rows \<Rightarrow>
          try_res (guard_fault Db (f 0)) (\<lambda>_.
          try_res (guard_fault Db (f 1)) (\<lambda>_.
          let next = max_id_plus_one rows in
          Inr (if 0 \<le> next \<and> next < 2 ^ 32 then word_of_int next else 1))))"

section \<open>Identities\<close>

definition get_identity_key_pair :: "(bytes \<Rightarrow> sig_error + 'i) \<Rightarrow> faults \<Rightarrow> sig_db \<Rightarrow> sig_error + 'i" where
  "get_identity_key_pair pair_of f d =
     try_res (with_conn ''get_identity_key_pair'' (f 0) (query_row (f 1) (map_option fst (sd_local d)))) pair_of"

definition get_local_registration_id :: "faults \<Rightarrow> sig_db \<Rightarrow> sig_error + u32" where
  "get_local_registration_id f d =
     with_conn ''get_local_registration_id'' (f 0)
       (try_res (query_row (f 1) (map_option snd (sd_local d))) (\<lambda>r. Inr (word_of_int r)))"

definition save_identity :: "'k key_codec \<Rightarrow> faults \<Rightarrow> sig_db \<Rightarrow> address \<Rightarrow> 'k
    \<Rightarrow> (sig_error + identity_change) \<times> sig_db" where
  "save_identity kc f d a identity =
     (case try_res (with_conn ''save_identity'' (f 0) (query_opt (f 1) (hm_get (sd_trusted d) (row_key a))))
        (\<lambda>existing. case existing of
           None \<Rightarrow> Inr ()
         | Some prev \<Rightarrow> try_res (kc_try_from kc prev) (\<lambda>k.
             if k \<noteq> identity
             then Inl (InvalidState ''save_identity'' (''refusing to overwrite identity for '' @ fst a
               @ '' device '' @ show_nat (unat (snd a)) @ '': key changed (re-scan QR to re-establish)''))
             else Inr ())) of
        Inl e \<Rightarrow> (Inl e, d)
      | Inr _ \<Rightarrow>
          (case run_stmt ''save_identity'' (f 2) (f 3)
             (sd_trusted_update (hm_insert (row_key a) (kc_serialize kc identity))) d of
             (Inl e, d') \<Rightarrow> (Inl e, d')
           | (Inr _, d') \<Rightarrow> (Inr (From_changed False), d')))"

definition is_trusted_identity :: "'k key_codec \<Rightarrow> faults \<Rightarrow> sig_db \<Rightarrow> address \<Rightarrow> 'k \<Rightarrow> sig_error + bool" where
  "is_trusted_identity kc f d a identity =
     try_res (with_conn ''is_trusted_identity'' (f 0) (query_opt (f 1) (hm_get (sd_trusted d) (row_key a))))
       (\<lambda>existing. case existing of
          None \<Rightarrow> Inr True
        | Some prev \<Rightarrow> try_res (kc_try_from kc prev) (\<lambda>k. Inr (k = identity)))"

definition get_identity :: "'k key_codec \<Rightarrow> faults \<Rightarrow> sig_db \<Rightarrow> address \<Rightarrow> sig_error + 'k option" where
  "get_identity kc f d a =
     try_res (with_conn ''get_identity'' (f 0) (query_opt (f 1) (hm_get (sd_trusted d) (row_key a))))
       (\<lambda>existing. case existing of
          None \<Rightarrow> Inr None
        | Some b \<Rightarrow> try_res (kc_try_from kc b) (\<lambda>k. Inr (Some k)))"

section \<open>Sessions\<close>

definition load_session :: "'s rec_codec \<Rightarrow> faults \<Rightarrow> sig_db \<Rightarrow> address \<Rightarrow> sig_error + 's option" where
  "load_session rc f d a =
     try_res (with_conn ''load_session'' (f 0) (query_opt (f 1) (hm_get (sd_sessions d) (row_key a))))
       (\<lambda>row. case row of
          None \<Rightarrow> Inr None
        | Some b \<Rightarrow> try_res (rc_deserialize rc b) (\<lambda>s. Inr (Some s)))"

definition store_session :: "'s rec_codec \<Rightarrow> faults \<Rightarrow> sig_db \<Rightarrow> address \<Rightarrow> 's \<Rightarrow> (sig_error + unit) \<times> sig_db" where
  "store_session rc f d a rec =
     (case rc_serialize rc rec of
        Inl e \<Rightarrow> (Inl e, d)
      | Inr b \<Rightarrow> run_stmt ''store_session'' (f 0) (f 1) (sd_sessions_update (hm_insert (row_key a) b)) d)"

section \<open>Prekeys\<close>

text \<open>The shape the three readers and the three writers share.\<close>

definition get_record :: "string \<Rightarrow> 'r rec_codec \<Rightarrow> faults \<Rightarrow> (int, bytes) hmap \<Rightarrow> u32 \<Rightarrow> sig_error + 'r" where
  "get_record meth rc f rows i =
     try_res (with_conn meth (f 0) (query_row (f 1) (hm_get rows (uint i)))) (rc_deserialize rc)"

definition save_record :: "string \<Rightarrow> 'r rec_codec \<Rightarrow> faults
    \<Rightarrow> (((int, bytes) hmap \<Rightarrow> (int, bytes) hmap) \<Rightarrow> sig_db \<Rightarrow> sig_db)
    \<Rightarrow> sig_db \<Rightarrow> u32 \<Rightarrow> 'r \<Rightarrow> (sig_error + unit) \<times> sig_db" where
  "save_record meth rc f upd d i rec =
     (case rc_serialize rc rec of
        Inl e \<Rightarrow> (Inl e, d)
      | Inr b \<Rightarrow> run_stmt meth (f 0) (f 1) (upd (hm_insert (uint i) b)) d)"

definition get_pre_key :: "'p rec_codec \<Rightarrow> faults \<Rightarrow> sig_db \<Rightarrow> u32 \<Rightarrow> sig_error + 'p" where
  "get_pre_key rc f d i = get_record ''get_pre_key'' rc f (sd_pre_keys d) i"

definition save_pre_key :: "'p rec_codec \<Rightarrow> faults \<Rightarrow> sig_db \<Rightarrow> u32 \<Rightarrow> 'p \<Rightarrow> (sig_error + unit) \<times> sig_db" where
  "save_pre_key rc f d i rec = save_record ''save_pre_key'' rc f sd_pre_keys_update d i rec"

definition remove_pre_key :: "faults \<Rightarrow> sig_db \<Rightarrow> u32 \<Rightarrow> (sig_error + unit) \<times> sig_db" where
  "remove_pre_key f d i = run_stmt ''remove_pre_key'' (f 0) (f 1) (sd_pre_keys_update (hm_remove (uint i))) d"

definition get_signed_pre_key :: "'g rec_codec \<Rightarrow> faults \<Rightarrow> sig_db \<Rightarrow> u32 \<Rightarrow> sig_error + 'g" where
  "get_signed_pre_key rc f d i = get_record ''get_signed_pre_key'' rc f (sd_signed d) i"

definition save_signed_pre_key :: "'g rec_codec \<Rightarrow> faults \<Rightarrow> sig_db \<Rightarrow> u32 \<Rightarrow> 'g \<Rightarrow> (sig_error + unit) \<times> sig_db" where
  "save_signed_pre_key rc f d i rec = save_record ''save_signed_pre_key'' rc f sd_signed_update d i rec"

definition get_kyber_pre_key :: "'q rec_codec \<Rightarrow> faults \<Rightarrow> sig_db \<Rightarrow> u32 \<Rightarrow> sig_error + 'q" where
  "get_kyber_pre_key rc f d i = get_record ''get_kyber_pre_key'' rc f (sd_kyber d) i"

definition save_kyber_pre_key :: "'q rec_codec \<Rightarrow> faults \<Rightarrow> sig_db \<Rightarrow> u32 \<Rightarrow> 'q \<Rightarrow> (sig_error + unit) \<times> sig_db" where
  "save_kyber_pre_key rc f d i rec = save_record ''save_kyber_pre_key'' rc f sd_kyber_update d i rec"

definition mark_kyber_pre_key_used :: "faults \<Rightarrow> sig_db \<Rightarrow> u32 \<Rightarrow> (sig_error + unit) \<times> sig_db" where
  "mark_kyber_pre_key_used f d i =
     run_stmt ''mark_kyber_pre_key_used'' (f 0) (f 1) (sd_kyber_update (hm_remove (uint i))) d"

section \<open>Runs of the trait methods\<close>

text \<open>The codings of one build of the library, and the trait methods that change the tables.\<close>

record ('k, 's, 'p, 'g, 'q) sig_codecs =
  sc_key :: "'k key_codec"
  sc_session :: "'s rec_codec"
  sc_pre_key :: "'p rec_codec"
  sc_signed :: "'g rec_codec"
  sc_kyber :: "'q rec_codec"

datatype ('k, 's, 'p, 'g, 'q) trait_op =
    Save_identity address 'k
  | Store_session address 's
  | Save_pre_key u32 'p
  | Remove_pre_key u32
  | Save_signed_pre_key u32 'g
  | Save_kyber_pre_key u32 'q
  | Mark_kyber_used u32

fun trait_apply :: "('k, 's, 'p, 'g, 'q) sig_codecs \<Rightarrow> faults \<Rightarrow> ('k, 's, 'p, 'g, 'q) trait_op \<Rightarrow> sig_db \<Rightarrow> sig_db" where
  "trait_apply c f (Save_identity a k) d = snd (save_identity (sc_key c) f d a k)"
| "trait_apply c f (Store_session a s) d = snd (store_session (sc_session c) f d a s)"
| "trait_apply c f (Save_pre_key i r) d = snd (save_pre_key (sc_pre_key c) f d i r)"
| "trait_apply c f (Remove_pre_key i) d = snd (remove_pre_key f d i)"
| "trait_apply c f (Save_signed_pre_key i r) d = snd (save_signed_pre_key (sc_signed c) f d i r)"
| "trait_apply c f (Save_kyber_pre_key i r) d = snd (save_kyber_pre_key (sc_kyber c) f d i r)"
| "trait_apply c f (Mark_kyber_used i) d = snd (mark_kyber_pre_key_used f d i)"

inductive trait_steps :: "('k, 's, 'p, 'g, 'q) sig_codecs \<Rightarrow> sig_db \<Rightarrow> sig_db \<Rightarrow> bool" for c where
  trait_refl: "trait_steps c d d"
| trait_step: "trait_steps c d d' \<Longrightarrow> trait_steps c d (trait_apply c f oper d')"

text \<open>The tables of a store: unique keys, and prekey ids and the registration id in range.\<close>

definition ids_ok :: "(int, bytes) hmap \<Rightarrow> bool" where
  "ids_ok rows \<longleftrightarrow> hm_wf rows \<and> (\<forall>i \<in> fst ` set rows. 0 \<le> i \<and> i < 2 ^ 32)"

definition sig_inv :: "sig_db \<Rightarrow> bool" where
  "sig_inv d \<longleftrightarrow> hm_wf (sd_trusted d) \<and> hm_wf (sd_sessions d) \<and> ids_ok (sd_pre_keys d)
     \<and> ids_ok (sd_signed d) \<and> ids_ok (sd_kyber d)
     \<and> (case sd_local d of None \<Rightarrow> True | Some (_, reg) \<Rightarrow> 0 \<le> reg \<and> reg < 2 ^ 32)"

definition pinned :: "'k key_codec \<Rightarrow> sig_db \<Rightarrow> address \<Rightarrow> 'k \<Rightarrow> bool" where
  "pinned kc d a k \<longleftrightarrow> (case hm_get (sd_trusted d) (row_key a) of None \<Rightarrow> False | Some b \<Rightarrow> kc_try_from kc b = Inr k)"

definition rec_storable :: "'r rec_codec \<Rightarrow> 'r \<Rightarrow> bool" where
  "rec_storable rc r \<longleftrightarrow> (\<exists>b. rc_serialize rc r = Inr b \<and> rc_deserialize rc b = Inr r)"

text \<open>A concrete build: keys are byte strings with a type byte in front, records their own bytes.\<close>

definition demo_key_codec :: "bytes key_codec" where
  "demo_key_codec = \<lparr>kc_serialize = (\<lambda>k. 5 # k),
     kc_try_from = (\<lambda>b. case b of [] \<Rightarrow> Inl (Other_sig ''no key type'') | _ # k \<Rightarrow> Inr k)\<rparr>"

definition demo_rec_codec :: "bytes rec_codec" where
  "demo_rec_codec = \<lparr>rc_serialize = Inr, rc_deserialize = Inr\<rparr>"

definition demo_codecs :: "(bytes, bytes, bytes, bytes, bytes) sig_codecs" where
  "demo_codecs = \<lparr>sc_key = demo_key_codec, sc_session = demo_rec_codec, sc_pre_key = demo_rec_codec,
     sc_signed = demo_rec_codec, sc_kyber = demo_rec_codec\<rparr>"

section \<open>Outcomes of the statements\<close>

named_theorems store_simps \<open>the branches of the store operations\<close>

lemma with_conn_simps [simp]:
  "with_conn m None r = map_err (db_sig_err m) r" "with_conn m (Some e) r = Inl (lock_err m)"
  by (simp_all add: with_conn_def)

lemma query_simps [simp]:
  "query_row None (Some x) = Inr x" "query_row None None = Inl ''QueryReturnedNoRows''"
  "query_row (Some e) r = Inl e" "query_opt None r = Inr r" "query_opt (Some e) r = Inl e"
  by (simp_all add: query_row_def query_opt_def)

lemma run_stmt_cases:
  "(\<exists>e. run_stmt m lock fault upd d = (Inl e, d)) \<or> run_stmt m lock fault upd d = (Inr (), upd d)"
  by (cases lock; cases fault) (simp_all add: run_stmt_def)

lemma run_stmt_ok [simp]: "run_stmt m None None upd d = (Inr (), upd d)"
  by (simp add: run_stmt_def)

lemma snd_run_stmt: "snd (run_stmt m lock fault upd d) \<in> {d, upd d}"
  using run_stmt_cases [of m lock fault upd d] by force

lemma snd_save_record: "\<exists>b. snd (save_record m rc f upd d i r) \<in> {d, upd (hm_insert (uint i) b) d}"
  by (auto simp: save_record_def split: sum.split) (meson snd_run_stmt insert_iff empty_iff)

lemma snd_store_session: "\<exists>b. snd (store_session rc f d a s) \<in> {d, sd_sessions_update (hm_insert (row_key a) b) d}"
  by (auto simp: store_session_def split: sum.split) (meson snd_run_stmt insert_iff empty_iff)

lemma row_key_inject [simp]: "row_key a = row_key b \<longleftrightarrow> a = b"
  by (auto simp: row_key_def prod_eq_iff intro: unsigned_word_eqI)

lemma hm_get_remove: "hm_get (hm_remove k m) = (hm_get m)(k := None)"
  by (simp add: hm_get_def [abs_def] hm_remove_def delete_conv')

lemma snd_save_identity:
  "snd (save_identity kc f d a k) \<in> {d, sd_trusted_update (hm_insert (row_key a) (kc_serialize kc k)) d}"
  using snd_run_stmt [of "''save_identity''" "f 2" "f 3"
      "sd_trusted_update (hm_insert (row_key a) (kc_serialize kc k))" d]
  by (auto simp: save_identity_def split: sum.split prod.split)


section \<open>The invariant of the tables\<close>

lemma hm_keys_insert: "fst ` set (hm_insert k v m) = insert k (fst ` set m)"
  by (simp add: hm_insert_def dom_update)

lemma hm_keys_remove: "fst ` set (hm_remove k m) = fst ` set m - {k}"
  by (auto simp: hm_remove_filter)

lemma ids_ok_insert: "ids_ok m \<Longrightarrow> ids_ok (hm_insert (uint (i :: u32)) b m)"
  using uint_lt2p [of i] by (simp add: ids_ok_def hm_laws hm_keys_insert)

lemma ids_ok_remove: "ids_ok m \<Longrightarrow> ids_ok (hm_remove i m)"
  by (auto simp: ids_ok_def hm_laws hm_keys_remove)

lemma trait_apply_cases:
  obtains "trait_apply c f oper d = d"
  | a b where "trait_apply c f oper d = sd_sessions_update (hm_insert (row_key a) b) d"
  | i b where "trait_apply c f oper d = sd_pre_keys_update (hm_insert (uint (i :: u32)) b) d"
  | i where "trait_apply c f oper d = sd_pre_keys_update (hm_remove (uint (i :: u32))) d"
  | i b where "trait_apply c f oper d = sd_signed_update (hm_insert (uint (i :: u32)) b) d"
  | i b where "trait_apply c f oper d = sd_kyber_update (hm_insert (uint (i :: u32)) b) d"
  | i where "trait_apply c f oper d = sd_kyber_update (hm_remove (uint (i :: u32))) d"
  | a k where "oper = Save_identity a k" "trait_apply c f oper d
      = sd_trusted_update (hm_insert (row_key a) (kc_serialize (sc_key c) k)) d"
proof (cases oper)
  case (Store_session a s)
  then obtain b where "trait_apply c f oper d = d \<or> trait_apply c f oper d = sd_sessions_update (hm_insert (row_key a) b) d"
    using snd_store_session [of "sc_session c" f d a s] by auto
  then show ?thesis using that(1,2) by blast
next
  case (Save_pre_key i r)
  with snd_save_record [of "''save_pre_key''" "sc_pre_key c" f sd_pre_keys_update d i r] that show ?thesis
    by (auto simp: save_pre_key_def)
next
  case (Save_signed_pre_key i r)
  with snd_save_record [of "''save_signed_pre_key''" "sc_signed c" f sd_signed_update d i r] that show ?thesis
    by (auto simp: save_signed_pre_key_def)
next
  case (Save_kyber_pre_key i r)
  with snd_save_record [of "''save_kyber_pre_key''" "sc_kyber c" f sd_kyber_update d i r] that show ?thesis
    by (auto simp: save_kyber_pre_key_def)
next
  case (Remove_pre_key i)
  with snd_run_stmt [of "''remove_pre_key''" "f 0" "f 1" "sd_pre_keys_update (hm_remove (uint i))" d] that
  show ?thesis by (auto simp: remove_pre_key_def)
next
  case (Mark_kyber_used i)
  with snd_run_stmt [of "''mark_kyber_pre_key_used''" "f 0" "f 1" "sd_kyber_update (hm_remove (uint i))" d] that
  show ?thesis by (auto simp: mark_kyber_pre_key_used_def)
next
  case (Save_identity a k)
  then have "trait_apply c f oper d = d
      \<or> trait_apply c f oper d = sd_trusted_update (hm_insert (row_key a) (kc_serialize (sc_key c) k)) d"
    using snd_save_identity [of "sc_key c" f d a k] by simp
  then show ?thesis using that(1,8) Save_identity by blast
qed

lemma trait_apply_inv: "sig_inv d \<Longrightarrow> sig_inv (trait_apply c f oper d)"
  by (cases rule: trait_apply_cases [of c f oper d])
    (auto simp: sig_inv_def hm_laws ids_ok_insert ids_ok_remove)

lemma trait_steps_inv: "trait_steps c d d' \<Longrightarrow> sig_inv d \<Longrightarrow> sig_inv d'"
  by (induction rule: trait_steps.induct) (auto intro: trait_apply_inv)

lemma trait_steps_local: "trait_steps c d d' \<Longrightarrow> sd_local d' = sd_local d"
proof (induction rule: trait_steps.induct)
  case (trait_step d d' f oper)
  then show ?case by (cases rule: trait_apply_cases [of c f oper d']) simp_all
qed simp

section \<open>Trust on first use\<close>

lemma get_identity_pinned: "get_identity kc (\<lambda>_. None) d a = Inr (Some k) \<longleftrightarrow> pinned kc d a k"
  by (auto simp: get_identity_def pinned_def result_simps split: option.splits)

lemma save_identity_pinned:
  "pinned kc d a k \<Longrightarrow> k' \<noteq> k \<Longrightarrow> \<exists>e. save_identity kc f d a k' = (Inl e, d)"
  by (cases "f 0"; cases "f 1") (auto simp: save_identity_def pinned_def split: option.splits)

lemma pinned_insert:
  assumes "\<And>k. kc_try_from kc (kc_serialize kc k) = Inr k" and "pinned kc d a k" and "a' = a \<longrightarrow> k' = k"
  shows "pinned kc (sd_trusted_update (hm_insert (row_key a') (kc_serialize kc k')) d) a k"
  using assms by (auto simp: pinned_def hm_laws split: option.splits)

lemma pinned_apply:
  assumes "\<And>k. kc_try_from (sc_key c) (kc_serialize (sc_key c) k) = Inr k" and "pinned (sc_key c) d a k"
  shows "pinned (sc_key c) (trait_apply c f oper d) a k"
proof (cases rule: trait_apply_cases [of c f oper d])
  case (8 a' k')
  show ?thesis
  proof (cases "a' = a \<longrightarrow> k' = k")
    case True
    then show ?thesis unfolding 8(2) by (rule pinned_insert [OF assms])
  next
    case False
    then have "snd (save_identity (sc_key c) f d a' k') = d"
      using save_identity_pinned [OF assms(2), of k' f] by auto
    then show ?thesis using assms(2) by (simp add: 8(1))
  qed
qed (use assms(2) in \<open>simp_all add: pinned_def\<close>)

lemma pinned_steps:
  assumes "trait_steps c d d'" and "\<And>k. kc_try_from (sc_key c) (kc_serialize (sc_key c) k) = Inr k"
    and "pinned (sc_key c) d a k"
  shows "pinned (sc_key c) d' a k"
  using assms by (induction rule: trait_steps.induct) (simp_all add: pinned_apply)

lemma demo_key_ok: "kc_try_from demo_key_codec (kc_serialize demo_key_codec k) = Inr k"
  by (simp add: demo_key_codec_def)

text \<open>
  C5. A pinned identity is pinned for good: once the store holds a key for an address, then after any
  sequence of trait methods, with any failures of the database among them, the store still answers with
  that key, trusts exactly that key for the address, and refuses to save any other, leaving the tables
  as they are. The hypothesis is that the library reads back the keys it writes.
\<close>

theorem tofu_pin_is_permanent:
  assumes "\<And>k. kc_try_from (sc_key c) (kc_serialize (sc_key c) k) = Inr k"
    and "get_identity (sc_key c) (\<lambda>_. None) d a = Inr (Some k)" and "trait_steps c d d'"
  shows "get_identity (sc_key c) (\<lambda>_. None) d' a = Inr (Some k)
    \<and> is_trusted_identity (sc_key c) (\<lambda>_. None) d' a k' = Inr (k' = k)
    \<and> (k' \<noteq> k \<longrightarrow> (\<exists>e. save_identity (sc_key c) f d' a k' = (Inl e, d')))"
proof -
  have "pinned (sc_key c) d' a k"
    using pinned_steps [OF assms(3,1)] assms(2) unfolding get_identity_pinned .
  then show ?thesis
    using save_identity_pinned [of "sc_key c" d' a k k' f]
    by (auto simp: get_identity_pinned) (auto simp: is_trusted_identity_def pinned_def split: option.splits)
qed

theorem tofu_pin_is_permanent_witness:
  "is_trusted_identity demo_key_codec (\<lambda>_. None)
     (trait_apply demo_codecs (\<lambda>_. None) (Save_identity (''bob'', 1) [9])
        (trait_apply demo_codecs (\<lambda>_. None) (Save_identity (''bob'', 1) [7]) sd_empty)) (''bob'', 1) [9] = Inr False"
proof -
  let ?d = "trait_apply demo_codecs (\<lambda>_. None) (Save_identity (''bob'', 1) [7]) sd_empty"
  have "get_identity (sc_key demo_codecs) (\<lambda>_. None) ?d (''bob'', 1) = Inr (Some [7])"
    by (simp add: get_identity_def save_identity_def demo_codecs_def demo_key_codec_def sd_empty_def hm_laws)
  from tofu_pin_is_permanent [OF _ this trait_step [OF trait_refl, where f = "\<lambda>_. None"
        and oper = "Save_identity (''bob'', 1) [9]"], where k' = "[9]"]
  show ?thesis by (simp add: demo_codecs_def demo_key_codec_def)
qed

text \<open>
  What saving an identity does, when the database calls succeed: for an address the store does not
  know, every key is trusted and the key is stored; the known key is accepted again and stays; another
  key is refused with an error that names the address; in every case no other address is affected.
\<close>

theorem save_identity_on_every_branch:
  assumes "\<And>k. kc_try_from kc (kc_serialize kc k) = Inr k"
    and "get_identity kc (\<lambda>_. None) d a = Inr old" and "save_identity kc (\<lambda>_. None) d a k = (res, d')"
  shows "is_trusted_identity kc (\<lambda>_. None) d a k = Inr (old = None \<or> old = Some k)
    \<and> (if old = None \<or> old = Some k
       then res = Inr (From_changed False) \<and> get_identity kc (\<lambda>_. None) d' a = Inr (Some k)
       else d' = d \<and> res = Inl (InvalidState ''save_identity'' (''refusing to overwrite identity for '' @ fst a
         @ '' device '' @ show_nat (unat (snd a)) @ '': key changed (re-scan QR to re-establish)'')))
    \<and> (b \<noteq> a \<longrightarrow> get_identity kc (\<lambda>_. None) d' b = get_identity kc (\<lambda>_. None) d b)"
proof (cases "hm_get (sd_trusted d) (row_key a)")
  case None
  then show ?thesis
    using assms by (auto simp: get_identity_def is_trusted_identity_def save_identity_def hm_laws)
next
  case (Some prev)
  then show ?thesis
    using assms by (auto simp: get_identity_def is_trusted_identity_def save_identity_def hm_laws result_simps)
qed

theorem save_identity_on_every_branch_witness:
  "fst (save_identity demo_key_codec (\<lambda>_. None) sd_empty (''bob'', 1) [7]) = Inr (From_changed False)"
proof -
  obtain res d' where eq: "save_identity demo_key_codec (\<lambda>_. None) sd_empty (''bob'', 1) [7] = (res, d')" by fastforce
  have "get_identity demo_key_codec (\<lambda>_. None) sd_empty (''bob'', 1) = Inr None"
    by (simp add: get_identity_def sd_empty_def)
  from save_identity_on_every_branch [OF demo_key_ok this eq, of "(''bob'', 2)"] show ?thesis by (simp add: eq)
qed

section \<open>Records are read back\<close>

text \<open>
  The contract of the record tables: what was put is got, and nothing else changes. \<open>storable\<close> says that
  the library reads back the record it wrote.
\<close>

locale keyed_store =
  fixes put :: "'k \<Rightarrow> 'v \<Rightarrow> 's \<Rightarrow> 's"
    and get :: "'s \<Rightarrow> 'k \<Rightarrow> 'r"
    and ret :: "'v \<Rightarrow> 'r"
    and storable :: "'v \<Rightarrow> bool"
  assumes get_put_same: "storable v \<Longrightarrow> get (put k v s) k = ret v"
    and get_put_other: "k' \<noteq> k \<Longrightarrow> get (put k v s) k' = get s k'"
begin

lemma get_after_puts:
  assumes "\<forall>(k, v) \<in> set kvs. storable v"
  shows "get (fold (\<lambda>(k, v). put k v) kvs s) k = (case map_of (rev kvs) k of Some v \<Rightarrow> ret v | None \<Rightarrow> get s k)"
  using assms
proof (induction kvs rule: rev_induct)
  case (snoc kv kvs)
  obtain j v where "kv = (j, v)" by force
  with snoc show ?case by (cases "j = k") (auto simp: get_put_same get_put_other)
qed simp

end

lemma save_get_record:
  assumes "rec_storable rc r"
  shows "\<exists>b. rc_serialize rc r = Inr b \<and> get_record m rc (\<lambda>_. None) (hm_insert (uint i) b rows) i = Inr r"
  using assms by (auto simp: rec_storable_def get_record_def hm_laws)

lemma get_record_other: "j \<noteq> i \<Longrightarrow> get_record m rc f (hm_insert (uint i) b rows) j = get_record m rc f rows j"
  by (auto simp: get_record_def hm_laws dest: unsigned_word_eqI)

lemmas record_defs = save_pre_key_def get_pre_key_def save_signed_pre_key_def get_signed_pre_key_def
  save_kyber_pre_key_def get_kyber_pre_key_def save_record_def

interpretation se: keyed_store "\<lambda>a s d. snd (store_session rc (\<lambda>_. None) d a s)" "load_session rc (\<lambda>_. None)"
  "\<lambda>s. Inr (Some s)" "rec_storable rc"
  by unfold_locales (auto simp: load_session_def store_session_def rec_storable_def hm_laws split: sum.split)

interpretation pk: keyed_store "\<lambda>i r d. snd (save_pre_key rc (\<lambda>_. None) d i r)" "get_pre_key rc (\<lambda>_. None)"
  Inr "rec_storable rc"
  by unfold_locales (auto simp: record_defs get_record_other dest: save_get_record split: sum.split)

interpretation spk: keyed_store "\<lambda>i r d. snd (save_signed_pre_key rc (\<lambda>_. None) d i r)"
  "get_signed_pre_key rc (\<lambda>_. None)" Inr "rec_storable rc"
  by unfold_locales (auto simp: record_defs get_record_other dest: save_get_record split: sum.split)

interpretation kpk: keyed_store "\<lambda>i r d. snd (save_kyber_pre_key rc (\<lambda>_. None) d i r)"
  "get_kyber_pre_key rc (\<lambda>_. None)" Inr "rec_storable rc"
  by unfold_locales (auto simp: record_defs get_record_other dest: save_get_record split: sum.split)

text \<open>
  C36. Sessions and prekeys are read back: after any sequence of saves the store answers, for every address
  and id, with the last record saved for it, and with what it held before where nothing was saved; a
  removed prekey and a used Kyber prekey are gone, and no other id is affected.
\<close>

theorem saved_records_are_read_back:
  assumes "\<forall>(a, s) \<in> set ss. rec_storable rs s" and "\<forall>(i, r) \<in> set ps. rec_storable rp r"
    and "\<forall>(i, r) \<in> set qs. rec_storable rq r"
  shows "load_session rs (\<lambda>_. None) (fold (\<lambda>(a, s) d. snd (store_session rs (\<lambda>_. None) d a s)) ss d) a
      = (case map_of (rev ss) a of Some s \<Rightarrow> Inr (Some s) | None \<Rightarrow> load_session rs (\<lambda>_. None) d a)
    \<and> get_pre_key rp (\<lambda>_. None) (fold (\<lambda>(i, r) d. snd (save_pre_key rp (\<lambda>_. None) d i r)) ps d) i
      = (case map_of (rev ps) i of Some r \<Rightarrow> Inr r | None \<Rightarrow> get_pre_key rp (\<lambda>_. None) d i)
    \<and> get_kyber_pre_key rq (\<lambda>_. None) (fold (\<lambda>(i, r) d. snd (save_kyber_pre_key rq (\<lambda>_. None) d i r)) qs d) i
      = (case map_of (rev qs) i of Some r \<Rightarrow> Inr r | None \<Rightarrow> get_kyber_pre_key rq (\<lambda>_. None) d i)
    \<and> get_pre_key rp (\<lambda>_. None) (snd (remove_pre_key (\<lambda>_. None) d j)) i
      = (if i = j then Inl (InvalidState ''get_pre_key'' ''QueryReturnedNoRows'') else get_pre_key rp (\<lambda>_. None) d i)
    \<and> get_kyber_pre_key rq (\<lambda>_. None) (snd (mark_kyber_pre_key_used (\<lambda>_. None) d j)) i
      = (if i = j then Inl (InvalidState ''get_kyber_pre_key'' ''QueryReturnedNoRows'')
         else get_kyber_pre_key rq (\<lambda>_. None) d i)"
proof (intro conjI)
  show "get_pre_key rp (\<lambda>_. None) (snd (remove_pre_key (\<lambda>_. None) d j)) i
      = (if i = j then Inl (InvalidState ''get_pre_key'' ''QueryReturnedNoRows'') else get_pre_key rp (\<lambda>_. None) d i)"
    by (auto simp: get_pre_key_def get_record_def remove_pre_key_def hm_get_remove db_sig_err_def
        dest: unsigned_word_eqI)
  show "get_kyber_pre_key rq (\<lambda>_. None) (snd (mark_kyber_pre_key_used (\<lambda>_. None) d j)) i
      = (if i = j then Inl (InvalidState ''get_kyber_pre_key'' ''QueryReturnedNoRows'')
         else get_kyber_pre_key rq (\<lambda>_. None) d i)"
    by (auto simp: get_kyber_pre_key_def get_record_def mark_kyber_pre_key_used_def hm_get_remove db_sig_err_def
        dest: unsigned_word_eqI)
qed (rule se.get_after_puts [OF assms(1)] pk.get_after_puts [OF assms(2)] kpk.get_after_puts [OF assms(3)])+

theorem saved_records_are_read_back_witness:
  "load_session demo_rec_codec (\<lambda>_. None) (fold (\<lambda>(a, s) d. snd (store_session demo_rec_codec (\<lambda>_. None) d a s))
     [((''bob'', 1), [1]), ((''eve'', 1), [2]), ((''bob'', 1), [3])] sd_empty) (''bob'', 1) = Inr (Some [3])"
proof -
  have "rec_storable demo_rec_codec r" for r by (simp add: rec_storable_def demo_rec_codec_def)
  then show ?thesis
    using saved_records_are_read_back [where ss = "[((''bob'', 1), [1]), ((''eve'', 1), [2]), ((''bob'', 1), [3])]"
        and rs = demo_rec_codec and ps = "[]" and qs = "[]" and d = sd_empty and a = "(''bob'', 1)" and rp = demo_rec_codec
        and rq = demo_rec_codec and i = 0 and j = 0]
    by simp
qed

section \<open>Prekey ids\<close>

lemma max_id_plus_one_Max: "rows \<noteq> [] \<Longrightarrow> max_id_plus_one rows = Max (fst ` set rows) + 1"
  by (cases rows) (simp_all add: max_id_plus_one_def)

lemma max_id_plus_one_bounds:
  assumes "\<forall>i \<in> fst ` set rows. 0 \<le> i \<and> i < m" and "1 \<le> m"
  shows "1 \<le> max_id_plus_one rows \<and> max_id_plus_one rows \<le> m \<and> (\<forall>i \<in> fst ` set rows. i < max_id_plus_one rows)"
proof (cases "rows = []")
  case False
  then have "Max (fst ` set rows) \<in> fst ` set rows" by (intro Max_in) simp_all
  then have "0 \<le> Max (fst ` set rows)" "Max (fst ` set rows) < m" using assms(1) by blast+
  moreover have "i \<le> Max (fst ` set rows)" if "i \<in> fst ` set rows" for i using that by simp
  ultimately show ?thesis unfolding max_id_plus_one_Max [OF False] by fastforce
qed (use assms(2) in \<open>simp add: max_id_plus_one_def\<close>)

text \<open>
  A new prekey never overwrites an outstanding one: as long as the highest id of the table is below
  the last 32-bit number, \<^verbatim>\<open>next_prekey_id\<close> gives an id that is greater than every id of the table, and
  saving under it leaves every stored record as it is.
\<close>

theorem next_prekey_id_is_fresh:
  assumes "prekey_table d table = Some rows" and "\<forall>i \<in> fst ` set rows. 0 \<le> i \<and> i < 2 ^ 32 - 1"
  shows "\<exists>n. next_prekey_id (\<lambda>_. None) d table = Inr n \<and> (\<forall>i \<in> fst ` set rows. i < uint n)
    \<and> (\<forall>i b. i \<in> fst ` set rows \<longrightarrow> hm_get (hm_insert (uint n) b rows) i = hm_get rows i)"
proof -
  have b: "1 \<le> max_id_plus_one rows" "max_id_plus_one rows < 2 ^ 32" "\<forall>i \<in> fst ` set rows. i < max_id_plus_one rows"
    using max_id_plus_one_bounds [OF assms(2)] by auto
  then have n: "next_prekey_id (\<lambda>_. None) d table = Inr (word_of_int (max_id_plus_one rows))"
    "uint (word_of_int (max_id_plus_one rows) :: u32) = max_id_plus_one rows"
    using b(1,2) assms(1) by (simp_all add: next_prekey_id_def Let_def uint_word_of_int)
  then show ?thesis using b(3) by (auto simp: hm_laws)
qed

theorem next_prekey_id_is_fresh_witness:
  "\<exists>n. next_prekey_id (\<lambda>_. None) (sd_empty\<lparr>sd_pre_keys := [(1, [7]), (4, [8])]\<rparr>) ''pre_keys'' = Inr n \<and> 4 < uint n"
  using next_prekey_id_is_fresh [where d = "sd_empty\<lparr>sd_pre_keys := [(1, [7]), (4, [8])]\<rparr>"
      and table = "''pre_keys''" and rows = "[(1, [7]), (4, [8])]"]
  by (auto simp: prekey_table_def)

text \<open>
  The ids are not monotone over time: whatever the table holds, if a prekey is saved under the id
  \<^verbatim>\<open>next_prekey_id\<close> gives and then consumed, the next call gives the same id again.
\<close>

theorem prekey_id_reused_after_removal:
  assumes "next_prekey_id (\<lambda>_. None) d ''pre_keys'' = Inr n" and "uint n \<notin> fst ` set (sd_pre_keys d)"
    and "rc_serialize rc rec = Inr b"
  shows "next_prekey_id (\<lambda>_. None) (snd (remove_pre_key (\<lambda>_. None) (snd (save_pre_key rc (\<lambda>_. None) d n rec)) n))
     ''pre_keys'' = Inr n"
proof -
  have "hm_remove (uint n) (hm_insert (uint n) b (sd_pre_keys d)) = sd_pre_keys d"
    using assms(2) by (subst hm_insert_new)
      (auto simp: hm_contains_def hm_get_def map_of_eq_None_iff hm_remove_filter filter_id_conv rev_image_eqI)
  then show ?thesis
    using assms(1,3) by (simp add: next_prekey_id_def prekey_table_def remove_pre_key_def save_pre_key_def save_record_def)
qed

theorem prekey_id_reused_after_removal_witness:
  "next_prekey_id (\<lambda>_. None) (snd (remove_pre_key (\<lambda>_. None)
     (snd (save_pre_key demo_rec_codec (\<lambda>_. None) sd_empty 1 [7])) 1)) ''pre_keys'' = Inr 1"
  by (rule prekey_id_reused_after_removal)
    (simp_all add: next_prekey_id_def prekey_table_def sd_empty_def max_id_plus_one_def demo_rec_codec_def)

end
