(* ===== verification/Handshake.thy ===== *)
theory Handshake
  imports Mailbox Signal_Store
begin

text \<open>
  \<^verbatim>\<open>crates/core/src/handshake.rs\<close>: the session layer over \<^verbatim>\<open>libsignal_protocol\<close>. A device is its address
  and its store; the session entry points of the library (\<^verbatim>\<open>process_prekey_bundle\<close>, \<^verbatim>\<open>message_encrypt\<close>,
  \<^verbatim>\<open>message_decrypt\<close>) are parameters that take the store and give it back changed, the clock and the
  random generator they are called with being part of the parameter. The types of the library's keys
  and records are type variables.

  The outcome of the database calls of the \<open>n\<close>-th store method of an operation is \<open>fs n\<close>.
\<close>

section \<open>The library\<close>

text \<open>\<^verbatim>\<open>PreKeyBundle\<close>, by the arguments of \<^verbatim>\<open>PreKeyBundle::new\<close>.\<close>

record ('k, 'u, 'q) pre_key_bundle =
  pb_registration_id :: u32
  pb_device_id :: u8
  pb_pre_key :: "(u32 \<times> 'u) option"
  pb_signed_id :: u32
  pb_signed_public :: 'u
  pb_signed_sig :: bytes
  pb_kyber_id :: u32
  pb_kyber_public :: 'q
  pb_kyber_sig :: bytes
  pb_identity :: 'k

text \<open>
  What the crate calls of the library: the text of an error, the codings of keys and records, the
  public halves of key pairs, the record constructors, and the checks of \<^verbatim>\<open>DeviceId::new\<close> (with the
  \<^verbatim>\<open>{}\<close> and the \<^verbatim>\<open>{:?}\<close> text of its error) and \<^verbatim>\<open>PreKeyBundle::new\<close>.
\<close>

record ('k, 's, 'p, 'g, 'y, 'i, 'e, 'u, 'kk, 'q) signal_lib =
  sl_display :: "sig_error \<Rightarrow> string"
  sl_codecs :: "('k, 's, 'p, 'g, 'y) sig_codecs"
  sl_pair_serialize :: "'i \<Rightarrow> bytes"
  sl_pair_try_from :: "bytes \<Rightarrow> sig_error + 'i"
  sl_identity_key :: "'i \<Rightarrow> 'k"
  sl_public :: "'e \<Rightarrow> 'u"
  sl_public_codec :: "'u key_codec"
  sl_kem_public :: "'kk \<Rightarrow> 'q"
  sl_kem_codec :: "'q key_codec"
  sl_pre_key_record :: "u32 \<Rightarrow> 'e \<Rightarrow> 'p"
  sl_signed_record :: "u32 \<Rightarrow> u64 \<Rightarrow> 'e \<Rightarrow> bytes \<Rightarrow> 'g"
  sl_kyber_record :: "u32 \<Rightarrow> u64 \<Rightarrow> 'kk \<Rightarrow> bytes \<Rightarrow> 'y"
  sl_device_id_err :: "u8 \<Rightarrow> string option"
  sl_device_id_dbg :: "u8 \<Rightarrow> string"
  sl_bundle_err :: "('k, 'u, 'q) pre_key_bundle \<Rightarrow> sig_error option"

section \<open>Errors\<close>

definition SAS_VERSION :: u32 where "SAS_VERSION = 2"

definition SAS_ITERATIONS :: u32 where "SAS_ITERATIONS = 5200"

definition DEVICE_ID :: u8 where "DEVICE_ID = 1"

definition crypto_err :: "(sig_error \<Rightarrow> string) \<Rightarrow> sig_error \<Rightarrow> core_error" where
  "crypto_err disp e = Crypto (disp e)"

definition map_signal_err :: "(sig_error \<Rightarrow> string) \<Rightarrow> sig_error \<Rightarrow> core_error" where
  "map_signal_err disp e = (case e of UntrustedIdentity a \<Rightarrow> IdentityChanged (fst a) | _ \<Rightarrow> crypto_err disp e)"

definition block :: "(sig_error \<Rightarrow> string) \<Rightarrow> sig_error + 'a \<Rightarrow> 'a result" where
  "block disp r = map_err (crypto_err disp) r"

definition block_tofu :: "(sig_error \<Rightarrow> string) \<Rightarrow> sig_error + 'a \<Rightarrow> 'a result" where
  "block_tofu disp r = map_err (map_signal_err disp) r"

text \<open>\<^verbatim>\<open>d.as_millis() as u64\<close>, 0 for a clock before the epoch.\<close>

definition now_ts :: "nat option \<Rightarrow> u64" where
  "now_ts d = (case d of Some ms \<Rightarrow> word_of_nat ms | None \<Rightarrow> 0)"

text \<open>The \<^verbatim>\<open>?\<close> operator on a call that changes the store.\<close>

definition try_st :: "('e + 'a) \<times> 's \<Rightarrow> ('a \<Rightarrow> 's \<Rightarrow> ('e + 'b) \<times> 's) \<Rightarrow> ('e + 'b) \<times> 's" where
  "try_st r f = (case r of (Inl e, s) \<Rightarrow> (Inl e, s) | (Inr x, s) \<Rightarrow> f x s)"

section \<open>Devices\<close>

record device =
  dv_address :: address
  dv_store :: sig_db

definition on_store :: "device \<Rightarrow> 'r \<times> sig_db \<Rightarrow> 'r \<times> device" where
  "on_store d r = (fst r, d\<lparr>dv_store := snd r\<rparr>)"

text \<open>
  \<^verbatim>\<open>bootstrap\<close>: \<open>pair\<close> is the identity key pair the library would generate, \<open>rng\<close> the outcome of filling the
  four bytes of the registration id. The second component is what the tables hold afterwards.
\<close>

definition bootstrap :: "('k, 's, 'p, 'g, 'y, 'i, 'e, 'u, 'kk, 'q) signal_lib \<Rightarrow> (nat \<Rightarrow> faults) \<Rightarrow> 'i
    \<Rightarrow> string + bytes \<Rightarrow> sig_db \<Rightarrow> string \<Rightarrow> device result \<times> sig_db" where
  "bootstrap L fs pair rng store name =
     try_st (local_identity (fs 0) store, store) (\<lambda>known s.
     try_st (case known of
         Some _ \<Rightarrow> (Inr (), s)
       | None \<Rightarrow> try_st (map_err Entropy rng, s) (\<lambda>reg s.
           save_local_identity (fs 1) s (sl_pair_serialize L pair) (word_of_nat (from_be reg)))) (\<lambda>_ s.
     try_st (guard_fault Crypto (sl_device_id_err L DEVICE_ID), s) (\<lambda>_ s.
     (Inr \<lparr>dv_address = (name, DEVICE_ID), dv_store = s\<rparr>, s))))"

definition device_open :: "('k, 's, 'p, 'g, 'y, 'i, 'e, 'u, 'kk, 'q) signal_lib \<Rightarrow> (nat \<Rightarrow> faults) \<Rightarrow> 'i
    \<Rightarrow> string + bytes \<Rightarrow> string option \<Rightarrow> (string \<Rightarrow> string option) \<Rightarrow> sig_db \<Rightarrow> string \<Rightarrow> string option \<Rightarrow> string
    \<Rightarrow> device result \<times> sig_db" where
  "device_open L fs pair rng conn exec disk path key name =
     (case sig_open conn exec disk path key of
        Inl e \<Rightarrow> (Inl e, disk)
      | Inr store \<Rightarrow> bootstrap L fs pair rng store name)"

definition device_generate :: "('k, 's, 'p, 'g, 'y, 'i, 'e, 'u, 'kk, 'q) signal_lib \<Rightarrow> (nat \<Rightarrow> faults) \<Rightarrow> 'i
    \<Rightarrow> string + bytes \<Rightarrow> string option \<Rightarrow> (string \<Rightarrow> string option) \<Rightarrow> string \<Rightarrow> device result" where
  "device_generate L fs pair rng conn exec name =
     try_res (sig_open conn exec sd_empty '':memory:'' None) (\<lambda>store.
       fst (bootstrap L fs pair rng store name))"

definition identity_key :: "('k, 's, 'p, 'g, 'y, 'i, 'e, 'u, 'kk, 'q) signal_lib \<Rightarrow> faults \<Rightarrow> device \<Rightarrow> 'k result" where
  "identity_key L f d =
     try_res (block (sl_display L) (get_identity_key_pair (sl_pair_try_from L) f (dv_store d))) (\<lambda>pair.
       Inr (sl_identity_key L pair))"

text \<open>
  What one \<^verbatim>\<open>prekey_bundle\<close> draws: two key pairs, a KEM key pair, the two signatures under the identity
  key (randomised, so numbered) and the two readings of the clock.
\<close>

record ('i, 'e, 'kk) prekey_draw =
  pd_pre :: 'e
  pd_signed :: 'e
  pd_kyber :: 'kk
  pd_sign :: "nat \<Rightarrow> 'i \<Rightarrow> bytes \<Rightarrow> sig_error + bytes"
  pd_now :: "nat \<Rightarrow> nat option"

definition prekey_bundle :: "('k, 's, 'p, 'g, 'y, 'i, 'e, 'u, 'kk, 'q) signal_lib \<Rightarrow> (nat \<Rightarrow> faults)
    \<Rightarrow> ('i, 'e, 'kk) prekey_draw \<Rightarrow> device \<Rightarrow> ('k, 'u, 'q) pre_key_bundle result \<times> device" where
  "prekey_bundle L fs g d =
     (let disp = sl_display L; c = sl_codecs L;
          signed_pub = sl_public L (pd_signed g); kyber_pub = sl_kem_public L (pd_kyber g);
          st = dv_store d
      in on_store d (
        try_st (block disp (get_identity_key_pair (sl_pair_try_from L) (fs 0) st), st) (\<lambda>pair s.
        try_st (next_prekey_id (fs 1) s ''pre_keys'', s) (\<lambda>pk_id s.
        try_st (next_prekey_id (fs 2) s ''signed_pre_keys'', s) (\<lambda>spk_id s.
        try_st (next_prekey_id (fs 3) s ''kyber_pre_keys'', s) (\<lambda>kpk_id s.
        try_st (block disp (pd_sign g 0 pair (kc_serialize (sl_public_codec L) signed_pub)), s) (\<lambda>spk_sig s.
        try_st (block disp (pd_sign g 1 pair (kc_serialize (sl_kem_codec L) kyber_pub)), s) (\<lambda>kpk_sig s.
        try_st (apfst (block disp)
          (save_pre_key (sc_pre_key c) (fs 4) s pk_id (sl_pre_key_record L pk_id (pd_pre g)))) (\<lambda>_ s.
        try_st (apfst (block disp) (save_signed_pre_key (sc_signed c) (fs 5) s spk_id
          (sl_signed_record L spk_id (now_ts (pd_now g 0)) (pd_signed g) spk_sig))) (\<lambda>_ s.
        try_st (apfst (block disp) (save_kyber_pre_key (sc_kyber c) (fs 6) s kpk_id
          (sl_kyber_record L kpk_id (now_ts (pd_now g 1)) (pd_kyber g) kpk_sig))) (\<lambda>_ s.
        try_st (block disp (get_local_registration_id (fs 7) s), s) (\<lambda>reg_id s.
        try_st (guard_fault Crypto (sl_device_id_err L DEVICE_ID), s) (\<lambda>_ s.
        let b = \<lparr>pb_registration_id = reg_id, pb_device_id = DEVICE_ID,
                 pb_pre_key = Some (pk_id, sl_public L (pd_pre g)), pb_signed_id = spk_id,
                 pb_signed_public = signed_pub, pb_signed_sig = spk_sig, pb_kyber_id = kpk_id,
                 pb_kyber_public = kyber_pub, pb_kyber_sig = kpk_sig, pb_identity = sl_identity_key L pair\<rparr>
        in (case sl_bundle_err L b of Some e \<Rightarrow> Inl (crypto_err disp e) | None \<Rightarrow> Inr b, s))))))))))))))"

section \<open>Sessions\<close>

definition process_bundle :: "(sig_error \<Rightarrow> string) \<Rightarrow> (address \<Rightarrow> address \<Rightarrow> 'b \<Rightarrow> sig_db \<Rightarrow> (sig_error + unit) \<times> sig_db)
    \<Rightarrow> device \<Rightarrow> address \<Rightarrow> 'b \<Rightarrow> unit result \<times> device" where
  "process_bundle disp process d remote bundle =
     on_store d (apfst (block_tofu disp) (process remote (dv_address d) bundle (dv_store d)))"

datatype cipher_type = Whisper | PreKey | SenderKey | Plaintext

fun type_byte :: "cipher_type \<Rightarrow> u8" where
  "type_byte Whisper = 2"
| "type_byte PreKey = 3"
| "type_byte SenderKey = 7"
| "type_byte Plaintext = 8"

definition encrypt :: "(sig_error \<Rightarrow> string) \<Rightarrow> (bytes \<Rightarrow> address \<Rightarrow> address \<Rightarrow> sig_db \<Rightarrow> (sig_error + 'm) \<times> sig_db)
    \<Rightarrow> ('m \<Rightarrow> cipher_type) \<Rightarrow> ('m \<Rightarrow> bytes) \<Rightarrow> device \<Rightarrow> address \<Rightarrow> bytes \<Rightarrow> (u8 \<times> bytes) result \<times> device" where
  "encrypt disp enc mtype mser d remote plaintext =
     on_store d (try_st (apfst (block disp) (enc plaintext remote (dv_address d) (dv_store d)))
       (\<lambda>msg s. (Inr (type_byte (mtype msg), mser msg), s)))"

text \<open>
  \<^verbatim>\<open>decrypt\<close>: \<open>prekey_of\<close> and \<open>signal_of\<close> parse the two message kinds the crate accepts.
\<close>

definition decrypt :: "(sig_error \<Rightarrow> string) \<Rightarrow> (bytes \<Rightarrow> sig_error + 'm) \<Rightarrow> (bytes \<Rightarrow> sig_error + 'm)
    \<Rightarrow> ('m \<Rightarrow> address \<Rightarrow> address \<Rightarrow> sig_db \<Rightarrow> (sig_error + bytes) \<times> sig_db)
    \<Rightarrow> device \<Rightarrow> address \<Rightarrow> u8 \<Rightarrow> bytes \<Rightarrow> bytes result \<times> device" where
  "decrypt disp prekey_of signal_of dec d remote msg_type ciphertext =
     on_store d (try_st
       (if msg_type = 3 then map_err (crypto_err disp) (prekey_of ciphertext)
        else if msg_type = 2 then map_err (crypto_err disp) (signal_of ciphertext)
        else Inl (Crypto (''unsupported ciphertext type '' @ show_nat (unat msg_type))), dv_store d)
       (\<lambda>cm s. apfst (block_tofu disp) (dec cm remote (dv_address d) s)))"

definition pin_identity :: "('k, 's, 'p, 'g, 'y, 'i, 'e, 'u, 'kk, 'q) signal_lib \<Rightarrow> faults \<Rightarrow> device \<Rightarrow> address \<Rightarrow> 'k
    \<Rightarrow> identity_change result \<times> device" where
  "pin_identity L f d remote key =
     on_store d (apfst (block (sl_display L)) (save_identity (sc_key (sl_codecs L)) f (dv_store d) remote key))"

definition device_is_trusted :: "('k, 's, 'p, 'g, 'y, 'i, 'e, 'u, 'kk, 'q) signal_lib \<Rightarrow> faults \<Rightarrow> device \<Rightarrow> address \<Rightarrow> 'k
    \<Rightarrow> bool result" where
  "device_is_trusted L f d remote key =
     block (sl_display L) (is_trusted_identity (sc_key (sl_codecs L)) f (dv_store d) remote key)"

section \<open>Safety numbers and the first message\<close>

text \<open>\<^verbatim>\<open>format!("{code:06}")\<close>.\<close>

definition pad_zero :: "nat \<Rightarrow> nat \<Rightarrow> string" where
  "pad_zero w n = replicate (w - length (show_nat n)) (CHR ''0'') @ show_nat n"

text \<open>
  \<open>fingerprint\<close> is \<^verbatim>\<open>Fingerprint::new\<close>, \<open>display_string\<close> its display, both with the \<^verbatim>\<open>{:?}\<close> text of their error;
  \<open>hash\<close> is BLAKE3.
\<close>

definition sas_code :: "(u32 \<Rightarrow> u32 \<Rightarrow> bytes \<Rightarrow> 'k \<Rightarrow> bytes \<Rightarrow> 'k \<Rightarrow> string + 'f) \<Rightarrow> ('f \<Rightarrow> string + string)
    \<Rightarrow> (bytes \<Rightarrow> bytes) \<Rightarrow> bytes \<Rightarrow> 'k \<Rightarrow> bytes \<Rightarrow> 'k \<Rightarrow> (string \<times> string) result" where
  "sas_code fingerprint display_string hash local_id local_key remote_id remote_key =
     try_res (map_err Crypto (fingerprint SAS_VERSION SAS_ITERATIONS local_id local_key remote_id remote_key)) (\<lambda>fp.
     try_res (map_err Crypto (display_string fp)) (\<lambda>full.
     let digest = hash (ascii ''dc-sas6-v1'' @ ascii full);
         code = from_be (take 4 digest) mod 1000000
     in Inr (full, pad_zero 6 code)))"

definition first_message_mac :: "(string \<Rightarrow> bytes \<Rightarrow> bytes) \<Rightarrow> (bytes \<Rightarrow> bytes \<Rightarrow> bytes) \<Rightarrow> bytes \<Rightarrow> bytes \<Rightarrow> bytes \<Rightarrow> bytes" where
  "first_message_mac derive keyed token bucket ciphertext =
     keyed (derive_mailbox_secret derive token bucket 0) (ascii ''dc-first-msg-v1'' @ ciphertext)"

definition verify_first_message_mac :: "(string \<Rightarrow> bytes \<Rightarrow> bytes) \<Rightarrow> (bytes \<Rightarrow> bytes \<Rightarrow> bytes) \<Rightarrow> bytes \<Rightarrow> bytes
    \<Rightarrow> bytes \<Rightarrow> bytes \<Rightarrow> unit result" where
  "verify_first_message_mac derive keyed token bucket ciphertext mac =
     (if ct_diff mac (first_message_mac derive keyed token bucket ciphertext) \<noteq> 0
      then Inl (Crypto ''first-message token mac mismatch'') else Inr ())"

section \<open>The bundle on the wire\<close>

record wire_pre_key_bundle =
  wb_registration_id :: u32
  wb_device_id :: u8
  wb_pre_key_id :: "u32 option"
  wb_pre_key_public :: "bytes option"
  wb_signed_pre_key_id :: u32
  wb_signed_pre_key_public :: bytes
  wb_signed_pre_key_signature :: bytes
  wb_kyber_pre_key_id :: u32
  wb_kyber_pre_key_public :: bytes
  wb_kyber_pre_key_signature :: bytes
  wb_identity_key :: bytes

text \<open>
  The getters of the library's bundle return results: \<open>g n\<close> is the failure of the \<open>n\<close>-th of them.
\<close>

definition getters :: "(sig_error \<Rightarrow> string) \<Rightarrow> (nat \<Rightarrow> sig_error option) \<Rightarrow> unit result" where
  "getters disp g = foldr (\<lambda>n r. case g n of Some e \<Rightarrow> Inl (crypto_err disp e) | None \<Rightarrow> r) [0..<11] (Inr ())"

definition bundle_to_wire :: "('k, 's, 'p, 'g, 'y, 'i, 'e, 'u, 'kk, 'q) signal_lib
    \<Rightarrow> (wire_pre_key_bundle \<Rightarrow> string + bytes) \<Rightarrow> (nat \<Rightarrow> sig_error option)
    \<Rightarrow> ('k, 'u, 'q) pre_key_bundle \<Rightarrow> bytes result" where
  "bundle_to_wire L ser g b =
     try_res (getters (sl_display L) g) (\<lambda>_.
     map_err Cbor (ser \<lparr>wb_registration_id = pb_registration_id b, wb_device_id = pb_device_id b,
       wb_pre_key_id = map_option fst (pb_pre_key b),
       wb_pre_key_public = map_option (kc_serialize (sl_public_codec L) \<circ> snd) (pb_pre_key b),
       wb_signed_pre_key_id = pb_signed_id b,
       wb_signed_pre_key_public = kc_serialize (sl_public_codec L) (pb_signed_public b),
       wb_signed_pre_key_signature = pb_signed_sig b, wb_kyber_pre_key_id = pb_kyber_id b,
       wb_kyber_pre_key_public = kc_serialize (sl_kem_codec L) (pb_kyber_public b),
       wb_kyber_pre_key_signature = pb_kyber_sig b,
       wb_identity_key = kc_serialize (sc_key (sl_codecs L)) (pb_identity b)\<rparr>))"

definition bundle_from_wire :: "('k, 's, 'p, 'g, 'y, 'i, 'e, 'u, 'kk, 'q) signal_lib
    \<Rightarrow> (bytes \<Rightarrow> string + wire_pre_key_bundle) \<Rightarrow> bytes \<Rightarrow> ('k, 'u, 'q) pre_key_bundle result" where
  "bundle_from_wire L de bytes =
     (let err = crypto_err (sl_display L) in
      try_res (map_err Cbor (de bytes)) (\<lambda>w.
      try_res (case (wb_pre_key_id w, wb_pre_key_public w) of
          (Some i, Some pk) \<Rightarrow> try_res (map_err err (kc_try_from (sl_public_codec L) pk)) (\<lambda>k. Inr (Some (i, k)))
        | _ \<Rightarrow> Inr None) (\<lambda>pre_key.
      try_res (guard_fault Crypto (sl_device_id_err L (wb_device_id w))) (\<lambda>_.
      try_res (map_err err (kc_try_from (sl_public_codec L) (wb_signed_pre_key_public w))) (\<lambda>signed.
      try_res (map_err err (kc_try_from (sl_kem_codec L) (wb_kyber_pre_key_public w))) (\<lambda>kyber.
      try_res (map_err err (kc_try_from (sc_key (sl_codecs L)) (wb_identity_key w))) (\<lambda>identity.
      let b = \<lparr>pb_registration_id = wb_registration_id w, pb_device_id = wb_device_id w, pb_pre_key = pre_key,
               pb_signed_id = wb_signed_pre_key_id w, pb_signed_public = signed,
               pb_signed_sig = wb_signed_pre_key_signature w, pb_kyber_id = wb_kyber_pre_key_id w,
               pb_kyber_public = kyber, pb_kyber_sig = wb_kyber_pre_key_signature w, pb_identity = identity\<rparr>
      in case sl_bundle_err L b of Some e \<Rightarrow> Inl (err e) | None \<Rightarrow> Inr b)))))))"

section \<open>A concrete library\<close>

text \<open>Keys and records are byte strings; a signature is the signed text.\<close>

definition demo_lib :: "(bytes, bytes, bytes, bytes, bytes, bytes, bytes, bytes, bytes, bytes) signal_lib" where
  "demo_lib = \<lparr>sl_display = (\<lambda>e. case e of InvalidState m t \<Rightarrow> m @ '': '' @ t | UntrustedIdentity a \<Rightarrow> ''untrusted''
       | Other_sig t \<Rightarrow> t),
     sl_codecs = demo_codecs, sl_pair_serialize = (\<lambda>i. i), sl_pair_try_from = Inr, sl_identity_key = (\<lambda>i. i),
     sl_public = (\<lambda>e. e), sl_public_codec = demo_key_codec, sl_kem_public = (\<lambda>e. e), sl_kem_codec = demo_key_codec,
     sl_pre_key_record = (\<lambda>i e. e), sl_signed_record = (\<lambda>i t e s. e), sl_kyber_record = (\<lambda>i t e s. e),
     sl_device_id_err = (\<lambda>n. if n = 0 then Some ''invalid device id'' else None),
     sl_device_id_dbg = (\<lambda>n. ''InvalidDeviceId''), sl_bundle_err = (\<lambda>_. None)\<rparr>"

definition demo_draw :: "(bytes, bytes, bytes) prekey_draw" where
  "demo_draw = \<lparr>pd_pre = [1], pd_signed = [2], pd_kyber = [3], pd_sign = (\<lambda>n i m. Inr (i @ m)), pd_now = (\<lambda>_. Some 7)\<rparr>"

definition demo_device :: device where
  "demo_device = \<lparr>dv_address = (''alice'', 1), dv_store = sd_empty\<lparr>sd_local := Some ([9], 5)\<rparr>\<rparr>"

section \<open>Runs of a device\<close>

text \<open>
  One operation of a device, or a restart on the same tables, with any outcome of the database and
  random calls. What is assumed of the library's entry points is that they change the store only
  through the trait methods.
\<close>

inductive dev_step :: "('k, 's, 'p, 'g, 'y, 'i, 'e, 'u, 'kk, 'q) signal_lib \<Rightarrow> ('m \<Rightarrow> cipher_type) \<Rightarrow> ('m \<Rightarrow> bytes)
    \<Rightarrow> device \<Rightarrow> device \<Rightarrow> bool" for L mtype mser where
  step_bundle: "dev_step L mtype mser d (snd (prekey_bundle L fs g d))"
| step_pin: "dev_step L mtype mser d (snd (pin_identity L f d a k))"
| step_process: "trait_steps (sl_codecs L) (dv_store d) (snd (process remote (dv_address d) b (dv_store d)))
    \<Longrightarrow> dev_step L mtype mser d (snd (process_bundle disp process d remote (b :: ('k, 'u, 'q) pre_key_bundle)))"
| step_encrypt: "trait_steps (sl_codecs L) (dv_store d) (snd (enc plaintext remote (dv_address d) (dv_store d)))
    \<Longrightarrow> dev_step L mtype mser d (snd (encrypt disp enc mtype mser d remote plaintext))"
| step_decrypt: "(\<And>m :: 'm. trait_steps (sl_codecs L) (dv_store d) (snd (dec m remote (dv_address d) (dv_store d))))
    \<Longrightarrow> dev_step L mtype mser d (snd (decrypt disp prekey_of signal_of dec d remote ty ciphertext))"
| step_reopen: "dev_step L mtype mser d \<lparr>dv_address = (name, DEVICE_ID),
    dv_store = snd (bootstrap L fs pair rng (dv_store d) name)\<rparr>"

section \<open>Calls\<close>

lemma try_st_simps [simp]: "try_st (Inl e, s) f = (Inl e, s)" "try_st (Inr x, s) f = f x s"
  by (simp_all add: try_st_def)

lemma fst_try_st_Inl: "fst r = Inl e \<Longrightarrow> fst (try_st r f) = Inl e"
  by (cases r) simp

lemma try_st_Inr: "try_st r f = (Inr y, t) \<longleftrightarrow> (\<exists>x s. r = (Inr x, s) \<and> f x s = (Inr y, t))"
  by (cases r; cases "fst r") auto

lemma block_simps [simp]:
  "block disp (Inr x) = Inr x" "block disp (Inl e) = Inl (crypto_err disp e)"
  "block_tofu disp (Inr x) = Inr x" "block_tofu disp (Inl e) = Inl (map_signal_err disp e)"
  by (simp_all add: block_def block_tofu_def)

lemma getters_ok [simp]: "getters disp (\<lambda>_. None) = Inr ()"
proof -
  have "foldr (\<lambda>n r. r) ns a = a" for ns :: "nat list" and a :: "unit result" by (induction ns) simp_all
  then show ?thesis by (simp add: getters_def)
qed

section \<open>The wire format\<close>

lemma bundle_from_to_wire:
  assumes "\<And>k. kc_try_from (sl_public_codec L) (kc_serialize (sl_public_codec L) k) = Inr k"
    and "\<And>k. kc_try_from (sl_kem_codec L) (kc_serialize (sl_kem_codec L) k) = Inr k"
    and "\<And>k. kc_try_from (sc_key (sl_codecs L)) (kc_serialize (sc_key (sl_codecs L)) k) = Inr k"
    and "codec_ok ser de" and "bundle_to_wire L ser g b = Inr wire"
    and "sl_device_id_err L (pb_device_id b) = None" and "sl_bundle_err L b = None"
  shows "bundle_from_wire L de wire = Inr b"
proof -
  have "de wire = Inr \<lparr>wb_registration_id = pb_registration_id b, wb_device_id = pb_device_id b,
       wb_pre_key_id = map_option fst (pb_pre_key b),
       wb_pre_key_public = map_option (kc_serialize (sl_public_codec L) \<circ> snd) (pb_pre_key b),
       wb_signed_pre_key_id = pb_signed_id b,
       wb_signed_pre_key_public = kc_serialize (sl_public_codec L) (pb_signed_public b),
       wb_signed_pre_key_signature = pb_signed_sig b, wb_kyber_pre_key_id = pb_kyber_id b,
       wb_kyber_pre_key_public = kc_serialize (sl_kem_codec L) (pb_kyber_public b),
       wb_kyber_pre_key_signature = pb_kyber_sig b,
       wb_identity_key = kc_serialize (sc_key (sl_codecs L)) (pb_identity b)\<rparr>"
    using assms(4,5) by (auto simp: bundle_to_wire_def result_simps codec_ok_def)
  then show ?thesis
    using assms(1-3,6,7) by (cases b; cases "pb_pre_key b") (auto simp: bundle_from_wire_def)
qed

text \<open>
  A bundle survives the wire: if the library and the CBOR coder read back what they write, then a
  bundle the library accepts, with a valid device number, is rebuilt exactly from its encoding.
\<close>

theorem bundle_wire_roundtrip:
  assumes "\<And>k. kc_try_from (sl_public_codec L) (kc_serialize (sl_public_codec L) k) = Inr k"
    and "\<And>k. kc_try_from (sl_kem_codec L) (kc_serialize (sl_kem_codec L) k) = Inr k"
    and "\<And>k. kc_try_from (sc_key (sl_codecs L)) (kc_serialize (sc_key (sl_codecs L)) k) = Inr k"
    and "codec_ok ser de" and "bundle_to_wire L ser g b = Inr wire"
    and "sl_device_id_err L (pb_device_id b) = None" and "sl_bundle_err L b = None"
  shows "bundle_from_wire L de wire = Inr b"
  using assms by (rule bundle_from_to_wire)

theorem bundle_wire_roundtrip_witness:
  "bundle_from_wire demo_lib (\<lambda>_. Inr \<lparr>wb_registration_id = 5, wb_device_id = 1, wb_pre_key_id = Some 1,
     wb_pre_key_public = Some [5, 1], wb_signed_pre_key_id = 1, wb_signed_pre_key_public = [5, 2],
     wb_signed_pre_key_signature = [0], wb_kyber_pre_key_id = 1, wb_kyber_pre_key_public = [5, 3],
     wb_kyber_pre_key_signature = [0], wb_identity_key = [5, 9]\<rparr>) []
   = Inr \<lparr>pb_registration_id = 5, pb_device_id = 1, pb_pre_key = Some (1, [1]), pb_signed_id = 1, pb_signed_public = [2],
       pb_signed_sig = [0], pb_kyber_id = 1, pb_kyber_public = [3], pb_kyber_sig = [0], pb_identity = [9]\<rparr>"
proof -
  let ?w = "\<lparr>wb_registration_id = 5, wb_device_id = 1, wb_pre_key_id = Some 1,
     wb_pre_key_public = Some [5, 1], wb_signed_pre_key_id = 1, wb_signed_pre_key_public = [5, 2],
     wb_signed_pre_key_signature = [0], wb_kyber_pre_key_id = 1, wb_kyber_pre_key_public = [5, 3],
     wb_kyber_pre_key_signature = [0], wb_identity_key = [5, 9]\<rparr>"
  have "codec_ok (\<lambda>w. if w = ?w then Inr [] else Inl ''other'') (\<lambda>_. Inr ?w)" by (simp add: codec_ok_def)
  then show ?thesis
    by (rule bundle_wire_roundtrip [rotated 3, where g = "\<lambda>_. None"])
      (simp_all add: demo_lib_def demo_codecs_def demo_key_codec_def bundle_to_wire_def)
qed

section \<open>The identity of a device\<close>

lemma try_st_steps:
  assumes "trait_steps c s0 (snd r)" and "\<And>x s. r = (Inr x, s) \<Longrightarrow> trait_steps c s0 (snd (f x s))"
  shows "trait_steps c s0 (snd (try_st r f))"
  using assms by (cases r; cases "fst r") auto

lemma dv_on_store [simp]: "dv_store (snd (on_store d r)) = snd r"
  by (simp add: on_store_def)

lemma trait_save_steps:
  "trait_steps c s0 s \<Longrightarrow> trait_steps c s0 (snd (save_pre_key (sc_pre_key c) f s i p))"
  "trait_steps c s0 s \<Longrightarrow> trait_steps c s0 (snd (save_signed_pre_key (sc_signed c) f s i g))"
  "trait_steps c s0 s \<Longrightarrow> trait_steps c s0 (snd (save_kyber_pre_key (sc_kyber c) f s i y))"
  "trait_steps c s0 s \<Longrightarrow> trait_steps c s0 (snd (save_identity (sc_key c) f s a k))"
  using trait_step [of c s0 s f "Save_pre_key i p"] trait_step [of c s0 s f "Save_signed_pre_key i g"]
    trait_step [of c s0 s f "Save_kyber_pre_key i y"] trait_step [of c s0 s f "Save_identity a k"] by simp_all

lemma prekey_bundle_steps: "trait_steps (sl_codecs L) (dv_store d) (dv_store (snd (prekey_bundle L fs g d)))"
  unfolding prekey_bundle_def Let_def dv_on_store
  by (intro try_st_steps) (auto intro: trait_refl trait_save_steps simp: apfst_def map_prod_def split_beta)

lemma local_identity_known: "sd_local s = Some x \<Longrightarrow> local_identity f s \<noteq> Inr None"
  by (cases "f 0"; cases "f 1") (auto simp: local_identity_def)

lemma bootstrap_known: "sd_local s = Some x \<Longrightarrow> snd (bootstrap L fs pair rng s name) = s"
  using local_identity_known [of s x "fs 0"]
  by (auto simp: bootstrap_def try_st_def split: sum.splits option.splits)

lemma bootstrap_trusted: "sd_trusted (snd (bootstrap L fs pair rng s name)) = sd_trusted s"
  by (auto simp: bootstrap_def try_st_def save_local_identity_def split: sum.splits option.splits prod.splits)

lemma dev_step_store:
  assumes "dev_step L mtype mser d d'"
  shows "trait_steps (sl_codecs L) (dv_store d) (dv_store d')
    \<or> sd_local (dv_store d) = None \<and> sd_trusted (dv_store d') = sd_trusted (dv_store d)"
  using assms
proof (cases rule: dev_step.cases)
  case (step_encrypt enc plaintext remote disp)
  then show ?thesis by (auto simp: encrypt_def intro!: disjI1 try_st_steps dest!: arg_cong [where f = snd])
next
  case (step_decrypt dec remote disp prekey_of signal_of ty ciphertext)
  then show ?thesis by (auto simp: decrypt_def intro!: disjI1 try_st_steps trait_refl)
next
  case (step_reopen name fs pair rng)
  then show ?thesis
    by (cases "sd_local (dv_store d)") (auto simp: bootstrap_trusted bootstrap_known trait_refl)
qed (auto simp: prekey_bundle_steps pin_identity_def process_bundle_def intro!: trait_save_steps trait_refl)

lemma dev_step_keeps:
  assumes "dev_step L mtype mser d d'"
    and "\<And>k. kc_try_from (sc_key (sl_codecs L)) (kc_serialize (sc_key (sl_codecs L)) k) = Inr k"
  shows "pinned (sc_key (sl_codecs L)) (dv_store d) a k \<Longrightarrow> pinned (sc_key (sl_codecs L)) (dv_store d') a k"
    and "sd_local (dv_store d) = Some x \<Longrightarrow> sd_local (dv_store d') = Some x"
  using dev_step_store [OF assms(1)] pinned_steps [OF _ assms(2)] trait_steps_local
  by (fastforce simp: pinned_def)+

lemma dev_steps_keep:
  assumes "(dev_step L mtype mser)\<^sup>*\<^sup>* d d'"
    and "\<And>k. kc_try_from (sc_key (sl_codecs L)) (kc_serialize (sc_key (sl_codecs L)) k) = Inr k"
  shows "(pinned (sc_key (sl_codecs L)) (dv_store d) a k \<longrightarrow> pinned (sc_key (sl_codecs L)) (dv_store d') a k)
    \<and> (sd_local (dv_store d) = Some x \<longrightarrow> sd_local (dv_store d') = Some x)"
  using assms(1)
proof (induction rule: rtranclp_induct)
  case (step y z)
  then show ?case using dev_step_keeps [OF step(2) assms(2)] by blast
qed simp

lemma identity_key_local:
  "identity_key L (\<lambda>_. None) d = Inr k \<longleftrightarrow>
    (\<exists>b reg pair. sd_local (dv_store d) = Some (b, reg) \<and> sl_pair_try_from L b = Inr pair \<and> sl_identity_key L pair = k)"
  by (cases "sd_local (dv_store d)") (auto simp: identity_key_def get_identity_key_pair_def result_simps block_def)

lemma pin_identity_Inr:
  assumes "pin_identity L f d a k = (Inr ch, d1)"
    and "\<And>k. kc_try_from (sc_key (sl_codecs L)) (kc_serialize (sc_key (sl_codecs L)) k) = Inr k"
  shows "pinned (sc_key (sl_codecs L)) (dv_store d1) a k"
proof -
  let ?kc = "sc_key (sl_codecs L)"
  have ok: "save_identity ?kc f (dv_store d) a k = (Inr ch, dv_store d1)"
    using assms(1) by (auto simp: pin_identity_def on_store_def block_def apfst_def map_prod_def split: prod.splits)
  then have "dv_store d1 = sd_trusted_update (hm_insert (row_key a) (kc_serialize ?kc k)) (dv_store d)"
    by (cases "f 2"; cases "f 3") (auto simp: save_identity_def run_stmt_def split: sum.splits)
  then show ?thesis by (simp add: pinned_def hm_laws assms(2))
qed

lemma demo_lib_key_ok: "kc_try_from (sc_key (sl_codecs demo_lib)) (kc_serialize (sc_key (sl_codecs demo_lib)) k) = Inr k"
  by (simp add: demo_lib_def demo_codecs_def demo_key_ok)

text \<open>
  C6. Identities are stable: whatever a device does afterwards (prekey bundles, sessions, messages, other
  pins, restarts), its own identity key stays what it is, and a key that was pinned for a contact stays
  the only key it trusts for that contact.
\<close>

theorem device_identity_and_pins_are_stable:
  assumes "\<And>k. kc_try_from (sc_key (sl_codecs L)) (kc_serialize (sc_key (sl_codecs L)) k) = Inr k"
    and "identity_key L (\<lambda>_. None) d = Inr own" and "pin_identity L f d a k = (Inr ch, d1)"
    and "(dev_step L mtype mser)\<^sup>*\<^sup>* d1 d'"
  shows "identity_key L (\<lambda>_. None) d' = Inr own \<and> device_is_trusted L (\<lambda>_. None) d' a k' = Inr (k' = k)"
proof -
  have d1: "d1 = snd (pin_identity L f d a k)" by (simp add: assms(3))
  have "dev_step L mtype mser d d1" unfolding d1 by (rule step_pin)
  then have "identity_key L (\<lambda>_. None) d' = Inr own"
    using assms(2) dev_step_keeps(2) [OF _ assms(1)] dev_steps_keep [OF assms(4,1)]
    unfolding identity_key_local by blast
  moreover have "pinned (sc_key (sl_codecs L)) (dv_store d') a k"
    using pin_identity_Inr [OF assms(3,1)] dev_steps_keep [OF assms(4,1)] by blast
  ultimately show ?thesis
    by (auto simp: device_is_trusted_def is_trusted_identity_def pinned_def split: option.splits)
qed

theorem device_identity_and_pins_are_stable_witness:
  "device_is_trusted demo_lib (\<lambda>_. None) (snd (pin_identity demo_lib (\<lambda>_. None)
     (snd (pin_identity demo_lib (\<lambda>_. None) demo_device (''bob'', 1) [7])) (''bob'', 1) [8])) (''bob'', 1) [8] = Inr False"
proof -
  let ?d1 = "snd (pin_identity demo_lib (\<lambda>_. None) demo_device (''bob'', 1) [7])"
  have "identity_key demo_lib (\<lambda>_. None) demo_device = Inr [9]"
    by (simp add: identity_key_local demo_device_def demo_lib_def)
  moreover have "pin_identity demo_lib (\<lambda>_. None) demo_device (''bob'', 1) [7] = (Inr (From_changed False), ?d1)"
    by (simp add: pin_identity_def on_store_def save_identity_def demo_device_def demo_lib_def sd_empty_def)
  moreover have "(dev_step demo_lib (\<lambda>_ :: unit. Whisper) (\<lambda>_. []))\<^sup>*\<^sup>* ?d1
      (snd (pin_identity demo_lib (\<lambda>_. None) ?d1 (''bob'', 1) [8]))"
    by (intro r_into_rtranclp step_pin)
  ultimately have "identity_key demo_lib (\<lambda>_. None) (snd (pin_identity demo_lib (\<lambda>_. None) ?d1 (''bob'', 1) [8])) = Inr [9]
      \<and> device_is_trusted demo_lib (\<lambda>_. None) (snd (pin_identity demo_lib (\<lambda>_. None) ?d1 (''bob'', 1) [8])) (''bob'', 1) [8]
        = Inr ([8] = [7 :: u8])"
    by (rule device_identity_and_pins_are_stable [OF demo_lib_key_ok])
  then show ?thesis by simp
qed

section \<open>Prekey bundles\<close>

lemma run_stmt_Inr: "run_stmt m lock fault upd d = (Inr u, d') \<Longrightarrow> d' = upd d"
  by (cases lock; cases fault) (simp_all add: run_stmt_def)

lemma save_record_Inr:
  "save_record m rc f upd d i r = (Inr u, d') \<Longrightarrow>
    \<exists>b. rc_serialize rc r = Inr b \<and> d' = upd (hm_insert (uint i) b) d"
  by (auto simp: save_record_def dest: run_stmt_Inr split: sum.splits)

lemma apfst_block_Inr: "apfst (block disp) r = (Inr x, s) \<longleftrightarrow> r = (Inr x, s)"
  by (cases r) (auto simp: block_def)

lemma next_prekey_id_no_fault: "next_prekey_id f d tb = Inr n \<Longrightarrow> next_prekey_id (\<lambda>_. None) d tb = Inr n"
  by (auto simp: next_prekey_id_def result_simps split: option.splits)

lemma next_prekey_id_above:
  assumes "next_prekey_id f d tb = Inr n" and "prekey_table d tb = Some rows"
    and "\<forall>i \<in> fst ` set rows. 0 \<le> i \<and> i < 2 ^ 32 - 1"
  shows "\<forall>i \<in> fst ` set rows. i < uint n"
proof -
  have b: "1 \<le> max_id_plus_one rows" "max_id_plus_one rows < 2 ^ 32" "\<forall>i \<in> fst ` set rows. i < max_id_plus_one rows"
    using max_id_plus_one_bounds [OF assms(3)] by auto
  then have "uint n = max_id_plus_one rows"
    using assms(1,2) by (auto simp: next_prekey_id_def result_simps Let_def uint_word_of_int)
  with b(3) show ?thesis by simp
qed

lemma on_store_Inr: "on_store d r = (x, d') \<longleftrightarrow> r = (x, dv_store d') \<and> d' = d\<lparr>dv_store := dv_store d'\<rparr>"
  by (cases r; cases d; cases d') (auto simp: on_store_def)

lemma identity_key_pair_no_fault:
  "get_identity_key_pair (sl_pair_try_from L) f (dv_store d) = Inr pair
    \<Longrightarrow> identity_key L (\<lambda>_. None) d = Inr (sl_identity_key L pair)"
  by (cases "f 0"; cases "f 1"; cases "sd_local (dv_store d)") (auto simp: identity_key_def get_identity_key_pair_def)

lemma prekey_bundle_valid:
  assumes "prekey_bundle L fs g d = (Inr b, d')"
  shows "pb_device_id b = DEVICE_ID \<and> sl_device_id_err L DEVICE_ID = None \<and> sl_bundle_err L b = None"
  using assms unfolding prekey_bundle_def Let_def on_store_Inr try_st_Inr by (auto split: option.splits)

text \<open>What a successful call did, one fact per step.\<close>

lemma prekey_bundle_Inr:
  assumes "prekey_bundle L fs g d = (Inr b, d')"
  obtains pk_id b1 b2 b3 where
    "identity_key L (\<lambda>_. None) d = Inr (pb_identity b)"
    and "next_prekey_id (fs 1) (dv_store d) ''pre_keys'' = Inr pk_id"
    and "next_prekey_id (fs 2) (dv_store d) ''signed_pre_keys'' = Inr (pb_signed_id b)"
    and "next_prekey_id (fs 3) (dv_store d) ''kyber_pre_keys'' = Inr (pb_kyber_id b)"
    and "pb_pre_key b = Some (pk_id, sl_public L (pd_pre g))"
    and "rc_serialize (sc_pre_key (sl_codecs L)) (sl_pre_key_record L pk_id (pd_pre g)) = Inr b1"
    and "rc_serialize (sc_signed (sl_codecs L)) (sl_signed_record L (pb_signed_id b) (now_ts (pd_now g 0))
      (pd_signed g) (pb_signed_sig b)) = Inr b2"
    and "rc_serialize (sc_kyber (sl_codecs L)) (sl_kyber_record L (pb_kyber_id b) (now_ts (pd_now g 1))
      (pd_kyber g) (pb_kyber_sig b)) = Inr b3"
    and "dv_store d' = sd_kyber_update (hm_insert (uint (pb_kyber_id b)) b3)
      (sd_signed_update (hm_insert (uint (pb_signed_id b)) b2)
      (sd_pre_keys_update (hm_insert (uint pk_id) b1) (dv_store d)))"
proof -
  have "\<exists>pair pk_id b1 b2 b3 reg.
    get_identity_key_pair (sl_pair_try_from L) (fs 0) (dv_store d) = Inr pair \<and> pb_identity b = sl_identity_key L pair
    \<and> next_prekey_id (fs 1) (dv_store d) ''pre_keys'' = Inr pk_id
    \<and> next_prekey_id (fs 2) (dv_store d) ''signed_pre_keys'' = Inr (pb_signed_id b)
    \<and> next_prekey_id (fs 3) (dv_store d) ''kyber_pre_keys'' = Inr (pb_kyber_id b)
    \<and> pb_pre_key b = Some (pk_id, sl_public L (pd_pre g))
    \<and> rc_serialize (sc_pre_key (sl_codecs L)) (sl_pre_key_record L pk_id (pd_pre g)) = Inr b1
    \<and> rc_serialize (sc_signed (sl_codecs L)) (sl_signed_record L (pb_signed_id b) (now_ts (pd_now g 0))
        (pd_signed g) (pb_signed_sig b)) = Inr b2
    \<and> rc_serialize (sc_kyber (sl_codecs L)) (sl_kyber_record L (pb_kyber_id b) (now_ts (pd_now g 1))
        (pd_kyber g) (pb_kyber_sig b)) = Inr b3
    \<and> dv_store d' = sd_kyber_update (hm_insert (uint (pb_kyber_id b)) b3)
        (sd_signed_update (hm_insert (uint (pb_signed_id b)) b2)
        (sd_pre_keys_update (hm_insert (uint pk_id) b1) (dv_store d)))"
    using assms unfolding prekey_bundle_def Let_def on_store_Inr try_st_Inr apfst_block_Inr save_pre_key_def
      save_signed_pre_key_def save_kyber_pre_key_def
    by (clarsimp simp: block_def dest!: save_record_Inr split: option.splits)
  then show ?thesis using that by (auto simp: identity_key_pair_no_fault)
qed

lemma hm_get_in_keys: "hm_get m k = Some v \<Longrightarrow> k \<in> fst ` set m"
  by (force dest: hm_get_in)

lemma get_record_new:
  assumes "rec_storable rc r" and "rc_serialize rc r = Inr b"
  shows "get_record m rc (\<lambda>_. None) (hm_insert (uint i) b rows) i = Inr r"
  using assms by (auto simp: rec_storable_def get_record_def hm_laws)

lemma get_record_fresh:
  assumes "\<forall>i \<in> fst ` set rows. i < uint (n :: u32)" and "get_record m rc (\<lambda>_. None) rows j = Inr r"
  shows "get_record m rc (\<lambda>_. None) (hm_insert (uint n) b rows) j = Inr r"
proof -
  have "uint j \<in> fst ` set rows"
    using assms(2) by (cases "hm_get rows (uint j)") (auto simp: get_record_def dest: hm_get_in_keys)
  with assms(1) have "j \<noteq> n" by auto
  then show ?thesis using assms(2) by (simp add: get_record_other)
qed

text \<open>
  C11. A bundle that is shown can be answered: if the library reads back the records it writes, then after
  a successful \<^verbatim>\<open>prekey_bundle\<close> the store holds, under the three ids of the bundle, the records of exactly
  the keys whose public halves the bundle shows, the bundle carries the device's identity key, and every
  prekey of an earlier bundle that could be read before can still be read. (Ids below the last 32-bit
  number, as in \<open>sig_inv\<close>.)
\<close>

theorem shown_bundle_can_be_answered:
  assumes "prekey_bundle L fs g d = (Inr b, d')"
    and "\<forall>rows \<in> {sd_pre_keys (dv_store d), sd_signed (dv_store d), sd_kyber (dv_store d)}.
      \<forall>i \<in> fst ` set rows. 0 \<le> i \<and> i < 2 ^ 32 - 1"
    and "\<And>r. rec_storable (sc_pre_key (sl_codecs L)) r" and "\<And>r. rec_storable (sc_signed (sl_codecs L)) r"
    and "\<And>r. rec_storable (sc_kyber (sl_codecs L)) r"
  shows "identity_key L (\<lambda>_. None) d = Inr (pb_identity b)
    \<and> (\<exists>i. pb_pre_key b = Some (i, sl_public L (pd_pre g))
        \<and> get_pre_key (sc_pre_key (sl_codecs L)) (\<lambda>_. None) (dv_store d') i = Inr (sl_pre_key_record L i (pd_pre g)))
    \<and> get_signed_pre_key (sc_signed (sl_codecs L)) (\<lambda>_. None) (dv_store d') (pb_signed_id b)
      = Inr (sl_signed_record L (pb_signed_id b) (now_ts (pd_now g 0)) (pd_signed g) (pb_signed_sig b))
    \<and> get_kyber_pre_key (sc_kyber (sl_codecs L)) (\<lambda>_. None) (dv_store d') (pb_kyber_id b)
      = Inr (sl_kyber_record L (pb_kyber_id b) (now_ts (pd_now g 1)) (pd_kyber g) (pb_kyber_sig b))
    \<and> (get_pre_key (sc_pre_key (sl_codecs L)) (\<lambda>_. None) (dv_store d) j = Inr p
        \<longrightarrow> get_pre_key (sc_pre_key (sl_codecs L)) (\<lambda>_. None) (dv_store d') j = Inr p)
    \<and> (get_signed_pre_key (sc_signed (sl_codecs L)) (\<lambda>_. None) (dv_store d) j = Inr s
        \<longrightarrow> get_signed_pre_key (sc_signed (sl_codecs L)) (\<lambda>_. None) (dv_store d') j = Inr s)
    \<and> (get_kyber_pre_key (sc_kyber (sl_codecs L)) (\<lambda>_. None) (dv_store d) j = Inr y
        \<longrightarrow> get_kyber_pre_key (sc_kyber (sl_codecs L)) (\<lambda>_. None) (dv_store d') j = Inr y)"
proof -
  obtain pk_id b1 b2 b3 where own: "identity_key L (\<lambda>_. None) d = Inr (pb_identity b)"
    and ids: "next_prekey_id (fs 1) (dv_store d) ''pre_keys'' = Inr pk_id"
      "next_prekey_id (fs 2) (dv_store d) ''signed_pre_keys'' = Inr (pb_signed_id b)"
      "next_prekey_id (fs 3) (dv_store d) ''kyber_pre_keys'' = Inr (pb_kyber_id b)"
    and pk: "pb_pre_key b = Some (pk_id, sl_public L (pd_pre g))"
    and enc: "rc_serialize (sc_pre_key (sl_codecs L)) (sl_pre_key_record L pk_id (pd_pre g)) = Inr b1"
      "rc_serialize (sc_signed (sl_codecs L)) (sl_signed_record L (pb_signed_id b) (now_ts (pd_now g 0))
        (pd_signed g) (pb_signed_sig b)) = Inr b2"
      "rc_serialize (sc_kyber (sl_codecs L)) (sl_kyber_record L (pb_kyber_id b) (now_ts (pd_now g 1))
        (pd_kyber g) (pb_kyber_sig b)) = Inr b3"
    and d': "dv_store d' = sd_kyber_update (hm_insert (uint (pb_kyber_id b)) b3)
      (sd_signed_update (hm_insert (uint (pb_signed_id b)) b2)
      (sd_pre_keys_update (hm_insert (uint pk_id) b1) (dv_store d)))"
    by (rule prekey_bundle_Inr [OF assms(1)]) blast
  have above: "\<forall>i \<in> fst ` set (sd_pre_keys (dv_store d)). i < uint pk_id"
    "\<forall>i \<in> fst ` set (sd_signed (dv_store d)). i < uint (pb_signed_id b)"
    "\<forall>i \<in> fst ` set (sd_kyber (dv_store d)). i < uint (pb_kyber_id b)"
    using assms(2) by (intro next_prekey_id_above [OF ids(1)] next_prekey_id_above [OF ids(2)]
        next_prekey_id_above [OF ids(3)]; simp add: prekey_table_def)+
  show ?thesis
    unfolding get_pre_key_def get_signed_pre_key_def get_kyber_pre_key_def d'
    by (simp add: own pk get_record_fresh [OF above(1)] get_record_fresh [OF above(2)] get_record_fresh [OF above(3)]
        get_record_new [OF assms(3) enc(1)] get_record_new [OF assms(4) enc(2)] get_record_new [OF assms(5) enc(3)])
qed

lemma demo_bundle: "\<exists>b d'. prekey_bundle demo_lib (\<lambda>_ _. None) demo_draw demo_device = (Inr b, d')"
    by (simp add: prekey_bundle_def demo_lib_def demo_draw_def demo_device_def on_store_def get_identity_key_pair_def
        next_prekey_id_def prekey_table_def sd_empty_def max_id_plus_one_def save_pre_key_def save_signed_pre_key_def
        save_kyber_pre_key_def save_record_def demo_codecs_def demo_rec_codec_def get_local_registration_id_def DEVICE_ID_def Let_def)

theorem shown_bundle_can_be_answered_witness:
  "\<exists>b d'. prekey_bundle demo_lib (\<lambda>_ _. None) demo_draw demo_device = (Inr b, d')
    \<and> get_signed_pre_key demo_rec_codec (\<lambda>_. None) (dv_store d') (pb_signed_id b) = Inr [2]"
proof -
  obtain b d' where bd: "prekey_bundle demo_lib (\<lambda>_ _. None) demo_draw demo_device = (Inr b, d')"
    using demo_bundle by blast
  have "rec_storable demo_rec_codec r" for r by (simp add: rec_storable_def demo_rec_codec_def)
  then have "get_signed_pre_key demo_rec_codec (\<lambda>_. None) (dv_store d') (pb_signed_id b) = Inr [2]"
    using shown_bundle_can_be_answered [OF bd] by (simp add: demo_device_def sd_empty_def demo_lib_def demo_codecs_def demo_draw_def)
  with bd show ?thesis by blast
qed

section \<open>The first message and the safety number\<close>

text \<open>
  The first message is bound to the scanned code: the tag is accepted exactly when it is the keyed
  hash of this ciphertext under the key derived from this token and bucket; so two different
  ciphertexts accepted with one tag under one code are a collision of the keyed hash.
\<close>

theorem first_message_mac_binds:
  assumes "keyed_ok keyed" and "length mac = 32"
  shows "(verify_first_message_mac derive keyed token bucket ct mac = Inr ()
      \<longleftrightarrow> mac = first_message_mac derive keyed token bucket ct)
    \<and> (verify_first_message_mac derive keyed token bucket ct mac = Inr ()
        \<and> verify_first_message_mac derive keyed token bucket ct' mac = Inr () \<and> ct \<noteq> ct'
        \<longrightarrow> (\<exists>k m m'. m \<noteq> m' \<and> keyed k m = keyed k m'))"
proof -
  have "verify_first_message_mac derive keyed token bucket c mac = Inr ()
      \<longleftrightarrow> mac = first_message_mac derive keyed token bucket c" for c
    using assms ct_diff_zero_iff [of mac "first_message_mac derive keyed token bucket c"]
    by (simp add: verify_first_message_mac_def first_message_mac_def keyed_ok_def)
  then show ?thesis unfolding first_message_mac_def by (metis same_append_eq)
qed

theorem first_message_mac_binds_witness:
  "verify_first_message_mac (\<lambda>c m. m) (\<lambda>k m. take 32 (m @ k @ replicate 32 0)) [1] (replicate 32 2) [7]
     (take 32 ((ascii ''dc-first-msg-v1'' @ [7]) @ ([1] @ replicate 32 2 @ u32_be 0) @ replicate 32 0)) = Inr ()"
proof -
  have "keyed_ok (\<lambda>k m. take 32 (m @ k @ replicate 32 0))" by (auto simp: keyed_ok_def min_def)
  then show ?thesis
    by (subst first_message_mac_binds [THEN conjunct1])
      (simp_all add: first_message_mac_def derive_mailbox_secret_def mailbox_material_def)
qed

lemma show_nat_digits: "set (show_nat n) \<subseteq> set ''0123456789''"
proof (induction n rule: show_nat.induct)
  case (1 n)
  have "char_of (48 + m) \<in> set ''0123456789''" if "m < 10" for m :: nat
  proof -
    have "map char_of [48..<58 :: nat] = ''0123456789''" by code_simp
    moreover have "char_of (48 + m) \<in> set (map char_of [48..<58 :: nat])"
      unfolding set_map set_upt using that by (intro imageI) simp
    ultimately show ?thesis by metis
  qed
  with 1 show ?case by (subst show_nat.simps) auto
qed

lemma length_show_nat: "n < 10 ^ k \<Longrightarrow> 0 < k \<Longrightarrow> length (show_nat n) \<le> k"
proof (induction k arbitrary: n)
  case (Suc k)
  show ?case
  proof (cases "n < 10")
    case True
    then show ?thesis by (subst show_nat.simps) simp
  next
    case False
    with Suc.prems have "0 < k" by (cases k) auto
    moreover have "n div 10 < 10 ^ k" using Suc.prems by (simp add: less_mult_imp_div_less mult.commute)
    ultimately have "length (show_nat (n div 10)) \<le> k" using Suc.IH by blast
    then show ?thesis using False by (subst show_nat.simps) simp
  qed
qed simp

text \<open>
  The short safety code is always six decimal digits, and it is a function of the full display string:
  two ends that see the same full string see the same code, whatever order they name themselves in.
\<close>

theorem sas_code_is_six_digits:
  assumes "sas_code fingerprint display_string hash i k j l = Inr (full, code)"
  shows "length code = 6 \<and> set code \<subseteq> set ''0123456789''
    \<and> (sas_code fingerprint' display_string' hash j l i k = Inr (full, code') \<longrightarrow> code' = code)"
proof -
  obtain n where n: "n < 10 ^ 6" "code = pad_zero 6 n" "n = from_be (take 4 (hash (ascii ''dc-sas6-v1'' @ ascii full))) mod 1000000"
    using assms by (auto simp: sas_code_def result_simps Let_def)
  have "length code = 6" using length_show_nat [OF n(1)] by (simp add: n(2) pad_zero_def)
  moreover have "set code \<subseteq> set ''0123456789''" using show_nat_digits [of n] by (auto simp: n(2) pad_zero_def)
  ultimately show ?thesis using n by (auto simp: sas_code_def result_simps Let_def)
qed

theorem sas_code_is_six_digits_witness:
  "length (pad_zero 6 (from_be [0, 0, 1, 2] mod 1000000)) = 6"
proof -
  have "sas_code (\<lambda>v n i (k :: unit) j l. Inr ()) (\<lambda>_. Inr ''77'') (\<lambda>_. [0, 0, 1, 2, 3]) [] () [] ()
      = Inr (''77'', pad_zero 6 (from_be [0, 0, 1, 2] mod 1000000))"
    by (simp add: sas_code_def Let_def)
  from sas_code_is_six_digits [OF this] show ?thesis by blast
qed

section \<open>Errors\<close>

text \<open>
  Which failures are reported as a changed identity: opening a session and decrypting report a key
  the library distrusts as \<^verbatim>\<open>IdentityChanged\<close> with the name of the contact. Encrypting to such a contact
  and pinning another key for a pinned contact fail as well, but as an ordinary \<^verbatim>\<open>Crypto\<close> error.
\<close>

theorem changed_identity_error_classes:
  assumes "process remote (dv_address d) b (dv_store d) = (Inl (UntrustedIdentity remote), s)"
    and "enc plaintext remote (dv_address d) (dv_store d) = (Inl (UntrustedIdentity remote), s)"
    and "ty = 3 \<and> prekey_of ct = Inr m \<or> ty = 2 \<and> signal_of ct = Inr m"
    and "dec m remote (dv_address d) (dv_store d) = (Inl (UntrustedIdentity remote), s)"
    and "pinned (sc_key (sl_codecs L)) (dv_store d) remote k" and "k' \<noteq> k"
  shows "fst (process_bundle disp process d remote b) = Inl (IdentityChanged (fst remote))
    \<and> fst (decrypt disp prekey_of signal_of dec d remote ty ct) = Inl (IdentityChanged (fst remote))
    \<and> fst (encrypt disp enc mtype mser d remote plaintext) = Inl (Crypto (disp (UntrustedIdentity remote)))
    \<and> (\<exists>e. pin_identity L f d remote k' = (Inl (Crypto e), d))"
proof -
  obtain e where "save_identity (sc_key (sl_codecs L)) f (dv_store d) remote k' = (Inl e, dv_store d)"
    using save_identity_pinned [OF assms(5,6)] by blast
  then show ?thesis
    using assms(1-4)
    by (auto simp: process_bundle_def decrypt_def encrypt_def pin_identity_def on_store_def map_signal_err_def crypto_err_def)
qed

theorem changed_identity_error_classes_witness:
  "\<exists>e. pin_identity demo_lib (\<lambda>_. None) (demo_device\<lparr>dv_store := sd_empty\<lparr>sd_trusted := [((''bob'', 1), [5, 7])]\<rparr>\<rparr>)
     (''bob'', 1) [8] = (Inl (Crypto e), demo_device\<lparr>dv_store := sd_empty\<lparr>sd_trusted := [((''bob'', 1), [5, 7])]\<rparr>\<rparr>)"
proof -
  let ?d = "demo_device\<lparr>dv_store := sd_empty\<lparr>sd_trusted := [((''bob'', 1), [5, 7])]\<rparr>\<rparr>"
  let ?fail = "\<lambda>_ r _ s. (Inl (UntrustedIdentity r), s)"
  have "pinned (sc_key (sl_codecs demo_lib)) (dv_store ?d) (''bob'', 1) [7]"
    by (simp add: pinned_def row_key_def hm_get_def demo_lib_def demo_codecs_def demo_key_codec_def)
  from changed_identity_error_classes [where process = "\<lambda>r _ b s. (Inl (UntrustedIdentity r), s)" and enc = ?fail
      and dec = ?fail and prekey_of = Inr and d = ?d and remote = "(''bob'', 1)" and L = demo_lib and k' = "[8]"
      and f = "\<lambda>_. None" and b = "()" and s = "dv_store ?d" and ty = 2 and ct = "[]" and m = "[]" and disp = "\<lambda>_. []"
      and signal_of = Inr and mtype = "\<lambda>_ :: unit. Whisper" and mser = "\<lambda>_. []" and plaintext = "[]", OF _ _ _ _ this]
  show ?thesis by simp
qed

text \<open>
  Only the two message types are decrypted: any other type byte, and a ciphertext that does not
  parse as its type, is an error that leaves the device as it is; the types the device sends in a
  session (2 and 3) are the ones it accepts.
\<close>

theorem decrypt_accepts_two_types:
  "(ty \<noteq> 2 \<and> ty \<noteq> 3 \<longrightarrow> (\<exists>e. decrypt disp prekey_of signal_of dec d remote ty ct = (Inl (Crypto e), d)))
   \<and> (ty = 3 \<and> prekey_of ct = Inl err \<longrightarrow> decrypt disp prekey_of signal_of dec d remote ty ct = (Inl (Crypto (disp err)), d))
   \<and> (ty = 2 \<and> signal_of ct = Inl err \<longrightarrow> decrypt disp prekey_of signal_of dec d remote ty ct = (Inl (Crypto (disp err)), d))
   \<and> (\<forall>t. type_byte t = 2 \<or> type_byte t = 3 \<longleftrightarrow> t = Whisper \<or> t = PreKey)"
proof -
  have "type_byte t = 2 \<or> type_byte t = 3 \<longleftrightarrow> t = Whisper \<or> t = PreKey" for t by (cases t) simp_all
  then show ?thesis by (auto simp: decrypt_def on_store_def crypto_err_def)
qed

end
