(* ===== verification/Contacts.thy ===== *)
theory Contacts
  imports Sql "HOL-Library.Product_Lexorder"
begin

text \<open>
  \<^verbatim>\<open>crates/core/src/contacts.rs\<close>: the contact list and the chat log. The lock of the connection is the
  first library call of every operation. The order of rows with equal time stamps in \<^verbatim>\<open>list\<close> and
  \<^verbatim>\<open>last_messages\<close> is open (a parameter); \<^verbatim>\<open>messages\<close> orders by time stamp and row id, which is total.
\<close>

section \<open>Records and tables\<close>

record contact_info =
  ci_name :: string
  ci_identity :: bytes
  ci_bucket :: bytes
  ci_verified :: bool
  ci_note :: string
  ci_added_ms :: int
  ci_link_secret :: bytes
  ci_node_id :: string
  ci_node_naddr :: string

record chat_msg =
  cm_peer :: string
  cm_outgoing :: bool
  cm_text :: string
  cm_ts_ms :: int

record contact_row =
  ct_name :: string
  ct_identity :: bytes
  ct_bucket :: bytes
  ct_verified :: int
  ct_note :: string
  ct_added_ms :: int
  ct_link_secret :: bytes
  ct_node_id :: string
  ct_node_naddr :: string

record chat_row =
  cl_id :: int
  cl_peer :: string
  cl_outgoing :: int
  cl_text :: string
  cl_ts_ms :: int

text \<open>\<open>cd_seq\<close> is the counter behind \<^verbatim>\<open>AUTOINCREMENT\<close>.\<close>

record contact_db =
  cd_contacts :: "contact_row list"
  cd_chat_log :: "chat_row list"
  cd_seq :: int

definition cd_empty :: contact_db where
  "cd_empty = \<lparr>cd_contacts = [], cd_chat_log = [], cd_seq = 0\<rparr>"

definition CONTACTS_SCHEMA :: string where
  "CONTACTS_SCHEMA = ''
CREATE TABLE IF NOT EXISTS contacts (
    name TEXT PRIMARY KEY,
    identity BLOB NOT NULL,
    bucket BLOB NOT NULL,
    verified INTEGER NOT NULL DEFAULT 0,
    note TEXT NOT NULL DEFAULT '' @ [quote, quote] @ '',
    added_ms INTEGER NOT NULL,
    link_secret BLOB NOT NULL,
    node_id TEXT NOT NULL DEFAULT '' @ [quote, quote] @ '',
    node_naddr TEXT NOT NULL DEFAULT '' @ [quote, quote] @ ''
);
CREATE TABLE IF NOT EXISTS chat_log (
    id INTEGER PRIMARY KEY AUTOINCREMENT,
    peer TEXT NOT NULL,
    outgoing INTEGER NOT NULL,
    text TEXT NOT NULL,
    ts_ms INTEGER NOT NULL
);
CREATE INDEX IF NOT EXISTS idx_chat_peer_ts ON chat_log(peer, ts_ms);
''"

text \<open>\<^verbatim>\<open>d.as_millis() as i64\<close> of the time since the epoch; 0 for a clock before it.\<close>

definition contacts_now_ms :: "nat option \<Rightarrow> int" where
  "contacts_now_ms d = (case d of Some ms \<Rightarrow> u64_as_i64 (word_of_nat ms) | None \<Rightarrow> 0)"

definition bool_i64 :: "bool \<Rightarrow> int" where
  "bool_i64 b = (if b then 1 else 0)"

section \<open>Operations\<close>

text \<open>
  The two \<^verbatim>\<open>ALTER TABLE\<close> statements after the schema bring an old file up to these columns; their
  results are discarded and they have no effect on a file that has the columns.
\<close>

definition contacts_open :: "string option \<Rightarrow> (string \<Rightarrow> string option) \<Rightarrow> string option \<Rightarrow> contact_db \<Rightarrow> string
    \<Rightarrow> string option \<Rightarrow> contact_db result" where
  "contacts_open conn exec busy disk path key =
     (if key = None \<and> path \<noteq> '':memory:''
      then Inl (Db ''refusing to create unencrypted contact store: key required (strict mode)'')
      else try_res (guard_fault Db conn) (\<lambda>_.
        try_res (case key of Some k \<Rightarrow> guard_fault Db (exec (pragma_key k)) | None \<Rightarrow> Inr ()) (\<lambda>_.
        try_res (guard_fault Db busy) (\<lambda>_.
        try_res (guard_fault Db (exec CONTACTS_SCHEMA)) (\<lambda>_.
        Inr (if path = '':memory:'' then cd_empty else disk))))))"

definition upsert_contact :: "faults \<Rightarrow> int \<Rightarrow> contact_db \<Rightarrow> string \<Rightarrow> bytes \<Rightarrow> bytes \<Rightarrow> bool \<Rightarrow> string
    \<Rightarrow> bytes \<Rightarrow> string \<Rightarrow> string \<Rightarrow> unit result \<times> contact_db" where
  "upsert_contact f now d name ident bucket verified note link_secret node_id node_naddr =
     (if length ident \<noteq> 32 \<and> length ident \<noteq> 33
      then (Inl (Config ''contact identity must be 32 or 33 bytes (libsignal serialize = 33)''), d)
      else if length bucket \<noteq> 32 then (Inl (Config ''contact bucket must be 32 bytes''), d)
      else if length link_secret \<noteq> 32 then (Inl (Config ''contact link_secret must be 32 bytes''), d)
      else case f 0 of Some e \<Rightarrow> (Inl (Db e), d) | None \<Rightarrow>
           case f 1 of Some e \<Rightarrow> (Inl (Db e), d) | None \<Rightarrow>
             (Inr (), d\<lparr>cd_contacts :=
               (if name \<in> ct_name ` set (cd_contacts d)
                then update_where (\<lambda>r. ct_name r = name) (\<lambda>r. r\<lparr>ct_identity := ident, ct_bucket := bucket,
                  ct_verified := bool_i64 verified, ct_note := note, ct_link_secret := link_secret,
                  ct_node_id := node_id, ct_node_naddr := node_naddr\<rparr>) (cd_contacts d)
                else cd_contacts d @ [\<lparr>ct_name = name, ct_identity = ident, ct_bucket = bucket,
                  ct_verified = bool_i64 verified, ct_note = note, ct_added_ms = now,
                  ct_link_secret = link_secret, ct_node_id = node_id, ct_node_naddr = node_naddr\<rparr>])\<rparr>))"

definition to_info :: "contact_row \<Rightarrow> contact_info" where
  "to_info r = \<lparr>ci_name = ct_name r, ci_identity = ct_identity r, ci_bucket = ct_bucket r,
     ci_verified = (ct_verified r \<noteq> 0), ci_note = ct_note r, ci_added_ms = ct_added_ms r,
     ci_link_secret = ct_link_secret r, ci_node_id = ct_node_id r, ci_node_naddr = ct_node_naddr r\<rparr>"

text \<open>Lock, prepare, query, and stepping through the rows: the calls every reader makes.\<close>

definition read_calls :: "faults \<Rightarrow> unit result" where
  "read_calls f = try_res (guard_fault Db (f 0)) (\<lambda>_. try_res (guard_fault Db (f 1)) (\<lambda>_.
     try_res (guard_fault Db (f 2)) (\<lambda>_. guard_fault Db (f 3))))"

definition list_contacts :: "(contact_row list \<Rightarrow> contact_row list) \<Rightarrow> faults \<Rightarrow> contact_db \<Rightarrow> contact_info list result" where
  "list_contacts ord f d = try_res (read_calls f) (\<lambda>_. Inr (map to_info (ord (cd_contacts d))))"

definition set_verified :: "faults \<Rightarrow> contact_db \<Rightarrow> string \<Rightarrow> bool \<Rightarrow> unit result \<times> contact_db" where
  "set_verified f d name verified =
     (case f 0 of Some e \<Rightarrow> (Inl (Db e), d) | None \<Rightarrow>
      case f 1 of Some e \<Rightarrow> (Inl (Db e), d) | None \<Rightarrow>
        (Inr (), d\<lparr>cd_contacts := update_where (\<lambda>r. ct_name r = name)
          (\<lambda>r. r\<lparr>ct_verified := bool_i64 verified\<rparr>) (cd_contacts d)\<rparr>))"

definition delete_contact :: "faults \<Rightarrow> contact_db \<Rightarrow> string \<Rightarrow> unit result \<times> contact_db" where
  "delete_contact f d name =
     (case f 0 of Some e \<Rightarrow> (Inl (Db e), d) | None \<Rightarrow>
      case f 1 of Some e \<Rightarrow> (Inl (Db e), d) | None \<Rightarrow>
        (Inr (), d\<lparr>cd_contacts := delete_where (\<lambda>r. ct_name r = name) (cd_contacts d)\<rparr>))"

definition append_message :: "faults \<Rightarrow> int \<Rightarrow> contact_db \<Rightarrow> string \<Rightarrow> bool \<Rightarrow> string \<Rightarrow> unit result \<times> contact_db" where
  "append_message f now d peer outgoing txt =
     (case f 0 of Some e \<Rightarrow> (Inl (Db e), d) | None \<Rightarrow>
      case f 1 of Some e \<Rightarrow> (Inl (Db e), d) | None \<Rightarrow>
        (Inr (), d\<lparr>cd_seq := cd_seq d + 1, cd_chat_log := cd_chat_log d @ [\<lparr>cl_id = cd_seq d + 1,
          cl_peer = peer, cl_outgoing = bool_i64 outgoing, cl_text = txt, cl_ts_ms = now\<rparr>]\<rparr>))"

definition to_msg :: "chat_row \<Rightarrow> chat_msg" where
  "to_msg r = \<lparr>cm_peer = cl_peer r, cm_outgoing = (cl_outgoing r \<noteq> 0), cm_text = cl_text r, cm_ts_ms = cl_ts_ms r\<rparr>"

text \<open>\<^verbatim>\<open>JOIN (SELECT peer, MAX(id) ... GROUP BY peer)\<close>: the rows no other row of the peer exceeds in id.\<close>

definition last_messages :: "(chat_row list \<Rightarrow> chat_row list) \<Rightarrow> faults \<Rightarrow> contact_db \<Rightarrow> chat_msg list result" where
  "last_messages ord f d = try_res (read_calls f) (\<lambda>_. Inr (map to_msg (ord (filter
     (\<lambda>r. \<forall>r' \<in> set (cd_chat_log d). cl_peer r' = cl_peer r \<longrightarrow> cl_id r' \<le> cl_id r) (cd_chat_log d)))))"

text \<open>\<^verbatim>\<open>LIMIT ?\<close> of an \<^verbatim>\<open>i32\<close>: a negative limit is no limit.\<close>

definition take_limit :: "int \<Rightarrow> 'a list \<Rightarrow> 'a list" where
  "take_limit n xs = (if n < 0 then xs else take (nat n) xs)"

definition chat_key :: "chat_row \<Rightarrow> int \<times> int" where
  "chat_key r = (cl_ts_ms r, cl_id r)"

definition messages :: "faults \<Rightarrow> contact_db \<Rightarrow> string \<Rightarrow> int \<Rightarrow> chat_msg list result" where
  "messages f d peer limit = try_res (read_calls f) (\<lambda>_. Inr (map to_msg (sort_key chat_key
     (take_limit limit (rev (sort_key chat_key (filter (\<lambda>r. cl_peer r = peer) (cd_chat_log d))))))))"

section \<open>Reachable stores\<close>

datatype contact_op =
    Upsert string bytes bytes bool string bytes string string int
  | Verify string bool
  | Delete string
  | Append string bool string int

fun contact_apply :: "faults \<Rightarrow> contact_op \<Rightarrow> contact_db \<Rightarrow> contact_db" where
  "contact_apply f (Upsert n i b v t l ni na now) d = snd (upsert_contact f now d n i b v t l ni na)"
| "contact_apply f (Verify n v) d = snd (set_verified f d n v)"
| "contact_apply f (Delete n) d = snd (delete_contact f d n)"
| "contact_apply f (Append p o' t now) d = snd (append_message f now d p o' t)"

inductive contact_reach :: "contact_db \<Rightarrow> bool" where
  contact_init: "contact_reach cd_empty"
| contact_next: "contact_reach d \<Longrightarrow> contact_reach (contact_apply f op d)"

definition contact_inv :: "contact_db \<Rightarrow> bool" where
  "contact_inv d \<longleftrightarrow> distinct (map ct_name (cd_contacts d))
     \<and> (\<forall>r \<in> set (cd_contacts d). length (ct_identity r) \<in> {32, 33} \<and> length (ct_bucket r) = 32
          \<and> length (ct_link_secret r) = 32)
     \<and> distinct (map cl_id (cd_chat_log d)) \<and> (\<forall>r \<in> set (cd_chat_log d). cl_id r \<le> cd_seq d)"

definition contact_of :: "contact_db \<Rightarrow> string \<Rightarrow> contact_row option" where
  "contact_of d n = find (\<lambda>r. ct_name r = n) (cd_contacts d)"

section \<open>The invariant\<close>

lemma contact_apply_inv: "contact_inv d \<Longrightarrow> contact_inv (contact_apply f op d)"
proof (cases op)
  case (Upsert n i b v t l ni na now)
  assume inv: "contact_inv d"
  let ?u = "\<lambda>r. r\<lparr>ct_identity := i, ct_bucket := b, ct_verified := bool_i64 v, ct_note := t,
    ct_link_secret := l, ct_node_id := ni, ct_node_naddr := na\<rparr>"
  have "map ct_name (update_where (\<lambda>r. ct_name r = n) ?u (cd_contacts d)) = map ct_name (cd_contacts d)"
    by (rule update_where_keys) simp
  then show ?thesis
    using inv by (auto simp: Upsert upsert_contact_def contact_inv_def update_where_set split: option.split)
next
  case (Verify n v)
  assume inv: "contact_inv d"
  have "map ct_name (update_where (\<lambda>r. ct_name r = n) (\<lambda>r. r\<lparr>ct_verified := bool_i64 v\<rparr>) (cd_contacts d))
      = map ct_name (cd_contacts d)"
    by (rule update_where_keys) simp
  then show ?thesis
    using inv by (auto simp: Verify set_verified_def contact_inv_def update_where_set split: option.split)
qed (auto simp: contact_inv_def delete_contact_def append_message_def delete_where_def distinct_map_filter
    split: option.split)

lemma contact_reach_inv: "contact_reach d \<Longrightarrow> contact_inv d"
  by (induction rule: contact_reach.induct)
    (auto simp: contact_apply_inv, simp add: contact_inv_def cd_empty_def)

section \<open>Contacts\<close>

lemma contact_of_iff: "contact_inv d \<Longrightarrow> contact_of d n = Some r \<longleftrightarrow> r \<in> set (cd_contacts d) \<and> ct_name r = n"
  unfolding contact_of_def by (rule find_key_iff) (simp add: contact_inv_def)

lemma find_snoc: "find P (xs @ [x]) = (case find P xs of Some y \<Rightarrow> Some y | None \<Rightarrow> if P x then Some x else None)"
  by (induction xs) auto

text \<open>
  C35. Writing a contact: on every reachable store names are unique; a write with a key, bucket address or
  link secret of the wrong length is refused and changes nothing; otherwise, if the calls succeed, the
  name's entry holds exactly the given data, keeps the time it was first added, and every other
  contact is untouched.
\<close>

theorem upsert_writes_exactly_one_contact:
  assumes "contact_reach d" and "upsert_contact (\<lambda>_. None) now d n i b v t l ni na = (res, d')"
  shows "distinct (map ct_name (cd_contacts d))
    \<and> (res = Inr () \<longleftrightarrow> length i \<in> {32, 33} \<and> length b = 32 \<and> length l = 32)
    \<and> (if res = Inr () then
         contact_of d' n = Some \<lparr>ct_name = n, ct_identity = i, ct_bucket = b, ct_verified = bool_i64 v, ct_note = t,
           ct_added_ms = (case contact_of d n of Some r \<Rightarrow> ct_added_ms r | None \<Rightarrow> now), ct_link_secret = l,
           ct_node_id = ni, ct_node_naddr = na\<rparr>
         \<and> cd_chat_log d' = cd_chat_log d
         \<and> (m \<noteq> n \<longrightarrow> contact_of d' m = contact_of d m)
       else d' = d)"
proof -
  let ?u = "\<lambda>r. r\<lparr>ct_identity := i, ct_bucket := b, ct_verified := bool_i64 v, ct_note := t,
    ct_link_secret := l, ct_node_id := ni, ct_node_naddr := na\<rparr>"
  let ?row = "\<lambda>added. \<lparr>ct_name = n, ct_identity = i, ct_bucket = b, ct_verified = bool_i64 v, ct_note = t,
    ct_added_ms = added, ct_link_secret = l, ct_node_id = ni, ct_node_naddr = na\<rparr>"
  have inv: "contact_inv d" by (rule contact_reach_inv [OF assms(1)])
  have upd: "find (\<lambda>r. ct_name r = m) (update_where (\<lambda>r. ct_name r = n) ?u (cd_contacts d))
      = map_option (\<lambda>r. if m = n then ?u r else r) (find (\<lambda>r. ct_name r = m) (cd_contacts d))" for m
    by (rule find_update_where) simp
  have known: "contact_of d n = None \<longleftrightarrow> n \<notin> ct_name ` set (cd_contacts d)"
    by (auto simp: contact_of_def find_None_iff)
  have distinct: "distinct (map ct_name (cd_contacts d))" using inv by (simp add: contact_inv_def)
  show ?thesis
  proof (cases "length i \<in> {32, 33} \<and> length b = 32 \<and> length l = 32")
    case False
    then have "(\<exists>e. res = Inl e) \<and> d' = d"
      using assms(2) by (auto simp: upsert_contact_def split: if_splits)
    then show ?thesis using False distinct by auto
  next
    case True
    then have d': "res = Inr ()" "d' = d\<lparr>cd_contacts := (if n \<in> ct_name ` set (cd_contacts d)
        then update_where (\<lambda>r. ct_name r = n) ?u (cd_contacts d) else cd_contacts d @ [?row now])\<rparr>"
      using assms(2) by (auto simp: upsert_contact_def)
    have "m \<noteq> n \<Longrightarrow> contact_of d' m = contact_of d m"
      by (simp add: d'(2) contact_of_def upd find_snoc option.map_ident split: option.split)
    moreover have "contact_of d' n = Some (?row (case contact_of d n of Some r \<Rightarrow> ct_added_ms r | None \<Rightarrow> now))"
    proof (cases "contact_of d n")
      case None
      then show ?thesis using known by (simp add: d'(2) contact_of_def find_snoc)
    next
      case (Some r)
      then have "ct_name r = n" using contact_of_iff [OF inv] by blast
      then have "?u r = ?row (ct_added_ms r)" by (cases r) simp
      then show ?thesis using Some known upd [of n] by (simp add: d'(2) contact_of_def)
    qed
    ultimately show ?thesis using d' True distinct by simp
  qed
qed

theorem upsert_writes_exactly_one_contact_witness:
  "contact_of (snd (upsert_contact (\<lambda>_. None) 9 cd_empty ''bob'' (replicate 33 1) (replicate 32 2) True []
      (replicate 32 3) [] [])) ''bob''
    = Some \<lparr>ct_name = ''bob'', ct_identity = replicate 33 1, ct_bucket = replicate 32 2, ct_verified = 1,
        ct_note = [], ct_added_ms = 9, ct_link_secret = replicate 32 3, ct_node_id = [], ct_node_naddr = []\<rparr>"
proof -
  obtain res d' where d': "upsert_contact (\<lambda>_. None) 9 cd_empty ''bob'' (replicate 33 1) (replicate 32 2) True []
      (replicate 32 3) [] [] = (res, d')" by fastforce
  have "contact_of cd_empty ''bob'' = None" by (simp add: contact_of_def cd_empty_def)
  then show ?thesis
    using upsert_writes_exactly_one_contact [OF contact_init d', of "''bob''"]
    by (simp add: d' bool_i64_def split: if_splits)
qed

section \<open>The chat log\<close>

lemma sort_rev_sorted:
  "sorted (map f ys) \<Longrightarrow> inj_on f (set ys) \<Longrightarrow> sort_key f (rev ys) = ys"
  by (rule sort_key_inj_key_eq) simp_all

lemma chat_key_inj: "contact_inv d \<Longrightarrow> inj_on chat_key (set (cd_chat_log d))"
  by (auto simp: contact_inv_def distinct_map inj_on_def chat_key_def)

text \<open>
  Reading a conversation: on every reachable store, if the calls succeed, \<^verbatim>\<open>messages\<close> returns the
  peer's messages sorted by time and, within one millisecond, in the order they were stored; with a
  non-negative limit it returns the last ones of that sequence, and with a negative one all of them.
\<close>

theorem messages_are_the_latest_in_order:
  assumes "contact_reach d" and "log = sort_key chat_key (filter (\<lambda>r. cl_peer r = peer) (cd_chat_log d))"
  shows "messages (\<lambda>_. None) d peer limit
    = Inr (map to_msg (if limit < 0 then log else drop (length log - nat limit) log))"
proof -
  have inj: "inj_on chat_key (set log)"
    using chat_key_inj [OF contact_reach_inv [OF assms(1)]] by (rule inj_on_subset) (auto simp: assms(2))
  have sorted: "sorted (map chat_key log)" by (simp add: assms(2))
  have "take_limit limit (rev log) = rev (if limit < 0 then log else drop (length log - nat limit) log)"
    by (simp add: take_limit_def take_rev)
  moreover have "sort_key chat_key (rev (drop k log)) = drop k log" for k
    using sorted inj by (intro sort_rev_sorted)
      (auto simp: drop_map [symmetric] sorted_wrt_drop intro: inj_on_subset dest: in_set_dropD)
  moreover have "sort_key chat_key (rev log) = log" using sorted inj by (rule sort_rev_sorted)
  ultimately have "sort_key chat_key (take_limit limit (rev log))
      = (if limit < 0 then log else drop (length log - nat limit) log)" by simp
  then show ?thesis by (simp add: messages_def read_calls_def assms(2))
qed

theorem messages_are_the_latest_in_order_witness:
  "messages (\<lambda>_. None) (contact_apply (\<lambda>_. None) (Append ''bob'' True ''b'' 7)
      (contact_apply (\<lambda>_. None) (Append ''bob'' False ''a'' 7) cd_empty)) ''bob'' 1
    = Inr [\<lparr>cm_peer = ''bob'', cm_outgoing = True, cm_text = ''b'', cm_ts_ms = 7\<rparr>]"
  by (subst messages_are_the_latest_in_order [OF _ refl], intro contact_next contact_init)
    (simp add: append_message_def cd_empty_def to_msg_def bool_i64_def chat_key_def)

end
