(* ===== verification/Node_Net.thy ===== *)
theory Node_Net
  imports Identity
begin

text \<open>
  \<^verbatim>\<open>crates/core/src/node.rs\<close>: the address snapshot (\<^verbatim>\<open>dc://node?...\<close>) a node shows its contacts, with its
  hexadecimal and base64 codings, and the message exchange over the QUIC streams.

  Parameters: \<open>key_err\<close> (\<^verbatim>\<open>EndpointId::from_bytes\<close>), \<open>parse_url\<close> and \<open>show_url\<close> (\<^verbatim>\<open>RelayUrl\<close>), \<open>utf\<close>
  (\<^verbatim>\<open>String::from_utf8\<close>), and the outcomes of the network calls, the bind of the endpoint among them.
  The threads of the runtime and the callbacks' bodies are not modelled. \<open>ea_addrs\<close> lists the addresses
  in the order the endpoint library is given or yields them.
\<close>

section \<open>Addresses\<close>

text \<open>\<^verbatim>\<open>SocketAddr\<close>: octets, port, and for IPv6 the flow label and the scope.\<close>

datatype sockaddr = V4 bytes u16 | V6 bytes u16 u32 u32

datatype 'u transport_addr = Ip sockaddr | Relay_url 'u

record 'u endpoint_addr =
  ea_id :: bytes
  ea_addrs :: "'u transport_addr list"

fun sockaddr_wf :: "sockaddr \<Rightarrow> bool" where
  "sockaddr_wf (V4 o4 p) = (length o4 = 4)"
| "sockaddr_wf (V6 o6 p f s) = (length o6 = 16)"

fun is_unspecified :: "sockaddr \<Rightarrow> bool" where
  "is_unspecified (V4 o4 p) = (o4 = [0, 0, 0, 0])"
| "is_unspecified (V6 o6 p f s) = (o6 = replicate 16 0)"

fun is_loopback :: "sockaddr \<Rightarrow> bool" where
  "is_loopback (V4 o4 p) = (hd o4 = 127)"
| "is_loopback (V6 o6 p f s) = (o6 = replicate 15 0 @ [1])"

fun sockaddr_bytes :: "sockaddr \<Rightarrow> bytes" where
  "sockaddr_bytes (V4 o4 p) = o4 @ u16_be p"
| "sockaddr_bytes (V6 o6 p f s) = o6 @ u16_be p"

definition sockaddr_from_bytes :: "bytes \<Rightarrow> sockaddr result" where
  "sockaddr_from_bytes bs =
     (if length bs = 6 then Inr (V4 (take 4 bs) (word_of_nat (from_be (drop 4 bs))))
      else if length bs = 18 then Inr (V6 (take 16 bs) (word_of_nat (from_be (drop 16 bs))) 0 0)
      else Inl (Config ''bad sockaddr bytes''))"

section \<open>Hexadecimal and base64\<close>

definition unhex :: "string \<Rightarrow> bytes option" where
  "unhex s =
     (if length s mod 2 \<noteq> 0 \<or> (\<exists>c \<in> set s. hex_value c = None) then None
      else Some (map (\<lambda>p. word_of_nat (16 * the (hex_value (p ! 0)) + the (hex_value (p ! 1)))) (chunks 2 s)))"

definition TBL :: string where
  "TBL = ''ABCDEFGHIJKLMNOPQRSTUVWXYZabcdefghijklmnopqrstuvwxyz0123456789-_''"

text \<open>One group of at most three bytes: \<^verbatim>\<open>n = (b0 << 16) | (b1 << 8) | b2\<close> and its sextets.\<close>

definition sextet :: "u32 \<Rightarrow> nat \<Rightarrow> u32" where
  "sextet n k = drop_bit k n AND 63"

definition b64_chunk :: "bytes \<Rightarrow> string" where
  "b64_chunk ch =
     (let b0 = ucast (ch ! 0) :: u32;
          b1 = (if 1 < length ch then ucast (ch ! 1) else 0);
          b2 = (if 2 < length ch then ucast (ch ! 2) else 0);
          n = (push_bit 16 b0 OR push_bit 8 b1) OR b2
      in [TBL ! unat (sextet n 18), TBL ! unat (sextet n 12)]
         @ (if length ch > 1 then [TBL ! unat (sextet n 6)] else [])
         @ (if length ch > 2 then [TBL ! unat (sextet n 0)] else []))"

definition b64 :: "bytes \<Rightarrow> string" where
  "b64 bs = concat (map b64_chunk (chunks 3 bs))"

definition b64_rev :: "char \<Rightarrow> u32 option" where
  "b64_rev ch = (let c = of_char ch :: nat in
     if 65 \<le> c \<and> c \<le> 90 then Some (word_of_nat (c - 65))
     else if 97 \<le> c \<and> c \<le> 122 then Some (word_of_nat (c - 97) + 26)
     else if 48 \<le> c \<and> c \<le> 57 then Some (word_of_nat (c - 48) + 52)
     else if c = 45 then Some 62
     else if c = 95 then Some 63
     else None)"

text \<open>The decoding loop: accumulator, number of pending bits, output.\<close>

fun unb64_loop :: "u32 \<Rightarrow> nat \<Rightarrow> bytes \<Rightarrow> string \<Rightarrow> bytes result" where
  "unb64_loop acc bits out [] = Inr out"
| "unb64_loop acc bits out (c # cs) =
     (case b64_rev c of
        None \<Rightarrow> Inl (Config ''bad base64 char'')
      | Some v \<Rightarrow>
          let acc = push_bit 6 acc OR v; bits = bits + 6 in
          if bits \<ge> 8 then unb64_loop acc (bits - 8) (out @ [ucast (drop_bit (bits - 8) acc AND 0xFF)]) cs
          else unb64_loop acc bits out cs)"

definition unb64 :: "string \<Rightarrow> bytes result" where
  "unb64 s = (if length s mod 4 = 1 then Inl (Config ''bad base64 length'') else unb64_loop 0 0 [] s)"

section \<open>The snapshot\<close>

definition shown_ips :: "bool \<Rightarrow> 'u endpoint_addr \<Rightarrow> sockaddr list" where
  "shown_ips include_loopback ea = filter (\<lambda>a. \<not> is_unspecified a \<and> (include_loopback \<or> \<not> is_loopback a))
     (concat (map (\<lambda>t. case t of Ip a \<Rightarrow> [a] | Relay_url u \<Rightarrow> []) (ea_addrs ea)))"

definition relay_urls :: "'u endpoint_addr \<Rightarrow> 'u list" where
  "relay_urls ea = concat (map (\<lambda>t. case t of Ip a \<Rightarrow> [] | Relay_url u \<Rightarrow> [u]) (ea_addrs ea))"

definition naddr_string :: "('u \<Rightarrow> string) \<Rightarrow> bool \<Rightarrow> 'u endpoint_addr \<Rightarrow> string" where
  "naddr_string show_url include_loopback ea =
     (let out = ''dc://node?v=1&id='' @ hex (ea_id ea);
          ips = map (\<lambda>a. b64 (sockaddr_bytes a)) (shown_ips include_loopback ea);
          out = (if ips \<noteq> [] then out @ ''&a='' @ join_with '','' ips else out)
      in case relay_urls ea of
           relay # _ \<Rightarrow> out @ ''&r='' @ b64 (ascii (show_url relay))
         | [] \<Rightarrow> out)"

text \<open>The \<^verbatim>\<open>a\<close> field: every part is decoded, the first failure is the result.\<close>

fun parse_ips :: "string list \<Rightarrow> 'u transport_addr list result" where
  "parse_ips [] = Inr []"
| "parse_ips (p # ps) =
     try_res (unb64 p) (\<lambda>b. try_res (sockaddr_from_bytes b) (\<lambda>a.
       try_res (parse_ips ps) (\<lambda>as. Inr (Ip a # as))))"

text \<open>One \<^verbatim>\<open>key=value\<close> pair, on the id found so far and the addresses collected so far.\<close>

definition parse_pair :: "(bytes \<Rightarrow> string option) \<Rightarrow> (bytes \<Rightarrow> string option) \<Rightarrow> (string \<Rightarrow> string + 'u) \<Rightarrow> string
    \<Rightarrow> bytes option \<times> 'u transport_addr list \<Rightarrow> (bytes option \<times> 'u transport_addr list) result" where
  "parse_pair key_err utf parse_url pair st = (case st of (i, addrs) \<Rightarrow>
     (case split_once (CHR ''='') pair of
        None \<Rightarrow> Inl (Config ''bad snapshot pair'')
      | Some (k, v) \<Rightarrow>
          if k = ''v'' then (if v \<noteq> ''1'' then Inl (Config ''unsupported snapshot version'') else Inr (i, addrs))
          else if k = ''id'' then
            (case unhex v of
               None \<Rightarrow> Inl (Config ''bad node id'')
             | Some bs \<Rightarrow>
                 if length bs \<noteq> 32 then Inl (Config ''node id must be 32 bytes'')
                 else try_res (guard_fault (\<lambda>e. Config (''node id: '' @ e)) (key_err bs)) (\<lambda>_. Inr (Some bs, addrs)))
          else if k = ''a'' then
            try_res (parse_ips (split_on (CHR '','') v)) (\<lambda>as. Inr (i, addrs @ as))
          else if k = ''r'' then
            try_res (unb64 v) (\<lambda>b. case utf b of
               None \<Rightarrow> Inl (Config ''bad relay url'')
             | Some url \<Rightarrow> try_res (map_err (\<lambda>e. Config (''relay url: '' @ e)) (parse_url url))
                 (\<lambda>relay. Inr (i, addrs @ [Relay_url relay])))
          else Inr (i, addrs)))"

fun parse_pairs where
  "parse_pairs key_err utf parse_url [] st = Inr st"
| "parse_pairs key_err utf parse_url (p # ps) st =
     try_res (parse_pair key_err utf parse_url p st) (\<lambda>st'. parse_pairs key_err utf parse_url ps st')"

definition parse_naddr :: "(bytes \<Rightarrow> string option) \<Rightarrow> (bytes \<Rightarrow> string option) \<Rightarrow> (string \<Rightarrow> string + 'u) \<Rightarrow> string
    \<Rightarrow> 'u endpoint_addr result" where
  "parse_naddr key_err utf parse_url s =
     (case strip_prefix ''dc://node?'' s of
        None \<Rightarrow> Inl (Config ''not a dc://node snapshot'')
      | Some body \<Rightarrow>
          try_res (parse_pairs key_err utf parse_url (split_on (CHR ''&'') body) (None, [])) (\<lambda>(i, addrs).
            case i of None \<Rightarrow> Inl (Config ''snapshot missing id'')
            | Some i \<Rightarrow> Inr \<lparr>ea_id = i, ea_addrs = addrs\<rparr>))"

definition node_id_of_naddr where
  "node_id_of_naddr key_err utf parse_url s =
     try_res (parse_naddr key_err utf parse_url s) (\<lambda>ea. Inr (hex (ea_id ea)))"

section \<open>Messages\<close>

definition MAX_MSG_LEN :: nat where
  "MAX_MSG_LEN = 256 * 1024"

definition ACK :: u8 where
  "ACK = 0x01"

text \<open>
  The outcomes of the calls of one \<^verbatim>\<open>send\<close>. A call under \<^verbatim>\<open>timeout\<close> is \<open>None\<close> when the time is up.
\<close>

record send_env =
  se_connect :: "(string + unit) option"
  se_open_bi :: "string + unit"
  se_write :: "string + unit"
  se_finish :: "string + unit"
  se_ack :: "(string + bytes) option"

definition io_err :: "string \<Rightarrow> string + 'a \<Rightarrow> 'a result" where
  "io_err what r = map_err (\<lambda>e. Io (what @ '': '' @ e)) r"

definition in_time :: "string \<Rightarrow> 'a option \<Rightarrow> 'a result" where
  "in_time what r = (case r of None \<Rightarrow> Inl (Io what) | Some x \<Rightarrow> Inr x)"

definition send where
  "send key_err utf parse_url env naddr payload =
     try_res (parse_naddr key_err utf parse_url naddr) (\<lambda>addr.
     if payload = [] then Inl (Config ''empty payload'')
     else if length payload > MAX_MSG_LEN
     then Inl (Config (''payload '' @ show_nat (length payload) @ '' exceeds '' @ show_nat MAX_MSG_LEN))
     else try_res (try_res (in_time ''connect timeout'' (se_connect env)) (io_err ''connect'')) (\<lambda>_.
       try_res (io_err ''open_bi'' (se_open_bi env)) (\<lambda>_.
       try_res (io_err ''write'' (se_write env)) (\<lambda>_.
       try_res (io_err ''finish'' (se_finish env)) (\<lambda>_.
       try_res (try_res (in_time ''ack timeout'' (se_ack env)) (io_err ''ack read'')) (\<lambda>ack.
       if ack \<noteq> [ACK] then Inl (Io ''ack missing'') else Inr ()))))))"

text \<open>
  The receiving loop of one connection: the events are the results of \<^verbatim>\<open>accept_bi\<close> and \<^verbatim>\<open>read_to_end\<close>.
  \<^verbatim>\<open>read_to_end(MAX_MSG_LEN)\<close> fails on a longer stream. The result is the messages handed to the sink,
  each answered with an acknowledgement, in order.
\<close>

datatype stream_event = Closed | ReadError | Stream bytes

fun serve :: "string \<Rightarrow> stream_event list \<Rightarrow> (string \<times> bytes) list" where
  "serve remote [] = []"
| "serve remote (Closed # es) = []"
| "serve remote (ReadError # es) = []"
| "serve remote (Stream bs # es) = (if length bs > MAX_MSG_LEN then [] else (remote, bs) # serve remote es)"

section \<open>The node\<close>

text \<open>
  \<^verbatim>\<open>Node\<close>: the bound endpoint, by the address it reports, and whether the receiving task is running.
\<close>

record 'u node =
  nd_addr :: "'u endpoint_addr"
  nd_accepting :: bool

datatype 'u relay_mode = Relay_disabled | Relay_custom 'u

text \<open>\<^verbatim>\<open>str::trim\<close> on code points below 256.\<close>

definition is_white :: "char \<Rightarrow> bool" where
  "is_white c \<longleftrightarrow> of_char c \<in> {9, 10, 11, 12, 13, 32, 0x85, 0xA0 :: nat}"

definition trim :: "string \<Rightarrow> string" where
  "trim s = rev (dropWhile is_white (rev (dropWhile is_white s)))"

text \<open>
  \<^verbatim>\<open>Node::start\<close>. Parameters: whether the runtime can be built, and what the bind of the endpoint
  with this seed and relay mode gives. Beside the node, the result has the id and the snapshot handed to
  \<^verbatim>\<open>on_ready\<close>.
\<close>

definition relay_choice :: "(string \<Rightarrow> string + 'u) \<Rightarrow> string \<Rightarrow> 'u relay_mode result" where
  "relay_choice parse_url relay_url =
     (let relay = trim relay_url in
      if relay = [] then Inr Relay_disabled
      else try_res (map_err (\<lambda>e. Config (''relay url: '' @ e)) (parse_url relay)) (\<lambda>u. Inr (Relay_custom u)))"

definition start :: "string option \<Rightarrow> (string \<Rightarrow> string + 'u) \<Rightarrow> ('u \<Rightarrow> string)
    \<Rightarrow> (bytes \<Rightarrow> 'u relay_mode \<Rightarrow> string + 'u endpoint_addr) \<Rightarrow> string \<Rightarrow> bytes
    \<Rightarrow> ('u node \<times> string \<times> string) result" where
  "start rt parse_url show_url ep_bind relay_url seed =
     try_res (guard_fault Io rt) (\<lambda>_.
     try_res (relay_choice parse_url relay_url) (\<lambda>mode.
     try_res (map_err Io (ep_bind seed mode)) (\<lambda>ep.
       Inr (\<lparr>nd_addr = ep, nd_accepting = True\<rparr>, hex (ea_id ep), naddr_string show_url False ep))))"

definition node_id_hex :: "'u node \<Rightarrow> string" where
  "node_id_hex n = hex (ea_id (nd_addr n))"

definition export_naddr :: "('u \<Rightarrow> string) \<Rightarrow> 'u node \<Rightarrow> string" where
  "export_naddr show_url n = naddr_string show_url False (nd_addr n)"

definition stop :: "'u node \<Rightarrow> 'u node" where
  "stop n = n\<lparr>nd_accepting := False\<rparr>"

section \<open>Specification vocabulary\<close>

text \<open>A group of three bytes as a number, a sextet shifted in, and an address without its scope.\<close>

abbreviation group_word :: "u8 \<Rightarrow> u8 \<Rightarrow> u8 \<Rightarrow> u32" where
  "group_word a b c \<equiv> (push_bit 16 (ucast a) OR push_bit 8 (ucast b)) OR ucast c"

abbreviation shift_in :: "u32 \<Rightarrow> u32 \<Rightarrow> u32" where
  "shift_in acc v \<equiv> push_bit 6 acc OR v"

fun drop_scope :: "sockaddr \<Rightarrow> sockaddr" where
  "drop_scope (V4 o4 p) = V4 o4 p"
| "drop_scope (V6 o6 p f s) = V6 o6 p 0 0"

text \<open>The fields of a printed snapshot.\<close>

definition naddr_fields :: "('u \<Rightarrow> string) \<Rightarrow> bool \<Rightarrow> 'u endpoint_addr \<Rightarrow> string list" where
  "naddr_fields show_url lo ea = [''v=1'', ''id='' @ hex (ea_id ea)]
     @ (if shown_ips lo ea = [] then [] else [''a='' @ join_with '','' (map (\<lambda>a. b64 (sockaddr_bytes a)) (shown_ips lo ea))])
     @ (case relay_urls ea of u # _ \<Rightarrow> [''r='' @ b64 (ascii (show_url u))] | [] \<Rightarrow> [])"

section \<open>Hexadecimal round trip\<close>

lemma chunks_hex: "chunks 2 (hex bs) = map hex_byte bs"
proof (induction bs)
  case (Cons b bs)
  have "hex (b # bs) \<noteq> []" by (simp add: hex_byte_def)
  then have "chunks 2 (hex (b # bs)) = take 2 (hex (b # bs)) # chunks 2 (drop 2 (hex (b # bs)))"
    by (intro chunks_step) auto
  then show ?case using Cons.IH by simp
qed simp

lemma unhex_hex: "unhex (hex bs) = Some bs"
proof -
  have "\<forall>c \<in> set (hex bs). hex_value c \<noteq> None"
    using hex_value_digit by (auto dest!: set_hex)
  moreover have "word_of_nat (16 * the (hex_value (hex_byte b ! 0)) + the (hex_value (hex_byte b ! 1))) = b" for b
    using nibbles [of b] by (simp add: hex_byte_def hex_value_digit)
  ultimately show ?thesis by (auto simp: unhex_def chunks_hex map_idI comp_def)
qed

section \<open>Base64 round trip\<close>

lemma length_TBL: "length TBL = 64"
  by (simp add: TBL_def)

lemma map_rev_TBL: "map b64_rev TBL = map (\<lambda>i. Some (word_of_nat i)) [0..<64]"
  by (simp add: TBL_def b64_rev_def upt_conv_Cons)

lemma b64_rev_TBL: "i < 64 \<Longrightarrow> b64_rev (TBL ! i) = Some (word_of_nat i)"
  using arg_cong [OF map_rev_TBL, of "\<lambda>xs. xs ! i"] by (simp add: length_TBL)

lemma TBL_not_special: "i < 64 \<Longrightarrow> TBL ! i \<noteq> CHR ''&'' \<and> TBL ! i \<noteq> CHR '',''"
proof -
  have "CHR ''&'' \<notin> set TBL" "CHR '','' \<notin> set TBL" by (simp_all add: TBL_def)
  then show "i < 64 \<Longrightarrow> TBL ! i \<noteq> CHR ''&'' \<and> TBL ! i \<noteq> CHR '',''" by (metis length_TBL nth_mem)
qed

lemma masks: "(63 :: u32) = mask 6" "(0xFF :: u32) = mask 8"
  by (simp_all add: mask_eq_exp_minus_1)

lemma sextet_less: "unat (sextet n k) < 64"
proof -
  have "sextet n k = take_bit 6 (drop_bit k n)" by (simp add: sextet_def masks take_bit_eq_mask)
  then show ?thesis
    using take_bit_nat_less_exp [of 6 "unat (drop_bit k n)"] by (simp add: unsigned_take_bit_eq)
qed

lemma rev_sextet: "b64_rev (TBL ! unat (sextet n k)) = Some (sextet n k)"
  using b64_rev_TBL [OF sextet_less] by simp

lemma bit_high: "8 \<le> n \<Longrightarrow> \<not> bit (w :: u8) n"
  using bit_imp_le_length [of w n] by auto

lemma eight_cases: "(i :: nat) < 8 \<Longrightarrow> i \<in> {0, 1, 2, 3, 4, 5, 6, 7}"
  by auto

text \<open>What the loop extracts after two, three and four sextets of a group, whatever was in the accumulator.\<close>

lemma extract1:
  "ucast (drop_bit 4 (shift_in (shift_in acc (sextet (group_word a b c) 18)) (sextet (group_word a b c) 12)) AND 0xFF) = a"
  by (rule bit_word_eqI)
    (auto simp: sextet_def masks bit_simps bit_high dest!: eight_cases simp flip: numeral_2_eq_2 numeral_3_eq_3)

lemma extract2:
  "ucast (drop_bit 2 (shift_in (shift_in acc (sextet (group_word a b c) 12)) (sextet (group_word a b c) 6)) AND 0xFF) = b"
  by (rule bit_word_eqI)
    (auto simp: sextet_def masks bit_simps bit_high dest!: eight_cases simp flip: numeral_2_eq_2 numeral_3_eq_3)

lemma extract3:
  "ucast (drop_bit 0 (shift_in (shift_in acc (sextet (group_word a b c) 6)) (sextet (group_word a b c) 0)) AND 0xFF) = c"
  by (rule bit_word_eqI)
    (auto simp: sextet_def masks bit_simps bit_high dest!: eight_cases simp flip: numeral_2_eq_2 numeral_3_eq_3)

lemma loop_group3: "\<exists>acc'. unb64_loop acc 0 out (b64_chunk [a, b, c] @ cs) = unb64_loop acc' 0 (out @ [a, b, c]) cs"
  using extract1 [of acc a b c] extract2 [of _ a b c] extract3 [of _ a b c]
  by (auto simp: b64_chunk_def Let_def rev_sextet)

lemma loop_group2: "unb64_loop acc 0 out (b64_chunk [a, b]) = Inr (out @ [a, b])"
  using extract1 [of acc a b 0] extract2 [of _ a b 0] by (simp add: b64_chunk_def Let_def rev_sextet)

lemma loop_group1: "unb64_loop acc 0 out (b64_chunk [a]) = Inr (out @ [a])"
  using extract1 [of acc a 0 0] by (simp add: b64_chunk_def Let_def rev_sextet)

lemma b64_group: "b64 (a # b # c # ds) = b64_chunk [a, b, c] @ b64 ds"
proof -
  have "chunks 3 (a # b # c # ds) = take 3 (a # b # c # ds) # chunks 3 (drop 3 (a # b # c # ds))"
    by (rule chunks_step) simp_all
  then show ?thesis by (simp add: b64_def)
qed

lemma unb64_loop_b64: "unb64_loop acc 0 out (b64 bs) = Inr (out @ bs)"
proof (induction bs arbitrary: acc out rule: length_induct)
  case (1 bs)
  consider "bs = []" | a where "bs = [a]" | a b where "bs = [a, b]" | a b c ds where "bs = a # b # c # ds"
    by (metis list.exhaust)
  then show ?case
  proof cases
    case (4 a b c ds)
    then have "b64 bs = b64_chunk [a, b, c] @ b64 ds" by (simp add: b64_group)
    moreover obtain acc' where "unb64_loop acc 0 out (b64_chunk [a, b, c] @ b64 ds) = unb64_loop acc' 0 (out @ [a, b, c]) (b64 ds)"
      using loop_group3 by blast
    ultimately show ?thesis using "1.IH" 4 by auto
  qed (simp_all add: b64_def chunks_step loop_group1 loop_group2)
qed

lemma length_b64: "length (b64 bs) mod 4 \<noteq> 1"
proof (induction bs rule: length_induct)
  case (1 bs)
  have len: "length (b64_chunk ch) = (if length ch > 2 then 4 else if length ch > 1 then 3 else 2)" for ch
    by (simp add: b64_chunk_def Let_def)
  consider "bs = []" | a where "bs = [a]" | a b where "bs = [a, b]" | a b c ds where "bs = a # b # c # ds"
    by (metis list.exhaust)
  then show ?case
  proof cases
    case (4 a b c ds)
    then have "b64 bs = b64_chunk [a, b, c] @ b64 ds" by (simp add: b64_group)
    then show ?thesis using "1.IH" 4 by (simp add: len)
  qed (simp_all add: b64_def chunks_step len)
qed

lemma unb64_b64: "unb64 (b64 bs) = Inr bs"
  using unb64_loop_b64 [of 0 "[]" bs] length_b64 by (simp add: unb64_def)

lemma b64_not_special: "CHR ''&'' \<notin> set (b64 bs)" "CHR '','' \<notin> set (b64 bs)"
proof -
  have "CHR ''&'' \<noteq> TBL ! unat (sextet n k)" "CHR '','' \<noteq> TBL ! unat (sextet n k)" for n k
    using TBL_not_special [OF sextet_less] by metis+
  then show "CHR ''&'' \<notin> set (b64 bs)" "CHR '','' \<notin> set (b64 bs)"
    by (auto simp: b64_def b64_chunk_def Let_def)
qed

section \<open>Socket addresses\<close>

lemma sockaddr_roundtrip: "sockaddr_wf a \<Longrightarrow> sockaddr_from_bytes (sockaddr_bytes a) = Inr (drop_scope a)"
  by (cases a) (simp_all add: sockaddr_from_bytes_def)

lemma parse_ips_roundtrip:
  "\<forall>a \<in> set as. sockaddr_wf a \<Longrightarrow> parse_ips (map (\<lambda>a. b64 (sockaddr_bytes a)) as) = Inr (map (Ip \<circ> drop_scope) as)"
  by (induction as) (simp_all add: unb64_b64 sockaddr_roundtrip)

section \<open>Snapshot round trip\<close>

lemma naddr_string_fields:
  "naddr_string show_url lo ea = ''dc://node?'' @ join_with ''&'' (naddr_fields show_url lo ea)"
  by (auto simp: naddr_string_def naddr_fields_def Let_def split: list.split)

lemma join_comma_set: "\<forall>w \<in> set ws. CHR ''&'' \<notin> set w \<Longrightarrow> CHR ''&'' \<notin> set (join_with '','' ws)"
  by (induction "'',''" ws rule: join_with.induct) auto

lemma fields_split:
  "split_on (CHR ''&'') (join_with ''&'' (naddr_fields show_url lo ea)) = naddr_fields show_url lo ea"
proof (rule split_on_join)
  show "\<forall>w \<in> set (naddr_fields show_url lo ea). CHR ''&'' \<notin> set w"
    using join_comma_set [of "map (\<lambda>a. b64 (sockaddr_bytes a)) (shown_ips lo ea)"]
    by (auto simp: naddr_fields_def hex_not_special b64_not_special split: if_splits list.splits)
qed (simp add: naddr_fields_def)

lemma pair_simps:
  "split_once (CHR ''='') ''v=1'' = Some (''v'', ''1'')"
  "split_once (CHR ''='') (''id='' @ x) = Some (''id'', x)"
  "split_once (CHR ''='') (''a='' @ x) = Some (''a'', x)"
  "split_once (CHR ''='') (''r='' @ x) = Some (''r'', x)"
  by simp_all

lemma chars_of_ascii: "map (char_of \<circ> unat) (ascii u) = u"
proof -
  have "char_of (unat (of_char c :: u8)) = c" for c
  proof -
    have "unat (word_of_nat (of_char c) :: u8) = of_char c"
      by (rule unat_of_nat_small) (use nat_of_char_less_256 [of c] in simp)
    then show ?thesis unfolding of_nat_of_char by simp
  qed
  then show ?thesis by (simp add: ascii_def map_idI comp_def)
qed

lemma snapshot_parses:
  "\<exists>ea. parse_naddr (\<lambda>_. None) utf parse_url (naddr_string show_url False \<lparr>ea_id = replicate 32 b, ea_addrs = []\<rparr>) = Inr ea"
  unfolding parse_naddr_def naddr_string_fields strip_prefix_append option.case fields_split
  by (simp add: naddr_fields_def shown_ips_def relay_urls_def parse_pair_def unhex_hex)

lemma snapshot_reads_back:
  fixes ea :: "'u endpoint_addr"
  assumes "length (ea_id ea) = 32" and "key_err (ea_id ea) = None"
    and "\<forall>a \<in> set (shown_ips lo ea). sockaddr_wf a"
    and "\<And>u. utf (ascii (show_url u)) = Some (show_url u)" and "\<And>u. parse_url (show_url u) = Inr u"
  shows "parse_naddr key_err utf parse_url (naddr_string show_url lo ea)
      = Inr \<lparr>ea_id = ea_id ea, ea_addrs = map (Ip \<circ> drop_scope) (shown_ips lo ea)
          @ map Relay_url (take 1 (relay_urls ea))\<rparr>"
proof -
  have ips: "parse_ips (split_on (CHR '','') (join_with '','' (map (\<lambda>a. b64 (sockaddr_bytes a)) (shown_ips lo ea))))
      = (Inr (map (Ip \<circ> drop_scope) (shown_ips lo ea)) :: 'u transport_addr list result)" if "shown_ips lo ea \<noteq> []"
    using that parse_ips_roundtrip [OF assms(3)] by (subst split_on_join) (auto simp: b64_not_special)
  have body: "parse_naddr key_err utf parse_url (naddr_string show_url lo ea)
    = try_res (parse_pairs key_err utf parse_url (naddr_fields show_url lo ea) (None, [])) (\<lambda>(i, addrs).
        case i of None \<Rightarrow> Inl (Config ''snapshot missing id'') | Some i \<Rightarrow> Inr \<lparr>ea_id = i, ea_addrs = addrs\<rparr>)"
    unfolding parse_naddr_def naddr_string_fields strip_prefix_append option.case fields_split ..
  show ?thesis
    unfolding body naddr_fields_def using assms ips
    by (cases "shown_ips lo ea = []"; cases "relay_urls ea")
      (simp_all add: parse_pair_def pair_simps unhex_hex unb64_b64)
qed

text \<open>
  C34. A printed snapshot is read back: for every endpoint with a 32-byte id the key library accepts and
  well-formed addresses, parsing the snapshot gives the id, exactly the printed addresses in order
  (neither unspecified nor, unless asked for, loopback; an IPv6 scope is not carried), and the first
  relay address if there is one. The id can be read from it as 64 hexadecimal digits.
\<close>

theorem snapshot_roundtrip:
  fixes ea :: "'u endpoint_addr"
  assumes "length (ea_id ea) = 32" and "key_err (ea_id ea) = None"
    and "\<forall>a \<in> set (shown_ips lo ea). sockaddr_wf a"
    and "\<And>u. utf (ascii (show_url u)) = Some (show_url u)" and "\<And>u. parse_url (show_url u) = Inr u"
  shows "parse_naddr key_err utf parse_url (naddr_string show_url lo ea)
      = Inr \<lparr>ea_id = ea_id ea, ea_addrs = map (Ip \<circ> drop_scope) (shown_ips lo ea)
          @ map Relay_url (take 1 (relay_urls ea))\<rparr>
    \<and> node_id_of_naddr key_err utf parse_url (naddr_string show_url lo ea) = Inr (hex (ea_id ea))"
  using snapshot_reads_back [of ea key_err lo utf show_url parse_url] assms by (simp add: node_id_of_naddr_def)

theorem snapshot_roundtrip_witness:
  "parse_naddr (\<lambda>_. None) (\<lambda>b. Some (map (char_of \<circ> unat) b)) Inr
     (naddr_string (\<lambda>u :: string. u) False \<lparr>ea_id = replicate 32 7,
        ea_addrs = [Ip (V4 [127, 0, 0, 1] 9), Ip (V4 [10, 0, 0, 2] 4433), Relay_url ''https://r/'']\<rparr>)
    = Inr \<lparr>ea_id = replicate 32 7, ea_addrs = [Ip (V4 [10, 0, 0, 2] 4433), Relay_url ''https://r/'']\<rparr>"
proof -
  let ?ea = "\<lparr>ea_id = replicate 32 7,
    ea_addrs = [Ip (V4 [127, 0, 0, 1] 9), Ip (V4 [10, 0, 0, 2] 4433), Relay_url ''https://r/'']\<rparr>"
  have ips: "shown_ips False ?ea = [V4 [10, 0, 0, 2] 4433]" by (simp add: shown_ips_def)
  have "map (char_of \<circ> unat) (ascii u) = u" for u by (rule chars_of_ascii)
  then show ?thesis
    using snapshot_roundtrip [where ea = ?ea and lo = False and key_err = "\<lambda>_. None"
        and utf = "\<lambda>b. Some (map (char_of \<circ> unat) b)" and parse_url = Inr and show_url = "\<lambda>u. u"]
    by (simp add: ips relay_urls_def)
qed

section \<open>Messages\<close>

text \<open>
  A send that reports success was acknowledged: its snapshot parsed, its payload is not empty and at
  most 256 KiB, every network call succeeded and the peer answered with exactly the acknowledgement
  byte; and a payload that passes the sender's limit passes the receiver's, which hands it to the sink
  unchanged and in order with the messages before and after it.
\<close>

theorem send_ok_means_acknowledged:
  assumes "send key_err utf parse_url env naddr payload = Inr ()"
  shows "(\<exists>addr. parse_naddr key_err utf parse_url naddr = Inr addr) \<and> payload \<noteq> []
    \<and> length payload \<le> 262144 \<and> se_connect env = Some (Inr ()) \<and> se_write env = Inr ()
    \<and> se_finish env = Inr () \<and> se_ack env = Some (Inr [1])
    \<and> serve remote (map Stream before @ Stream payload # rest)
      = (if \<forall>b \<in> set before. length b \<le> 262144
         then map (Pair remote) before @ (remote, payload) # serve remote rest
         else serve remote (map Stream before))"
proof -
  have ok: "(\<exists>addr. parse_naddr key_err utf parse_url naddr = Inr addr) \<and> payload \<noteq> []
    \<and> length payload \<le> 262144 \<and> se_connect env = Some (Inr ()) \<and> se_write env = Inr ()
    \<and> se_finish env = Inr () \<and> se_ack env = Some (Inr [1])"
    using assms
    by (auto simp: send_def result_simps io_err_def in_time_def MAX_MSG_LEN_def ACK_def not_less
        split: if_splits option.splits)
  moreover have "serve remote (map Stream before @ Stream payload # rest)
      = (if \<forall>b \<in> set before. length b \<le> 262144
         then map (Pair remote) before @ (remote, payload) # serve remote rest
         else serve remote (map Stream before))"
    using ok by (induction before) (auto simp: MAX_MSG_LEN_def)
  ultimately show ?thesis by blast
qed

theorem send_ok_means_acknowledged_witness:
  "serve ''r'' (map Stream [[7]] @ Stream [1, 2] # []) = [(''r'', [7]), (''r'', [1, 2])]"
proof -
  let ?env = "\<lparr>se_connect = Some (Inr ()), se_open_bi = Inr (), se_write = Inr (), se_finish = Inr (),
    se_ack = Some (Inr [1])\<rparr>"
  let ?naddr = "naddr_string (\<lambda>u :: string. u) False \<lparr>ea_id = replicate 32 7, ea_addrs = []\<rparr>"
  have "\<exists>ea. parse_naddr (\<lambda>_. None) (\<lambda>b. Some (map (char_of \<circ> unat) b)) (Inr :: string \<Rightarrow> string + string) ?naddr = Inr ea"
    using snapshot_parses by blast
  then have "send (\<lambda>_. None) (\<lambda>b. Some (map (char_of \<circ> unat) b)) (Inr :: string \<Rightarrow> string + string) ?env ?naddr [1, 2] = Inr ()"
    by (auto simp: send_def io_err_def in_time_def MAX_MSG_LEN_def ACK_def)
  from send_ok_means_acknowledged [OF this, of "''r''" "[[7]]" "[]"] show ?thesis by simp
qed

end
