(* ===== verification/Ffi.thy ===== *)
theory Ffi
  imports Handshake Contacts Node_Net
begin

text \<open>
  \<^verbatim>\<open>crates/core/src/ffi.rs\<close>: the surface the Android application calls. It turns bytes and names into the
  library's types, calls the session layer, the contact store and the node, and maps every error to
  \<^verbatim>\<open>DcError\<close>. A session is its device; its lock is never poisoned here, since no operation of the model
  panics while it is held. Parameters are those of the components.
\<close>

section \<open>Errors\<close>

text \<open>The texts of \<^verbatim>\<open>CoreError\<close> (\<^verbatim>\<open>lib.rs\<close>), in the UTF-8 bytes of the source.\<close>

definition utf_text :: "nat list \<Rightarrow> string" where
  "utf_text bs = map char_of bs"

fun show_core_error :: "core_error \<Rightarrow> string" where
  "show_core_error (Entropy m) = utf_text [0xE7, 0x86, 0xB5, 0xE6, 0xBA, 0x90, 0xE9, 0x94, 0x99, 0xE8, 0xAF, 0xAF, 0x3A, 0x20] @ m"
| "show_core_error (Crypto m) = utf_text [0xE5, 0xAF, 0x86, 0xE7, 0xA0, 0x81, 0xE5, 0xAD, 0xA6, 0xE9, 0x94, 0x99, 0xE8, 0xAF, 0xAF,
     0x3A, 0x20] @ m"
| "show_core_error (Cbor m) = utf_text [0x43, 0x42, 0x4F, 0x52, 0x20, 0xE7, 0xBC, 0x96, 0xE8, 0xA7, 0xA3, 0xE7, 0xA0, 0x81, 0xE9,
     0x94, 0x99, 0xE8, 0xAF, 0xAF, 0x3A, 0x20] @ m"
| "show_core_error (Db m) = utf_text [0xE6, 0x95, 0xB0, 0xE6, 0x8D, 0xAE, 0xE5, 0xBA, 0x93, 0xE9, 0x94, 0x99, 0xE8, 0xAF, 0xAF,
     0x3A, 0x20] @ m"
| "show_core_error (Io m) = utf_text [0x49, 0x4F, 0x20, 0xE9, 0x94, 0x99, 0xE8, 0xAF, 0xAF, 0x3A, 0x20] @ m"
| "show_core_error (Config m) = utf_text [0xE9, 0x85, 0x8D, 0xE7, 0xBD, 0xAE, 0xE9, 0x94, 0x99, 0xE8, 0xAF, 0xAF, 0x3A, 0x20] @ m"
| "show_core_error (IdentityChanged m) = utf_text [0xE5, 0xAF, 0xB9, 0xE6, 0x96, 0xB9, 0xE8, 0xBA, 0xAB, 0xE4, 0xBB, 0xBD, 0xE5, 0xB7, 0xB2,
     0xE5, 0x8F, 0x98, 0xE6, 0x9B, 0xB4, 0xEF, 0xBC, 0x88]
     @ m @ utf_text [0x20, 0xE5, 0xB7, 0xB2, 0xE7, 0xBB, 0x91, 0xE5, 0xAE, 0x9A, 0xE4, 0xB8, 0x8D, 0xE5, 0x90,
     0x8C, 0xE7, 0x9A, 0x84, 0xE9, 0x95, 0xBF, 0xE6, 0x9C, 0x9F, 0xE8, 0xBA, 0xAB, 0xE4, 0xBB, 0xBD,
     0xE9, 0x92, 0xA5, 0xEF, 0xBC, 0x89, 0xEF, 0xBC, 0x8C, 0xE9, 0x9C, 0x80, 0xE9, 0x87, 0x8D, 0xE6,
     0x96, 0xB0, 0xE5, 0xB8, 0xA6, 0xE5, 0xA4, 0x96, 0xE9, 0xAA, 0x8C, 0xE8, 0xAF, 0x81]"

datatype dc_error = Core string | RemoteIdentityChanged string

definition dc_err :: "core_error \<Rightarrow> dc_error" where
  "dc_err e = (case e of IdentityChanged name \<Rightarrow> RemoteIdentityChanged name | _ \<Rightarrow> Core (show_core_error e))"

definition map_sig :: "(sig_error \<Rightarrow> string) \<Rightarrow> sig_error \<Rightarrow> dc_error" where
  "map_sig disp e = Core (disp e)"

definition ffi_addr :: "('k, 's, 'p, 'g, 'y, 'i, 'e, 'u, 'kk, 'q) signal_lib \<Rightarrow> string \<Rightarrow> dc_error + address" where
  "ffi_addr L name = (case sl_device_id_err L 1 of Some _ \<Rightarrow> Inl (Core (sl_device_id_dbg L 1)) | None \<Rightarrow> Inr (name, 1))"

definition identity_from :: "('k, 's, 'p, 'g, 'y, 'i, 'e, 'u, 'kk, 'q) signal_lib \<Rightarrow> bytes \<Rightarrow> dc_error + 'k" where
  "identity_from L b = map_err (map_sig (sl_display L)) (kc_try_from (sc_key (sl_codecs L)) b)"

section \<open>Sessions\<close>

record wire_message =
  wm_msg_type :: u8
  wm_ciphertext :: bytes

definition session_generate :: "('k, 's, 'p, 'g, 'y, 'i, 'e, 'u, 'kk, 'q) signal_lib \<Rightarrow> (nat \<Rightarrow> faults) \<Rightarrow> 'i \<Rightarrow> string + bytes \<Rightarrow> string option
    \<Rightarrow> (string \<Rightarrow> string option) \<Rightarrow> string \<Rightarrow> dc_error + device" where
  "session_generate L fs pair rng conn exec name = map_err dc_err (device_generate L fs pair rng conn exec name)"

definition session_open :: "('k, 's, 'p, 'g, 'y, 'i, 'e, 'u, 'kk, 'q) signal_lib \<Rightarrow> (nat \<Rightarrow> faults) \<Rightarrow> 'i \<Rightarrow> string + bytes \<Rightarrow> string option
    \<Rightarrow> (string \<Rightarrow> string option) \<Rightarrow> sig_db \<Rightarrow> string \<Rightarrow> string \<Rightarrow> string \<Rightarrow> (dc_error + device) \<times> sig_db" where
  "session_open L fs pair rng conn exec disk path key name =
     apfst (map_err dc_err) (device_open L fs pair rng conn exec disk path (Some key) name)"

definition session_identity_key :: "('k, 's, 'p, 'g, 'y, 'i, 'e, 'u, 'kk, 'q) signal_lib \<Rightarrow> faults \<Rightarrow> device \<Rightarrow> dc_error + bytes" where
  "session_identity_key L f d =
     try_res (map_err dc_err (identity_key L f d)) (\<lambda>k. Inr (kc_serialize (sc_key (sl_codecs L)) k))"

definition prekey_bundle_wire :: "('k, 's, 'p, 'g, 'y, 'i, 'e, 'u, 'kk, 'q) signal_lib \<Rightarrow> (wire_pre_key_bundle \<Rightarrow> string + bytes) \<Rightarrow> (nat \<Rightarrow> sig_error option)
    \<Rightarrow> (nat \<Rightarrow> faults) \<Rightarrow> ('i, 'e, 'kk) prekey_draw \<Rightarrow> device \<Rightarrow> (dc_error + bytes) \<times> device" where
  "prekey_bundle_wire L ser gt fs g d =
     try_st (apfst (map_err dc_err) (prekey_bundle L fs g d)) (\<lambda>bundle d.
       (map_err dc_err (bundle_to_wire L ser gt bundle), d))"

definition session_process_bundle :: "('k, 's, 'p, 'g, 'y, 'i, 'e, 'u, 'kk, 'q) signal_lib \<Rightarrow> (bytes \<Rightarrow> string + wire_pre_key_bundle)
    \<Rightarrow> (address \<Rightarrow> address \<Rightarrow> ('k, 'u, 'q) pre_key_bundle \<Rightarrow> sig_db \<Rightarrow> (sig_error + unit) \<times> sig_db)
    \<Rightarrow> device \<Rightarrow> string \<Rightarrow> bytes \<Rightarrow> (dc_error + unit) \<times> device" where
  "session_process_bundle L de process d remote_name wire =
     try_st (map_err dc_err (bundle_from_wire L de wire), d) (\<lambda>bundle d.
     try_st (ffi_addr L remote_name, d) (\<lambda>a d.
       apfst (map_err dc_err) (process_bundle (sl_display L) process d a bundle)))"

definition session_encrypt :: "('k, 's, 'p, 'g, 'y, 'i, 'e, 'u, 'kk, 'q) signal_lib \<Rightarrow> (bytes \<Rightarrow> address \<Rightarrow> address \<Rightarrow> sig_db \<Rightarrow> (sig_error + 'm) \<times> sig_db)
    \<Rightarrow> ('m \<Rightarrow> cipher_type) \<Rightarrow> ('m \<Rightarrow> bytes) \<Rightarrow> device \<Rightarrow> string \<Rightarrow> bytes \<Rightarrow> (dc_error + wire_message) \<times> device" where
  "session_encrypt L enc mtype mser d remote_name plaintext =
     try_st (ffi_addr L remote_name, d) (\<lambda>a d.
     try_st (apfst (map_err dc_err) (encrypt (sl_display L) enc mtype mser d a plaintext)) (\<lambda>(t, ct) d.
       (Inr \<lparr>wm_msg_type = t, wm_ciphertext = ct\<rparr>, d)))"

definition session_decrypt :: "('k, 's, 'p, 'g, 'y, 'i, 'e, 'u, 'kk, 'q) signal_lib \<Rightarrow> (bytes \<Rightarrow> sig_error + 'm) \<Rightarrow> (bytes \<Rightarrow> sig_error + 'm)
    \<Rightarrow> ('m \<Rightarrow> address \<Rightarrow> address \<Rightarrow> sig_db \<Rightarrow> (sig_error + bytes) \<times> sig_db)
    \<Rightarrow> device \<Rightarrow> string \<Rightarrow> wire_message \<Rightarrow> (dc_error + bytes) \<times> device" where
  "session_decrypt L prekey_of signal_of dec d remote_name msg =
     try_st (ffi_addr L remote_name, d) (\<lambda>a d.
       apfst (map_err dc_err)
         (decrypt (sl_display L) prekey_of signal_of dec d a (wm_msg_type msg) (wm_ciphertext msg)))"

definition sas_with :: "('k, 's, 'p, 'g, 'y, 'i, 'e, 'u, 'kk, 'q) signal_lib \<Rightarrow> (u32 \<Rightarrow> u32 \<Rightarrow> bytes \<Rightarrow> 'k \<Rightarrow> bytes \<Rightarrow> 'k \<Rightarrow> string + 'f)
    \<Rightarrow> ('f \<Rightarrow> string + string) \<Rightarrow> (bytes \<Rightarrow> bytes) \<Rightarrow> faults \<Rightarrow> device \<Rightarrow> string \<Rightarrow> string \<Rightarrow> bytes
    \<Rightarrow> dc_error + string \<times> string" where
  "sas_with L fingerprint display_string hash f d local_name remote_name remote_identity =
     try_res (map_err dc_err (identity_key L f d)) (\<lambda>local_key.
     try_res (identity_from L remote_identity) (\<lambda>remote_key.
       map_err dc_err (sas_code fingerprint display_string hash (ascii local_name) local_key
         (ascii remote_name) remote_key)))"

definition session_pin_identity :: "('k, 's, 'p, 'g, 'y, 'i, 'e, 'u, 'kk, 'q) signal_lib \<Rightarrow> faults \<Rightarrow> device \<Rightarrow> string \<Rightarrow> bytes \<Rightarrow> (dc_error + unit) \<times> device" where
  "session_pin_identity L f d remote_name remote_identity =
     try_st (identity_from L remote_identity, d) (\<lambda>key d.
     try_st (ffi_addr L remote_name, d) (\<lambda>a d.
     try_st (apfst (map_err dc_err) (pin_identity L f d a key)) (\<lambda>_ d. (Inr (), d))))"

definition session_is_trusted :: "('k, 's, 'p, 'g, 'y, 'i, 'e, 'u, 'kk, 'q) signal_lib \<Rightarrow> faults \<Rightarrow> device \<Rightarrow> string \<Rightarrow> bytes \<Rightarrow> dc_error + bool" where
  "session_is_trusted L f d remote_name remote_identity =
     try_res (identity_from L remote_identity) (\<lambda>key.
     try_res (ffi_addr L remote_name) (\<lambda>a.
       map_err dc_err (device_is_trusted L f d a key)))"

section \<open>The first message\<close>

definition ffi_first_message_mac :: "(string \<Rightarrow> bytes \<Rightarrow> bytes) \<Rightarrow> (bytes \<Rightarrow> bytes \<Rightarrow> bytes) \<Rightarrow> bytes \<Rightarrow> bytes \<Rightarrow> bytes
    \<Rightarrow> dc_error + bytes" where
  "ffi_first_message_mac derive keyed token bucket ciphertext =
     (if length bucket \<noteq> 32 then Inl (Core ''bucket must be 32 bytes'')
      else Inr (first_message_mac derive keyed token bucket ciphertext))"

definition ffi_verify_first_message_mac :: "(string \<Rightarrow> bytes \<Rightarrow> bytes) \<Rightarrow> (bytes \<Rightarrow> bytes \<Rightarrow> bytes) \<Rightarrow> bytes \<Rightarrow> bytes
    \<Rightarrow> bytes \<Rightarrow> bytes \<Rightarrow> dc_error + bool" where
  "ffi_verify_first_message_mac derive keyed token bucket ciphertext mac =
     (if length bucket \<noteq> 32 then Inl (Core ''bucket must be 32 bytes'')
      else if length mac \<noteq> 32 then Inl (Core ''mac must be 32 bytes'')
      else Inr (verify_first_message_mac derive keyed token bucket ciphertext mac = Inr ()))"

definition prekey_sender_identity :: "('k, 's, 'p, 'g, 'y, 'i, 'e, 'u, 'kk, 'q) signal_lib \<Rightarrow> (bytes \<Rightarrow> sig_error + 'm) \<Rightarrow> ('m \<Rightarrow> 'k) \<Rightarrow> bytes \<Rightarrow> dc_error + bytes" where
  "prekey_sender_identity L prekey_of sender ciphertext =
     try_res (map_err (map_sig (sl_display L)) (prekey_of ciphertext)) (\<lambda>msg.
       Inr (kc_serialize (sc_key (sl_codecs L)) (sender msg)))"

section \<open>Contacts\<close>

text \<open>\<^verbatim>\<open>Contact\<close> and \<^verbatim>\<open>ChatMessage\<close> have the fields of \<^verbatim>\<open>ContactInfo\<close> and \<^verbatim>\<open>ChatMsg\<close>.\<close>

record ffi_contact =
  fc_name :: string
  fc_identity :: bytes
  fc_bucket :: bytes
  fc_verified :: bool
  fc_note :: string
  fc_added_ms :: int
  fc_link_secret :: bytes
  fc_node_id :: string
  fc_node_naddr :: string

record chat_message =
  fm_peer :: string
  fm_outgoing :: bool
  fm_text :: string
  fm_ts_ms :: int

definition to_contact :: "contact_info \<Rightarrow> ffi_contact" where
  "to_contact c = \<lparr>fc_name = ci_name c, fc_identity = ci_identity c, fc_bucket = ci_bucket c,
     fc_verified = ci_verified c, fc_note = ci_note c, fc_added_ms = ci_added_ms c,
     fc_link_secret = ci_link_secret c, fc_node_id = ci_node_id c, fc_node_naddr = ci_node_naddr c\<rparr>"

definition to_chat_message :: "chat_msg \<Rightarrow> chat_message" where
  "to_chat_message m = \<lparr>fm_peer = cm_peer m, fm_outgoing = cm_outgoing m, fm_text = cm_text m, fm_ts_ms = cm_ts_ms m\<rparr>"

definition ffi_contacts_open :: "string option \<Rightarrow> (string \<Rightarrow> string option) \<Rightarrow> string option \<Rightarrow> contact_db \<Rightarrow> string
    \<Rightarrow> string \<Rightarrow> dc_error + contact_db" where
  "ffi_contacts_open conn exec busy disk path key = map_err dc_err (contacts_open conn exec busy disk path (Some key))"

definition ffi_upsert_contact where
  "ffi_upsert_contact f now d name identity bucket verified note link_secret node_id node_naddr =
     apfst (map_err dc_err) (upsert_contact f now d name identity bucket verified note link_secret node_id node_naddr)"

definition ffi_list_contacts :: "(contact_row list \<Rightarrow> contact_row list) \<Rightarrow> faults \<Rightarrow> contact_db
    \<Rightarrow> dc_error + ffi_contact list" where
  "ffi_list_contacts ord f d = try_res (map_err dc_err (list_contacts ord f d)) (\<lambda>l. Inr (map to_contact l))"

definition ffi_set_verified :: "faults \<Rightarrow> contact_db \<Rightarrow> string \<Rightarrow> bool \<Rightarrow> (dc_error + unit) \<times> contact_db" where
  "ffi_set_verified f d name verified = apfst (map_err dc_err) (set_verified f d name verified)"

definition ffi_delete_contact :: "faults \<Rightarrow> contact_db \<Rightarrow> string \<Rightarrow> (dc_error + unit) \<times> contact_db" where
  "ffi_delete_contact f d name = apfst (map_err dc_err) (delete_contact f d name)"

definition ffi_append_message :: "faults \<Rightarrow> int \<Rightarrow> contact_db \<Rightarrow> string \<Rightarrow> bool \<Rightarrow> string
    \<Rightarrow> (dc_error + unit) \<times> contact_db" where
  "ffi_append_message f now d peer outgoing txt = apfst (map_err dc_err) (append_message f now d peer outgoing txt)"

definition ffi_last_messages :: "(chat_row list \<Rightarrow> chat_row list) \<Rightarrow> faults \<Rightarrow> contact_db \<Rightarrow> dc_error + chat_message list" where
  "ffi_last_messages ord f d = try_res (map_err dc_err (last_messages ord f d)) (\<lambda>l. Inr (map to_chat_message l))"

definition ffi_messages :: "faults \<Rightarrow> contact_db \<Rightarrow> string \<Rightarrow> int \<Rightarrow> dc_error + chat_message list" where
  "ffi_messages f d peer limit = try_res (map_err dc_err (messages f d peer limit)) (\<lambda>l. Inr (map to_chat_message l))"

section \<open>The node\<close>

definition ffi_start :: "string option \<Rightarrow> (string \<Rightarrow> string + 'u) \<Rightarrow> ('u \<Rightarrow> string)
    \<Rightarrow> (bytes \<Rightarrow> 'u relay_mode \<Rightarrow> string + 'u endpoint_addr) \<Rightarrow> string \<Rightarrow> bytes
    \<Rightarrow> dc_error + 'u node \<times> string \<times> string" where
  "ffi_start rt parse_url show_url ep_bind relay_url seed32 =
     (if length seed32 \<noteq> 32 then Inl (Core ''seed must be 32 bytes'')
      else map_err dc_err (start rt parse_url show_url ep_bind relay_url seed32))"

definition ffi_send where
  "ffi_send key_err utf parse_url env naddr payload =
     map_err dc_err (send key_err utf parse_url env naddr payload)"

definition ffi_node_id_hex :: "'u node \<Rightarrow> string" where
  "ffi_node_id_hex n = node_id_hex n"

definition ffi_export_naddr :: "('u \<Rightarrow> string) \<Rightarrow> 'u node \<Rightarrow> string" where
  "ffi_export_naddr show_url n = export_naddr show_url n"

definition ffi_stop :: "'u node \<Rightarrow> 'u node" where
  "ffi_stop n = stop n"

definition node_id_from_naddr where
  "node_id_from_naddr key_err utf parse_url naddr =
     map_err dc_err (node_id_of_naddr key_err utf parse_url naddr)"

section \<open>Pairing\<close>

lemma dc_err_simps [simp]:
  "dc_err (IdentityChanged n) = RemoteIdentityChanged n" "dc_err (Crypto m) = Core (show_core_error (Crypto m))"
  by (simp_all add: dc_err_def)

lemma prekey_bundle_wire_Inr:
  "prekey_bundle_wire L ser gt fs g d = (Inr wire, d') \<longleftrightarrow>
    (\<exists>b. prekey_bundle L fs g d = (Inr b, d') \<and> bundle_to_wire L ser gt b = Inr wire)"
  by (cases "prekey_bundle L fs g d") (auto simp: prekey_bundle_wire_def try_st_Inr)

text \<open>
  C10. Scanning works end to end: if the library and the CBOR coder read back what they write, the bytes one
  device shows make another device process exactly the bundle the first one made and stored the keys
  of, under the contact's name and device number 1; no step on the way can lose it or fail.
\<close>

theorem scanned_bundle_is_the_shown_one:
  assumes "\<And>k. kc_try_from (sl_public_codec L) (kc_serialize (sl_public_codec L) k) = Inr k"
    and "\<And>k. kc_try_from (sl_kem_codec L) (kc_serialize (sl_kem_codec L) k) = Inr k"
    and "\<And>k. kc_try_from (sc_key (sl_codecs L)) (kc_serialize (sc_key (sl_codecs L)) k) = Inr k"
    and "codec_ok ser de" and "prekey_bundle_wire L ser gt fs g bob = (Inr wire, bob')"
  shows "\<exists>b. prekey_bundle L fs g bob = (Inr b, bob')
    \<and> session_process_bundle L de process alice name wire
      = apfst (map_err dc_err) (process_bundle (sl_display L) process alice (name, 1) b)"
proof -
  obtain b where b: "prekey_bundle L fs g bob = (Inr b, bob')" "bundle_to_wire L ser gt b = Inr wire"
    using assms(5) unfolding prekey_bundle_wire_Inr by blast
  note valid = prekey_bundle_valid [OF b(1)]
  have "bundle_from_wire L de wire = Inr b"
    using valid by (intro bundle_from_to_wire [OF assms(1-4) b(2)]) simp_all
  moreover have "ffi_addr L name = Inr (name, 1)" using valid by (simp add: ffi_addr_def DEVICE_ID_def)
  ultimately show ?thesis using b(1) by (auto simp: session_process_bundle_def)
qed

theorem scanned_bundle_is_the_shown_one_witness:
  "\<exists>b bob' wire w. prekey_bundle demo_lib (\<lambda>_ _. None) demo_draw demo_device = (Inr b, bob')
    \<and> session_process_bundle demo_lib (\<lambda>_. Inr w) (\<lambda>r a bd s. (Inr (), s)) demo_device ''bob'' wire
      = apfst (map_err dc_err) (process_bundle (sl_display demo_lib) (\<lambda>r a bd s. (Inr (), s)) demo_device (''bob'', 1) b)"
proof -
  obtain b bob' where b: "prekey_bundle demo_lib (\<lambda>_ _. None) demo_draw demo_device = (Inr b, bob')"
    using demo_bundle by blast
  obtain w where w: "bundle_to_wire demo_lib (\<lambda>v. if v = w then Inr [] else Inl ''other'') (\<lambda>_. None) b = Inr []"
    by (auto simp: bundle_to_wire_def)
  have "prekey_bundle_wire demo_lib (\<lambda>v. if v = w then Inr [] else Inl ''other'') (\<lambda>_. None) (\<lambda>_ _. None) demo_draw
      demo_device = (Inr [], bob')"
    using b w unfolding prekey_bundle_wire_Inr by blast
  moreover have "codec_ok (\<lambda>v. if v = w then Inr [] else Inl ''other'') (\<lambda>_. Inr w)" by (simp add: codec_ok_def)
  ultimately have "\<exists>b. prekey_bundle demo_lib (\<lambda>_ _. None) demo_draw demo_device = (Inr b, bob')
      \<and> session_process_bundle demo_lib (\<lambda>_. Inr w) (\<lambda>r a bd s. (Inr (), s)) demo_device ''bob'' []
        = apfst (map_err dc_err) (process_bundle (sl_display demo_lib) (\<lambda>r a bd s. (Inr (), s)) demo_device (''bob'', 1) b)"
    by (intro scanned_bundle_is_the_shown_one)
      (auto simp: demo_lib_def demo_codecs_def demo_key_ok)
  then show ?thesis by blast
qed

section \<open>Changed identities\<close>

text \<open>
  C37. What the application sees of a changed identity: opening a session with a contact whose key changed
  and decrypting its messages, the first one of a session (type 3) and every later one (type 2), give \<^verbatim>\<open>RemoteIdentityChanged\<close> with the contact's name; encrypting to it, and
  pinning a second key for a pinned contact, give the ordinary error \<^verbatim>\<open>Core\<close>.
\<close>

theorem changed_identity_at_the_surface:
  assumes "sl_device_id_err L 1 = None"
    and "bundle_from_wire L de wire = Inr b"
    and "process (name, 1) (dv_address d) b (dv_store d) = (Inl (UntrustedIdentity (name, 1)), s)"
    and "enc plaintext (name, 1) (dv_address d) (dv_store d) = (Inl (UntrustedIdentity (name, 1)), s)"
    and "ty = 3 \<and> prekey_of ct = Inr m \<or> ty = 2 \<and> signal_of ct = Inr m" and "dec m (name, 1) (dv_address d) (dv_store d) = (Inl (UntrustedIdentity (name, 1)), s)"
    and "pinned (sc_key (sl_codecs L)) (dv_store d) (name, 1) k"
    and "kc_try_from (sc_key (sl_codecs L)) key = Inr k'" and "k' \<noteq> k"
  shows "fst (session_process_bundle L de process d name wire) = Inl (RemoteIdentityChanged name)
    \<and> fst (session_decrypt L prekey_of signal_of dec d name \<lparr>wm_msg_type = ty, wm_ciphertext = ct\<rparr>)
      = Inl (RemoteIdentityChanged name)
    \<and> (\<exists>e. fst (session_encrypt L enc mtype mser d name plaintext) = Inl (Core e))
    \<and> (\<exists>e. session_pin_identity L f d name key = (Inl (Core e), d))"
proof -
  have addr: "ffi_addr L name = Inr (name, 1)" by (simp add: ffi_addr_def assms(1))
  have key: "identity_from L key = Inr k'" by (simp add: identity_from_def assms(8))
  note classes = changed_identity_error_classes [where process = process and enc = enc and dec = dec
      and prekey_of = prekey_of and d = d and s = s and remote = "(name, 1)" and f = f and disp = "sl_display L"
      and signal_of = signal_of and mtype = mtype and mser = mser, OF assms(3,4,5,6,7,9)]
  obtain e where e: "pin_identity L f d (name, 1) k' = (Inl (Crypto e), d)" using classes by blast
  show ?thesis
    using classes
    by (simp add: session_process_bundle_def session_decrypt_def session_encrypt_def session_pin_identity_def
        addr key e assms(2) fst_try_st_Inl)
qed

theorem changed_identity_at_the_surface_witness:
  "fst (session_decrypt demo_lib Inr Inr (\<lambda>_ r _ s. (Inl (UntrustedIdentity r), s))
       (demo_device\<lparr>dv_store := sd_empty\<lparr>sd_trusted := [((''bob'', 1), [5, 7])]\<rparr>\<rparr>) ''bob'' \<lparr>wm_msg_type = 2, wm_ciphertext = []\<rparr>)
     = Inl (RemoteIdentityChanged ''bob'')
   \<and> (\<exists>e. session_pin_identity demo_lib (\<lambda>_. None) (demo_device\<lparr>dv_store := sd_empty\<lparr>sd_trusted := [((''bob'', 1), [5, 7])]\<rparr>\<rparr>)
     ''bob'' [5, 8] = (Inl (Core e), demo_device\<lparr>dv_store := sd_empty\<lparr>sd_trusted := [((''bob'', 1), [5, 7])]\<rparr>\<rparr>))"
proof -
  let ?d = "demo_device\<lparr>dv_store := sd_empty\<lparr>sd_trusted := [((''bob'', 1), [5, 7])]\<rparr>\<rparr>"
  let ?fail = "\<lambda>_ r _ s. (Inl (UntrustedIdentity r), s)"
  let ?w = "\<lparr>wb_registration_id = 5, wb_device_id = 1, wb_pre_key_id = None, wb_pre_key_public = None,
     wb_signed_pre_key_id = 1, wb_signed_pre_key_public = [5, 2], wb_signed_pre_key_signature = [0],
     wb_kyber_pre_key_id = 1, wb_kyber_pre_key_public = [5, 3], wb_kyber_pre_key_signature = [0], wb_identity_key = [5, 9]\<rparr>"
  have pinned: "pinned (sc_key (sl_codecs demo_lib)) (dv_store ?d) (''bob'', 1) [7]"
    by (simp add: pinned_def row_key_def hm_get_def demo_lib_def demo_codecs_def demo_key_codec_def)
  have "\<exists>b. bundle_from_wire demo_lib (\<lambda>_. Inr ?w) [] = Inr b"
    by (simp add: bundle_from_wire_def demo_lib_def demo_codecs_def demo_key_codec_def Let_def)
  then obtain b where b: "bundle_from_wire demo_lib (\<lambda>_. Inr ?w) [] = Inr b" by blast
  have "kc_try_from (sc_key (sl_codecs demo_lib)) [5, 8] = Inr [8]" "sl_device_id_err demo_lib 1 = None"
    by (simp_all add: demo_lib_def demo_codecs_def demo_key_codec_def)
  then show ?thesis
    using changed_identity_at_the_surface [where L = demo_lib and de = "\<lambda>_. Inr ?w" and wire = "[]" and b = b
      and process = "\<lambda>r _ b s. (Inl (UntrustedIdentity r), s)" and enc = ?fail and dec = ?fail and prekey_of = Inr
      and d = ?d and name = "''bob''" and k = "[7]" and k' = "[8]" and key = "[5, 8]" and s = "dv_store ?d"
      and ty = 2 and ct = "[]" and m = "[]" and f = "\<lambda>_. None" and signal_of = Inr and mtype = "\<lambda>_ :: unit. Whisper"
      and mser = "\<lambda>_. []" and plaintext = "[]"] pinned b
    by auto
qed

end
