(* ===== verification/Floats.thy ===== *)
theory Floats
  imports Complex_Main "HOL-Library.Log_Nat"
begin

text \<open>
  Binary floating-point arithmetic as the crate's resource governor uses it: a finite \<^verbatim>\<open>f64\<close> or \<^verbatim>\<open>f32\<close> is
  the rational it stands for, and every operation is the exact one followed by rounding to the nearest
  number with 53 or 24 significant bits, ties to even. Exponents are unbounded: the numbers of the
  governor lie far inside the range of both formats.
\<close>

section \<open>Rounding\<close>

text \<open>The exponent of the leading bit of a positive rational.\<close>

definition expo :: "rat \<Rightarrow> int" where
  "expo x = (case quotient_of x of (n, d) \<Rightarrow>
     let e = bitlen n - bitlen d in if 2 powi e \<le> x then e else e - 1)"

definition round_half_even :: "rat \<Rightarrow> int" where
  "round_half_even x = (let f = \<lfloor>x\<rfloor>; r = x - of_int f in
     if r < 1 / 2 then f else if r > 1 / 2 then f + 1 else if even f then f else f + 1)"

definition fl :: "nat \<Rightarrow> rat \<Rightarrow> rat" where
  "fl p x = (if x = 0 then 0 else
     let u = 2 powi (expo \<bar>x\<bar> - int p + 1) in of_int (round_half_even (x / u)) * u)"

definition rep :: "nat \<Rightarrow> rat \<Rightarrow> bool" where
  "rep p x \<longleftrightarrow> (\<exists>m e. \<bar>m\<bar> < 2 ^ p \<and> x = of_int m * 2 powi e)"

abbreviation f64 :: "rat \<Rightarrow> rat" where "f64 \<equiv> fl 53"

abbreviation f32r :: "rat \<Rightarrow> rat" where "f32r \<equiv> fl 24"

section \<open>Facts about rounding\<close>

lemma expo_bounds:
  assumes "0 < x"
  shows "2 powi expo x \<le> x \<and> x < 2 powi (expo x + 1)"
proof -
  obtain n d where q: "quotient_of x = (n, d)" by fastforce
  have d: "0 < d" by (rule quotient_of_denom_pos [OF q])
  have x: "x = of_int n / of_int d" by (rule quotient_of_div [OF q])
  have n: "0 < n" using assms d by (simp add: x zero_less_divide_iff)
  define a b where "a = bitlen n" and "b = bitlen d"
  have two: "of_int (2 ^ nat (c - 1)) = (2 powi (c - 1) :: rat)" "of_int (2 ^ nat c) = (2 powi c :: rat)" if "0 < c" for c
    using that by (simp_all add: power_int_nonneg_exp)
  have pos: "0 < a" "0 < b" unfolding a_def b_def using n d bitlen_nonneg [of n] bitlen_nonneg [of d]
    bitlen_eq_zero_iff [of n] bitlen_eq_zero_iff [of d] by linarith+
  have nb: "2 powi (a - 1) \<le> (of_int n :: rat)" "(of_int n :: rat) < 2 powi a"
    and db: "2 powi (b - 1) \<le> (of_int d :: rat)" "(of_int d :: rat) < 2 powi b"
    using bitlen_bounds [OF n] bitlen_bounds [OF d] two [OF pos(1)] two [OF pos(2)]
    unfolding a_def [symmetric] b_def [symmetric] by (metis of_int_le_iff of_int_less_iff)+
  have "x < 2 powi a / 2 powi (b - 1)"
    unfolding x using nb db d n by (intro frac_less) simp_all
  then have hi: "x < 2 powi (a - b + 1)" by (simp add: power_int_diff power_int_add)
  have "2 powi (a - 1) / 2 powi b \<le> x"
    unfolding x using nb db d n by (intro frac_le) simp_all
  then have lo: "2 powi (a - b - 1) \<le> x" by (simp add: power_int_diff power_int_add field_simps)
  show ?thesis
    using hi lo by (auto simp: expo_def q Let_def a_def [symmetric] b_def [symmetric] power_int_diff)
qed

lemma two_powi_less: "(2 :: rat) powi a < 2 powi b \<longleftrightarrow> a < b"
  using power_int_strict_increasing [of a b "2 :: rat"] power_int_increasing [of b a "2 :: rat"] by force

lemma expo_unique:
  assumes "2 powi e \<le> x" and "x < 2 powi (e + 1)"
  shows "expo x = e"
proof -
  have "0 < x" using assms(1) by (rule less_le_trans [rotated]) simp
  note b = expo_bounds [OF this]
  have "2 powi e < (2 powi (expo x + 1) :: rat)" "2 powi expo x < (2 powi (e + 1) :: rat)"
    using assms b by linarith+
  then have "e < expo x + 1" "expo x < e + 1" by (simp_all add: two_powi_less)
  then show ?thesis by linarith
qed

lemma floor_rat_numeral: "\<lfloor>(numeral a / numeral b :: rat)\<rfloor> = numeral a div numeral b"
  using floor_divide_of_int_eq [of "numeral a" "numeral b", where 'a = rat] by simp

lemma rhe_of_int [simp]: "round_half_even (of_int k) = k"
  by (simp add: round_half_even_def)

lemma rhe_error: "\<bar>of_int (round_half_even x) - x\<bar> \<le> 1 / 2"
proof -
  define f where "f = (of_int \<lfloor>x\<rfloor> :: rat)"
  have "f \<le> x" "x < f + 1" unfolding f_def by linarith+
  then show ?thesis by (auto simp: round_half_even_def Let_def f_def [symmetric] abs_if)
qed

lemma rhe_mono: "x \<le> y \<Longrightarrow> round_half_even x \<le> round_half_even y"
proof (cases "\<lfloor>x\<rfloor> = \<lfloor>y\<rfloor>")
  case True
  assume "x \<le> y"
  with True show ?thesis by (auto simp: round_half_even_def Let_def)
next
  case False
  assume "x \<le> y"
  then have "\<lfloor>x\<rfloor> + 1 \<le> \<lfloor>y\<rfloor>" using False floor_mono [of x y] by linarith
  moreover have "round_half_even x \<le> \<lfloor>x\<rfloor> + 1" "\<lfloor>y\<rfloor> \<le> round_half_even y"
    by (simp_all add: round_half_even_def Let_def)
  ultimately show ?thesis by linarith
qed

lemma fl_zero [simp]: "fl p 0 = 0"
  by (simp add: fl_def)

text \<open>A representable number, scaled to the unit of its leading bit, is an integer.\<close>

lemma fl_exact:
  assumes "rep p x"
  shows "fl p x = x"
proof (cases "x = 0")
  case False
  obtain m k where m: "\<bar>m\<bar> < 2 ^ p" and x: "x = of_int m * 2 powi k" using assms unfolding rep_def by blast
  have "\<bar>of_int m\<bar> < (2 powi int p :: rat)"
    using m by (simp flip: of_int_abs)
  then have "\<bar>x\<bar> < 2 powi (k + int p)" by (simp add: x abs_mult power_int_add)
  moreover have "2 powi expo \<bar>x\<bar> \<le> \<bar>x\<bar>" using expo_bounds [of "\<bar>x\<bar>"] False by simp
  ultimately have "2 powi expo \<bar>x\<bar> < (2 powi (k + int p) :: rat)" by linarith
  then have e: "expo \<bar>x\<bar> - int p + 1 \<le> k" by (simp add: two_powi_less)
  define e where "e = expo \<bar>x\<bar> - int p + 1"
  have "x / 2 powi e = of_int m * 2 powi (k - e)" by (simp add: x power_int_diff)
  also have "\<dots> = of_int (m * 2 ^ nat (k - e))" using e by (simp add: e_def power_int_nonneg_exp)
  finally have "of_int (round_half_even (x / 2 powi e)) = x / 2 powi e" unfolding rhe_of_int by (simp only: rhe_of_int)
  then show ?thesis using False by (simp add: fl_def Let_def e_def [symmetric])
qed simp

lemma fl_pos_bounds:
  assumes "0 < x" and "0 < p"
  shows "2 powi expo x \<le> fl p x \<and> fl p x \<le> 2 powi (expo x + 1)"
proof -
  define u where "u = (2 powi (expo x - int p + 1) :: rat)"
  have u: "0 < u" by (simp add: u_def)
  have lo: "of_int (2 ^ (p - 1)) = 2 powi expo x / u" and hi: "of_int (2 ^ p) = 2 powi (expo x + 1) / u"
    using assms(2) by (simp_all add: u_def power_int_diff power_int_add flip: power_Suc power_int_of_nat)
  have b: "2 powi expo x \<le> x" "x \<le> 2 powi (expo x + 1)" using expo_bounds [OF assms(1)] by simp_all
  have "of_int (2 ^ (p - 1)) \<le> x / u" "x / u \<le> of_int (2 ^ p)"
    using b u unfolding lo hi by (simp_all add: divide_right_mono)
  from this [THEN rhe_mono] have "2 ^ (p - 1) \<le> round_half_even (x / u)" "round_half_even (x / u) \<le> 2 ^ p"
    unfolding rhe_of_int .
  then have "of_int (2 ^ (p - 1)) * u \<le> fl p x" "fl p x \<le> of_int (2 ^ p) * u"
    using assms(1) u by (simp_all add: fl_def Let_def u_def [symmetric] del: of_int_power)
  then show ?thesis using u unfolding lo hi by simp
qed

lemma fl_mono:
  assumes "0 \<le> x" and "x \<le> y" and "0 < p"
  shows "fl p x \<le> fl p y"
proof (cases "x = 0")
  case True
  have "0 \<le> fl p y" if "0 < y"
    using fl_pos_bounds [OF that assms(3)] by (meson order_trans zero_le_power_int zero_le_numeral)
  with True assms show ?thesis by (cases "y = 0") simp_all
next
  case False
  with assms have pos: "0 < x" "0 < y" by simp_all
  note bx = expo_bounds [OF pos(1)] and by' = expo_bounds [OF pos(2)]
  have "2 powi expo x < (2 powi (expo y + 1) :: rat)" using bx by' assms(2) by linarith
  then have "expo x \<le> expo y" by (simp add: two_powi_less)
  then consider "expo x = expo y" | "expo x + 1 \<le> expo y" by linarith
  then show ?thesis
  proof cases
    case 1
    define u where "u = (2 powi (expo y - int p + 1) :: rat)"
    have "round_half_even (x / u) \<le> round_half_even (y / u)"
      using assms(2) by (intro rhe_mono divide_right_mono) (simp_all add: u_def)
    then show ?thesis using pos 1 by (simp add: fl_def Let_def u_def [symmetric]) (simp add: u_def)
  next
    case 2
    then have "(2 :: rat) powi (expo x + 1) \<le> 2 powi expo y" by (intro power_int_increasing) simp_all
    then show ?thesis using fl_pos_bounds [OF pos(1) assms(3)] fl_pos_bounds [OF pos(2) assms(3)] by linarith
  qed
qed

lemma rep_pow: "0 < p \<Longrightarrow> rep p (2 powi k)"
  unfolding rep_def by (intro exI [of _ 1] exI [of _ k]) simp

lemma rep_fl:
  assumes "0 \<le> x" and "0 < p"
  shows "rep p (fl p x)"
proof (cases "x = 0")
  case True
  then show ?thesis unfolding rep_def by (intro exI [of _ 0]) simp
next
  case False
  with assms have x: "0 < x" by simp
  define e where "e = expo x - int p + 1"
  define m where "m = round_half_even (x / 2 powi e)"
  have eq: "fl p x = of_int m * 2 powi e" using x by (simp add: fl_def Let_def e_def m_def)
  note b = fl_pos_bounds [OF x assms(2)]
  show ?thesis
  proof (cases "fl p x = 2 powi (expo x + 1)")
    case True
    then show ?thesis using rep_pow [OF assms(2)] by simp
  next
    case False
    have "2 powi (expo x + 1) = of_int (2 ^ p) * (2 powi e :: rat)"
      by (simp add: e_def power_int_add power_int_diff)
    with False b have "of_int m * 2 powi e < of_int (2 ^ p) * (2 powi e :: rat)" unfolding eq by linarith
    then have m: "m < 2 ^ p" by (simp add: mult_less_cancel_right flip: of_int_power)
    have "0 < of_int m * (2 powi e :: rat)"
      using b unfolding eq by (rule less_le_trans [rotated, OF conjunct1]) simp
    moreover have "0 < (2 powi e :: rat)" by simp
    ultimately have "0 < m" by (auto simp: zero_less_mult_iff)
    with m show ?thesis unfolding rep_def eq by (intro exI [of _ m] exI [of _ e]) simp
  qed
qed

lemma rep_mono: "rep p x \<Longrightarrow> p \<le> q \<Longrightarrow> rep q x"
proof -
  assume "rep p x" and "p \<le> q"
  then obtain m e where "\<bar>m\<bar> < 2 ^ p" "x = of_int m * 2 powi e" unfolding rep_def by blast
  moreover have "(2 :: int) ^ p \<le> 2 ^ q" using \<open>p \<le> q\<close> by (intro power_increasing) simp_all
  ultimately have "\<bar>m\<bar> < 2 ^ q \<and> x = of_int m * 2 powi e" by linarith
  then show "rep q x" unfolding rep_def by blast
qed

lemma rep_of_nat: "n < 2 ^ p \<Longrightarrow> rep p (of_nat n)"
  unfolding rep_def by (intro exI [of _ "int n"] exI [of _ 0]) (simp flip: of_nat_less_iff)

section \<open>The contract of a rounding\<close>

text \<open>
  What the error analysis of the governor rests on: rounding is monotone on the non-negative numbers and
  leaves representable numbers alone. So a bound by a representable number survives it.
\<close>

locale rounding =
  fixes rnd :: "rat \<Rightarrow> rat" and representable :: "rat \<Rightarrow> bool"
  assumes mono: "0 \<le> x \<Longrightarrow> x \<le> y \<Longrightarrow> rnd x \<le> rnd y"
    and exact: "representable x \<Longrightarrow> rnd x = x"
    and zero: "representable 0"
begin

lemma le_rep: "0 \<le> x \<Longrightarrow> x \<le> z \<Longrightarrow> representable z \<Longrightarrow> rnd x \<le> z"
  using mono [of x z] exact [of z] by simp

lemma ge_rep: "0 \<le> z \<Longrightarrow> z \<le> x \<Longrightarrow> representable z \<Longrightarrow> z \<le> rnd x"
  using mono [of z x] exact [of z] by simp

lemma nonneg: "0 \<le> x \<Longrightarrow> 0 \<le> rnd x"
  using ge_rep [of 0 x] zero by simp

end

interpretation fp: rounding "fl (Suc n)" "rep (Suc n)"
proof unfold_locales
  show "rep (Suc n) 0" for n using rep_of_nat [of 0 "Suc n"] by simp
qed (simp_all add: fl_mono fl_exact)

lemmas fl64_le = fp.le_rep [of _ _ 52, simplified]
  and fl64_ge = fp.ge_rep [of _ _ 52, simplified]
  and fl64_nonneg = fp.nonneg [of _ 52, simplified]
  and fl32_le = fp.le_rep [of _ _ 23, simplified]
  and fl32_nonneg = fp.nonneg [of _ 23, simplified]

end
