(* ===== verification/Governor.thy ===== *)
theory Governor
  imports Floats Adaptive Identity
begin

text \<open>
  \<^verbatim>\<open>crates/core/src/governor.rs\<close>: how much of the node's capacity goes to relaying for strangers. The share
  falls along a smooth curve with the battery and the load; each sender has two token buckets, refilled
  with the time and capped by the current price. Floating-point values are those of \<open>Floats\<close>; \<open>None\<close> is
  the panic of an overflow or of a division by zero.
\<close>

section \<open>Constants\<close>

definition STRANGER_SHARE_FULL :: rat where "STRANGER_SHARE_FULL = f64 (15 / 100)"
definition STRANGER_SHARE_FLOOR :: rat where "STRANGER_SHARE_FLOOR = f64 (3 / 100)"
definition BATTERY_CURVE_START :: rat where "BATTERY_CURVE_START = 40"
definition BATTERY_CURVE_END :: rat where "BATTERY_CURVE_END = 5"
definition LOAD_CURVE_START :: rat where "LOAD_CURVE_START = f32r (6 / 10)"
definition LOAD_CURVE_END :: rat where "LOAD_CURVE_END = 1"
definition FLOOR_PER_SENDER :: u32 where "FLOOR_PER_SENDER = 6"
definition BUCKET_CAPACITY_FACTOR :: rat where "BUCKET_CAPACITY_FACTOR = 1"
definition REFILL_INTERVAL_MS :: int where "REFILL_INTERVAL_MS = 60000"

section \<open>The share\<close>

definition smoothstep :: "rat \<Rightarrow> rat" where
  "smoothstep t = (let t = max 0 (min 1 t) in f64 (f64 (t * t) * f64 (3 - f64 (2 * t))))"

record sender_quota =
  sq_send_tokens :: rat
  sq_recv_tokens :: rat
  sq_last_refill_ms :: int

record governor =
  gv_capacity_per_min :: u32
  gv_battery_percent :: "u8 option"
  gv_charging :: bool
  gv_load :: rat
  gv_senders :: "(node_id, sender_quota) hmap"

definition gv_new :: "u32 \<Rightarrow> governor" where
  "gv_new capacity_per_min = \<lparr>gv_capacity_per_min = capacity_per_min, gv_battery_percent = Some 100,
     gv_charging = False, gv_load = 0, gv_senders = []\<rparr>"

definition set_battery :: "governor \<Rightarrow> u8 option \<Rightarrow> bool \<Rightarrow> governor" where
  "set_battery g percent charging = g\<lparr>gv_battery_percent := percent, gv_charging := charging\<rparr>"

definition set_load :: "governor \<Rightarrow> f32 \<Rightarrow> governor" where
  "set_load g l = g\<lparr>gv_load := (case l of Fin a \<Rightarrow> max 0 (min 1 a) | _ \<Rightarrow> 1)\<rparr>"

text \<open>\<^verbatim>\<open>FLOOR + (FULL - FLOOR) * smoothstep(t)\<close>, as both curves end.\<close>

definition on_curve :: "rat \<Rightarrow> rat" where
  "on_curve t = f64 (STRANGER_SHARE_FLOOR + f64 (f64 (STRANGER_SHARE_FULL - STRANGER_SHARE_FLOOR) * smoothstep t))"

definition battery_share :: "governor \<Rightarrow> rat" where
  "battery_share g =
     (case gv_battery_percent g of
        None \<Rightarrow> STRANGER_SHARE_FULL
      | Some p \<Rightarrow>
          if gv_charging g then STRANGER_SHARE_FULL
          else let b = rat_of_nat (unat p) in
            if b \<ge> BATTERY_CURVE_START then STRANGER_SHARE_FULL
            else if b \<le> BATTERY_CURVE_END then STRANGER_SHARE_FLOOR
            else on_curve (f64 (f64 (b - BATTERY_CURVE_END) / f64 (BATTERY_CURVE_START - BATTERY_CURVE_END))))"

definition load_share :: "governor \<Rightarrow> rat" where
  "load_share g =
     (if gv_load g \<le> LOAD_CURVE_START then STRANGER_SHARE_FULL
      else if gv_load g \<ge> LOAD_CURVE_END then STRANGER_SHARE_FLOOR
      else on_curve (f32r (f32r (gv_load g - LOAD_CURVE_START) / f32r (LOAD_CURVE_END - LOAD_CURVE_START))))"

definition share :: "governor \<Rightarrow> rat" where
  "share g = min (battery_share g) (load_share g)"

section \<open>The price\<close>

text \<open>\<^verbatim>\<open>x.round() as u32\<close> of a non-negative number: half away from zero, saturating.\<close>

definition round_u32 :: "rat \<Rightarrow> u32" where
  "round_u32 x = word_of_int (min (2 ^ 32 - 1) (max 0 \<lfloor>x + 1 / 2\<rfloor>))"

definition budget_per_min :: "governor \<Rightarrow> u32" where
  "budget_per_min g = round_u32 (f64 (rat_of_nat (unat (gv_capacity_per_min g)) * share g))"

definition per_sender_cap :: "governor \<Rightarrow> u32 option" where
  "per_sender_cap g =
     (let n = hm_len (gv_senders g) in
      if n = 0 then Some (max (budget_per_min g) FLOOR_PER_SENDER)
      else let k = word_of_nat n :: u32 in
        if k = 0 then None else Some (max (budget_per_min g div k) FLOOR_PER_SENDER))"

definition connected_strangers :: "governor \<Rightarrow> nat" where
  "connected_strangers g = hm_len (gv_senders g)"

section \<open>Token buckets\<close>

definition register_sender :: "governor \<Rightarrow> node_id \<Rightarrow> int \<Rightarrow> governor option" where
  "register_sender g peer now_ms = do {
     c \<leftarrow> per_sender_cap g;
     let cap = rat_of_nat (unat c);
     Some (if hm_contains (gv_senders g) peer then g
       else g\<lparr>gv_senders := hm_insert peer
         \<lparr>sq_send_tokens = cap, sq_recv_tokens = cap, sq_last_refill_ms = now_ms\<rparr> (gv_senders g)\<rparr>)
   }"

definition drop_sender :: "governor \<Rightarrow> node_id \<Rightarrow> governor" where
  "drop_sender g peer = g\<lparr>gv_senders := hm_remove peer (gv_senders g)\<rparr>"

text \<open>One turn of the first loop of \<^verbatim>\<open>refill_all\<close>, then of the second.\<close>

definition refill_one :: "rat \<Rightarrow> rat \<Rightarrow> int \<Rightarrow> sender_quota \<Rightarrow> sender_quota" where
  "refill_one cap cap_per_ms now_ms q =
     (let elapsed = f64 (rat_of_int (max 0 (now_ms - sq_last_refill_ms q))) in
      if elapsed > 0
      then q\<lparr>sq_send_tokens := min (f64 (sq_send_tokens q + f64 (elapsed * cap_per_ms))) cap,
             sq_recv_tokens := min (f64 (sq_recv_tokens q + f64 (elapsed * cap_per_ms))) cap,
             sq_last_refill_ms := now_ms\<rparr>
      else q)"

definition shrink_one :: "rat \<Rightarrow> sender_quota \<Rightarrow> sender_quota" where
  "shrink_one cap q = q\<lparr>sq_send_tokens := min (sq_send_tokens q) cap, sq_recv_tokens := min (sq_recv_tokens q) cap\<rparr>"

definition refill_all :: "governor \<Rightarrow> int \<Rightarrow> governor option" where
  "refill_all g now_ms = do {
     c \<leftarrow> per_sender_cap g;
     let cap = f64 (rat_of_nat (unat c) * BUCKET_CAPACITY_FACTOR);
     let cap_per_ms = f64 (cap / rat_of_int REFILL_INTERVAL_MS);
     if \<exists>q \<in> set (hm_values (gv_senders g)). i64_chk (now_ms - sq_last_refill_ms q) = None then None
     else Some (g\<lparr>gv_senders := map (\<lambda>(k, q). (k, shrink_one cap (refill_one cap cap_per_ms now_ms q))) (gv_senders g)\<rparr>)
   }"

definition take_token :: "governor \<Rightarrow> node_id \<Rightarrow> int \<Rightarrow> bool \<Rightarrow> (bool \<times> governor) option" where
  "take_token g peer now_ms send = do {
     g \<leftarrow> refill_all g now_ms;
     case hm_get (gv_senders g) peer of
       None \<Rightarrow> Some (False, g)
     | Some q \<Rightarrow>
         let tokens = (if send then sq_send_tokens q else sq_recv_tokens q) in
         if tokens \<ge> 1
         then Some (True, g\<lparr>gv_senders := hm_insert peer
           (if send then q\<lparr>sq_send_tokens := f64 (tokens - 1)\<rparr> else q\<lparr>sq_recv_tokens := f64 (tokens - 1)\<rparr>)
           (gv_senders g)\<rparr>)
         else Some (False, g)
   }"

definition allow_send :: "governor \<Rightarrow> node_id \<Rightarrow> int \<Rightarrow> (bool \<times> governor) option" where
  "allow_send g peer now_ms = take_token g peer now_ms True"

definition allow_recv :: "governor \<Rightarrow> node_id \<Rightarrow> int \<Rightarrow> (bool \<times> governor) option" where
  "allow_recv g peer now_ms = take_token g peer now_ms False"

section \<open>Reachable governors\<close>

inductive gov_reach :: "governor \<Rightarrow> bool" where
  gov_start: "gov_reach (gv_new capacity)"
| gov_battery: "gov_reach g \<Longrightarrow> gov_reach (set_battery g percent charging)"
| gov_load: "gov_reach g \<Longrightarrow> gov_reach (set_load g l)"
| gov_register: "gov_reach g \<Longrightarrow> register_sender g peer now_ms = Some g' \<Longrightarrow> gov_reach g'"
| gov_drop: "gov_reach g \<Longrightarrow> gov_reach (drop_sender g peer)"
| gov_take: "gov_reach g \<Longrightarrow> take_token g peer now_ms send = Some (ok, g') \<Longrightarrow> gov_reach g'"

definition tokens_ok :: "sender_quota \<Rightarrow> bool" where
  "tokens_ok q \<longleftrightarrow> 0 \<le> sq_send_tokens q \<and> 0 \<le> sq_recv_tokens q"

definition gov_inv :: "governor \<Rightarrow> bool" where
  "gov_inv g \<longleftrightarrow> 0 \<le> gv_load g \<and> gv_load g \<le> 1 \<and> hm_wf (gv_senders g)
     \<and> (\<forall>q \<in> set (hm_values (gv_senders g)). tokens_ok q)"

text \<open>How many of \<open>n\<close> messages of one sender, all at the same time, are let through.\<close>

fun sends :: "nat \<Rightarrow> governor \<Rightarrow> node_id \<Rightarrow> int \<Rightarrow> (nat \<times> governor) option" where
  "sends 0 g peer now_ms = Some (0, g)"
| "sends (Suc n) g peer now_ms = do {
     (ok, g1) \<leftarrow> allow_send g peer now_ms;
     (k, g2) \<leftarrow> sends n g1 peer now_ms;
     Some (if ok then Suc k else k, g2)
   }"

definition demo_governor :: governor where
  "demo_governor = (gv_new 40)\<lparr>gv_senders := [([1], \<lparr>sq_send_tokens = rat_of_nat (unat (max (budget_per_min (gv_new 40)) 6)),
     sq_recv_tokens = rat_of_nat (unat (max (budget_per_min (gv_new 40)) 6)), sq_last_refill_ms = 0\<rparr>)]\<rparr>"

text \<open>A governor whose buckets have been refilled for this time and price.\<close>

definition settled :: "u32 \<Rightarrow> int \<Rightarrow> governor \<Rightarrow> bool" where
  "settled c now_ms g \<longleftrightarrow> per_sender_cap g = Some c \<and> hm_wf (gv_senders g)
     \<and> (\<forall>q \<in> set (hm_values (gv_senders g)). now_ms \<le> sq_last_refill_ms q \<and> i64_chk (now_ms - sq_last_refill_ms q) \<noteq> None
          \<and> tokens_ok q \<and> sq_send_tokens q \<le> rat_of_nat (unat c) \<and> sq_recv_tokens q \<le> rat_of_nat (unat c))"

section \<open>The curve\<close>

declare of_nat_unat [simp del]

lemma share_constants:
  "STRANGER_SHARE_FULL = 5404319552844595 / 36028797018963968"
  "STRANGER_SHARE_FLOOR = 1080863910568919 / 36028797018963968"
  by (simp_all add: STRANGER_SHARE_FULL_def STRANGER_SHARE_FLOOR_def fl_def expo_unique [of "-3"] expo_unique [of "-6"]
      round_half_even_def Let_def power_int_minus floor_rat_numeral)

lemma share_ends:
  "f64 (STRANGER_SHARE_FULL - STRANGER_SHARE_FLOOR) = 1080863910568919 / 9007199254740992"
  "f64 (STRANGER_SHARE_FLOOR + 1080863910568919 / 9007199254740992) = STRANGER_SHARE_FULL"
  unfolding share_constants
  by (simp_all add: fl_def expo_unique [of "-4"] expo_unique [of "-3"] round_half_even_def Let_def power_int_minus
      floor_rat_numeral)

lemma rep_share: "rep 53 STRANGER_SHARE_FULL" "rep 53 STRANGER_SHARE_FLOOR"
  by (simp_all add: STRANGER_SHARE_FULL_def STRANGER_SHARE_FLOOR_def rep_fl)

text \<open>A double in the upper half of the unit interval is a multiple of \<open>2 ^ -53\<close>.\<close>

lemma rep_upper_half:
  assumes "rep 53 t" and "1 / 2 \<le> t" and "t < 1"
  obtains m :: int where "t = of_int m / 2 ^ 53"
proof -
  have "expo t = - 1" using assms(2,3) by (intro expo_unique) simp_all
  then have "t = of_int (round_half_even (t / 2 powi - 53)) * 2 powi - 53"
    using fl_exact [OF assms(1)] assms(2) by (simp add: fl_def Let_def split: if_splits)
  then show ?thesis by (intro that [of "round_half_even (t / 2 powi - 53)"]) (simp add: power_int_minus field_simps)
qed

lemma fl64_error_below_one:
  assumes "0 < x" and "x < 1"
  shows "f64 x \<le> x + 1 / 2 ^ 54"
proof -
  define u where "u = (2 powi (expo x - 52) :: rat)"
  have "2 powi expo x < (2 powi 0 :: rat)" using expo_bounds [OF assms(1)] assms(2) by simp
  then have "expo x < 0" by (simp only: two_powi_less)
  then have "u \<le> 2 powi - 53" unfolding u_def by (intro power_int_increasing) simp_all
  then have u: "u \<le> 1 / 2 ^ 53" by (simp add: power_int_minus)
  have "0 < u" by (simp add: u_def)
  have "of_int (round_half_even (x / u)) \<le> x / u + 1 / 2" using rhe_error [of "x / u"] by linarith
  then have "of_int (round_half_even (x / u)) * u \<le> (x / u + 1 / 2) * u" using \<open>0 < u\<close> by (intro mult_right_mono) simp_all
  also have "(x / u + 1 / 2) * u = x + u / 2" using \<open>0 < u\<close> by (simp add: distrib_right)
  finally have "f64 x \<le> x + u / 2" using assms(1) by (simp add: fl_def Let_def u_def [symmetric])
  with u show ?thesis by simp
qed

text \<open>
  The heart of the bound on the curve: rounding the square cannot push the product above 1, since near 1
  the rounded square is a multiple of the unit, and elsewhere the curve leaves room for the error.
\<close>

lemma smooth_int:
  fixes N k j :: int
  assumes "0 < N" and "0 \<le> j" and "2 * j \<le> N" and err: "2 * k * N \<le> 2 * (N - j) ^ 2 + N"
  shows "k * (N + 2 * j) \<le> N * N"
proof (cases "2 * j ^ 2 < N")
  case True
  have "2 * k * N < 2 * (N - 2 * j + 1) * N" using err True by (simp add: power2_eq_square algebra_simps)
  then have "k \<le> N - 2 * j" using assms(1) by simp
  then have "k * (N + 2 * j) \<le> (N - 2 * j) * (N + 2 * j)" using assms by (intro mult_right_mono) simp_all
  also have "\<dots> \<le> N * N" by (simp add: algebra_simps)
  finally show ?thesis .
next
  case False
  have "j \<noteq> 0" using False assms(1) by auto
  then have j: "j * 1 \<le> j * j" using assms(2) by (intro mult_left_mono) simp_all
  have "(2 * k * N) * (N + 2 * j) \<le> (2 * (N - j) ^ 2 + N) * (N + 2 * j)"
    using err assms by (intro mult_right_mono) simp_all
  also have "\<dots> = 2 * N * (N * N) + (N * N + 2 * (N * j) + 4 * (j * j * j) - 6 * (N * (j * j)))"
    by (simp add: power2_eq_square algebra_simps)
  also have "\<dots> \<le> 2 * N * (N * N)"
  proof -
    have "N * N \<le> N * (2 * (j * j))" using False assms(1) by (intro mult_left_mono) (simp_all add: power2_eq_square)
    moreover have "N * j \<le> N * (j * j)" using j assms(1) by (intro mult_left_mono) simp_all
    moreover have "(j * j) * (2 * j) \<le> (j * j) * N" using assms(3) by (intro mult_left_mono) simp_all
    ultimately show ?thesis by (simp add: algebra_simps)
  qed
  finally have "(2 * N) * (k * (N + 2 * j)) \<le> (2 * N) * (N * N)" by (simp add: algebra_simps)
  then show ?thesis using assms(1) by simp
qed

lemma smoothstep_arith:
  fixes t q :: rat
  assumes t: "t = of_int m / 2 ^ 53" and q: "q = of_int k / 2 ^ 53"
    and range: "1 / 2 \<le> t" "t \<le> 1" and err: "q \<le> t * t + 1 / 2 ^ 54"
  shows "q * (3 - 2 * t) \<le> 1"
proof -
  define N :: int where "N = 2 ^ 53"
  have N: "(of_int N :: rat) = 2 ^ 53" "0 < N" by (simp_all add: N_def)
  have tn: "t = of_int m / of_int N" and qn: "q = of_int k / of_int N" by (simp_all add: t q N)
  have half: "(1 :: rat) / 2 ^ 54 = 1 / (2 * of_int N)" by (simp add: N)
  have "of_int N \<le> (of_int (2 * m) :: rat)" "(of_int m :: rat) \<le> of_int N"
    using range N(2) unfolding tn by (simp_all add: field_simps)
  then have "N \<le> 2 * m" "m \<le> N" by (simp_all only: of_int_le_iff)
  then have m: "0 \<le> N - m" "2 * (N - m) \<le> N" by simp_all
  have "q * (2 * of_int N * of_int N) \<le> (t * t + 1 / (2 * of_int N)) * (2 * of_int N * of_int N)"
    using err N(2) unfolding half by (intro mult_right_mono) simp_all
  moreover have "q * (2 * of_int N * of_int N) = of_int (2 * k * N)" using N(2) by (simp add: qn)
  moreover have "(t * t + 1 / (2 * of_int N)) * (2 * of_int N * of_int N) = of_int (2 * (N - (N - m)) ^ 2 + N)"
    using N(2) by (simp add: tn field_simps power2_eq_square)
  ultimately have "(of_int (2 * k * N) :: rat) \<le> of_int (2 * (N - (N - m)) ^ 2 + N)" by (simp only:)
  then have "2 * k * N \<le> 2 * (N - (N - m)) ^ 2 + N" unfolding of_int_le_iff .
  from smooth_int [OF N(2) m this] have "(of_int (k * (3 * N - 2 * m)) :: rat) \<le> of_int (N * N)"
    unfolding of_int_le_iff by (simp add: algebra_simps)
  then show ?thesis using N(2) by (simp add: tn qn field_simps)
qed

lemma smoothstep_near_one:
  assumes rs: "rep 53 s" and range: "1 / 2 \<le> s" "s < 1"
  shows "f64 (s * s) * f64 (3 - 2 * s) \<le> 1"
proof -
  obtain m where m: "s = of_int m / 2 ^ 53" by (rule rep_upper_half [OF rs range])
  have "3 - 2 * s = of_int (3 * 2 ^ 52 - m) * 2 powi - 52" by (simp add: m power_int_minus field_simps)
  moreover have "\<bar>3 * 2 ^ 52 - m\<bar> < 2 ^ 53 \<or> m = 2 ^ 52"
  proof -
    have "(of_int (2 ^ 52) :: rat) \<le> of_int m" "(of_int m :: rat) < of_int (2 ^ 53)"
      using range by (simp_all add: m field_simps)
    then have "2 ^ 52 \<le> m" "m < 2 ^ 53" by (simp_all only: of_int_le_iff of_int_less_iff)
    then show ?thesis by auto
  qed
  ultimately have three: "f64 (3 - 2 * s) = 3 - 2 * s"
  proof (elim disjE)
    assume "\<bar>3 * 2 ^ 52 - m\<bar> < 2 ^ 53" "3 - 2 * s = of_int (3 * 2 ^ 52 - m) * 2 powi - 52"
    then have "rep 53 (3 - 2 * s)" unfolding Floats.rep_def by blast
    then show ?thesis by (rule fl_exact)
  next
    assume "m = 2 ^ 52"
    then have "3 - 2 * s = 2 powi 1" by (simp add: m)
    then show ?thesis using fl_exact [OF rep_pow [of 53 1]] by simp
  qed
  have sq: "0 < s * s" "s * s < 1" using range mult_strict_mono [of s 1 s 1] by simp_all
  show ?thesis
  proof (cases "s * s < 1 / 2")
    case True
    have "rep 53 (1 / 2)" using rep_pow [of 53 "-1"] by (simp add: power_int_minus)
    then have "f64 (s * s) \<le> 1 / 2" using True sq by (intro fl64_le) simp_all
    then have "f64 (s * s) * (3 - 2 * s) \<le> 1 / 2 * 2" using range by (intro mult_mono) simp_all
    then show ?thesis by (simp add: three)
  next
    case False
    have "expo (s * s) = - 1" using False sq by (intro expo_unique) simp_all
    then have "f64 (s * s) = of_int (round_half_even (s * s / 2 powi - 53)) / 2 ^ 53"
      using sq range by (auto simp: fl_def Let_def power_int_minus field_simps)
    from smoothstep_arith [OF m this range(1) _ fl64_error_below_one [OF sq]] range(2) show ?thesis
      by (simp add: three)
  qed
qed

lemma smoothstep_bounds:
  assumes "rep 53 t"
  shows "0 \<le> smoothstep t \<and> smoothstep t \<le> 1"
proof -
  define s where "s = max 0 (min 1 t)"
  have s: "0 \<le> s" "s \<le> 1" by (simp_all add: s_def)
  have one: "rep 53 1" using rep_of_nat [of 1 53] by simp
  have rs: "rep 53 s"
    using assms one rep_of_nat [of 0 53] by (auto simp: s_def max_def min_def)
  have "rep 53 (2 * s)"
  proof -
    obtain m e where "\<bar>m\<bar> < 2 ^ 53" "s = of_int m * 2 powi e" using rs unfolding Floats.rep_def by blast
    then have "\<bar>m\<bar> < 2 ^ 53 \<and> 2 * s = of_int m * 2 powi (e + 1)" by (simp add: power_int_add)
    then show ?thesis unfolding Floats.rep_def by blast
  qed
  then have eq: "smoothstep t = f64 (f64 (s * s) * f64 (3 - 2 * s))"
    by (simp add: smoothstep_def Let_def s_def [symmetric] fl_exact)
  have nonneg: "0 \<le> f64 (s * s)" "0 \<le> f64 (3 - 2 * s)" using s by (auto intro: fl64_nonneg)
  have "f64 (s * s) * f64 (3 - 2 * s) \<le> 1"
  proof (cases "s < 1 / 2")
    case True
    have "rep 53 (1 / 4)" "rep 53 3" using rep_pow [of 53 "-2"] rep_of_nat [of 3 53] by (simp_all add: power_int_minus)
    moreover have "s * s \<le> 1 / 2 * (1 / 2)" using True s by (intro mult_mono) simp_all
    ultimately have "f64 (s * s) \<le> 1 / 4" "f64 (3 - 2 * s) \<le> 3"
      using fl64_le [of "s * s" "1 / 4"] fl64_le [of "3 - 2 * s" 3] s True by simp_all
    then have "f64 (s * s) * f64 (3 - 2 * s) \<le> 1 / 4 * 3" using nonneg by (intro mult_mono) simp_all
    then show ?thesis by simp
  next
    case False
    show ?thesis
    proof (cases "s = 1")
      case True
      then show ?thesis by (simp add: fl_exact [OF one])
    next
      case neq: False
      with False s have range: "1 / 2 \<le> s" "s < 1" by simp_all
      show ?thesis by (rule smoothstep_near_one [OF rs range])
    qed
  qed
  then show ?thesis using nonneg unfolding eq by (auto intro: fl64_nonneg fl64_le one mult_nonneg_nonneg)
qed

lemma on_curve_bounds:
  assumes "rep 53 t"
  shows "STRANGER_SHARE_FLOOR \<le> on_curve t \<and> on_curve t \<le> STRANGER_SHARE_FULL"
proof -
  define D where "D = f64 (STRANGER_SHARE_FULL - STRANGER_SHARE_FLOOR)"
  have "rep 53 D" unfolding D_def by (rule rep_fl) (simp_all add: share_constants)
  moreover have "0 \<le> D" "f64 (STRANGER_SHARE_FLOOR + D) = STRANGER_SHARE_FULL"
    unfolding D_def share_ends(1) by (simp, rule share_ends(2))
  ultimately have D: "0 \<le> D" "rep 53 D" "f64 (STRANGER_SHARE_FLOOR + D) = STRANGER_SHARE_FULL" by blast+
  note s = smoothstep_bounds [OF assms]
  have fl: "0 \<le> STRANGER_SHARE_FLOOR" by (simp add: share_constants)
  have "D * smoothstep t \<le> D * 1" using D(1) s by (intro mult_left_mono) simp_all
  then have x: "0 \<le> f64 (D * smoothstep t)" "f64 (D * smoothstep t) \<le> D"
    using D s fl64_le [of "D * smoothstep t" D] fl64_nonneg [of "D * smoothstep t"] by simp_all
  have "STRANGER_SHARE_FLOOR \<le> f64 (STRANGER_SHARE_FLOOR + f64 (D * smoothstep t))"
    using x fl rep_share by (intro fl64_ge) simp_all
  moreover have "f64 (STRANGER_SHARE_FLOOR + f64 (D * smoothstep t)) \<le> f64 (STRANGER_SHARE_FLOOR + D)"
    using x fl by (intro fl_mono) simp_all
  ultimately show ?thesis by (simp add: on_curve_def D_def [symmetric] D(3))
qed

lemma share_order: "STRANGER_SHARE_FLOOR \<le> STRANGER_SHARE_FULL"
  by (simp add: share_constants)

lemma battery_share_bounds: "STRANGER_SHARE_FLOOR \<le> battery_share g \<and> battery_share g \<le> STRANGER_SHARE_FULL"
proof (cases "gv_battery_percent g")
  case (Some p)
  let ?b = "rat_of_nat (unat p)"
  have "rep 53 (f64 (f64 (?b - BATTERY_CURVE_END) / f64 (BATTERY_CURVE_START - BATTERY_CURVE_END)))"
    if "\<not> ?b \<le> BATTERY_CURVE_END"
    using that by (intro rep_fl divide_nonneg_nonneg fl64_nonneg) (simp_all add: BATTERY_CURVE_END_def BATTERY_CURVE_START_def)
  then show ?thesis using Some on_curve_bounds share_order by (auto simp: battery_share_def Let_def)
qed (simp add: battery_share_def share_order)

lemma load_start_le_one: "LOAD_CURVE_START \<le> 1"
  unfolding LOAD_CURVE_START_def using rep_of_nat [of 1 24] by (intro fl32_le) simp_all

lemma load_share_bounds: "STRANGER_SHARE_FLOOR \<le> load_share g \<and> load_share g \<le> STRANGER_SHARE_FULL"
proof -
  have "rep 53 (f32r (f32r (gv_load g - LOAD_CURVE_START) / f32r (LOAD_CURVE_END - LOAD_CURVE_START)))"
    if "\<not> gv_load g \<le> LOAD_CURVE_START"
    using that load_start_le_one
    by (intro rep_mono [of 24 _ 53] rep_fl divide_nonneg_nonneg fl32_nonneg) (simp_all add: LOAD_CURVE_END_def)
  then show ?thesis
    using on_curve_bounds share_order by (auto simp: load_share_def)
qed

text \<open>
  C31. The share given to strangers is always between the floor (3 percent) and the full share (15 percent),
  rounding errors of the curve included; a load that is not a number or infinite gives the floor; and
  with enough battery, or charging, and a low load it is the full share.
\<close>

theorem share_between_floor_and_full:
  "STRANGER_SHARE_FLOOR \<le> share g \<and> share g \<le> STRANGER_SHARE_FULL
   \<and> (\<not> is_finite l \<longrightarrow> share (set_load g l) = STRANGER_SHARE_FLOOR)
   \<and> ((gv_charging g \<or> (\<forall>p. gv_battery_percent g = Some p \<longrightarrow> 40 \<le> unat p)) \<and> gv_load g \<le> LOAD_CURVE_START
      \<longrightarrow> share g = STRANGER_SHARE_FULL)"
proof (intro conjI impI)
  show "STRANGER_SHARE_FLOOR \<le> share g" "share g \<le> STRANGER_SHARE_FULL"
    using battery_share_bounds [of g] load_share_bounds [of g] by (auto simp: share_def)
  show "share (set_load g l) = STRANGER_SHARE_FLOOR" if "\<not> is_finite l"
  proof -
    have "\<not> 1 \<le> LOAD_CURVE_START"
    proof
      assume "1 \<le> LOAD_CURVE_START"
      moreover have "LOAD_CURVE_START \<le> 3 / 4"
        unfolding LOAD_CURVE_START_def
      proof (rule fl32_le)
        have "rep 24 (of_int 3 * 2 powi - 2)" unfolding Floats.rep_def by (intro exI [of _ 3] exI [of _ "-2"]) simp
        then show "rep 24 (3 / 4)" by (simp add: power_int_minus)
      qed simp_all
      ultimately show False by simp
    qed
    then have "load_share (set_load g l) = STRANGER_SHARE_FLOOR"
      using that by (cases l) (simp_all add: load_share_def set_load_def LOAD_CURVE_END_def)
    then show ?thesis using battery_share_bounds [of "set_load g l"] by (simp add: share_def)
  qed
  assume "(gv_charging g \<or> (\<forall>p. gv_battery_percent g = Some p \<longrightarrow> 40 \<le> unat p)) \<and> gv_load g \<le> LOAD_CURVE_START"
  then show "share g = STRANGER_SHARE_FULL"
    by (auto simp: share_def battery_share_def load_share_def BATTERY_CURVE_START_def Let_def split: option.splits)
qed

theorem share_between_floor_and_full_witness:
  "share (set_load (gv_new 120) NaN) = STRANGER_SHARE_FLOOR \<and> share (gv_new 120) = STRANGER_SHARE_FULL"
proof -
  have "0 \<le> LOAD_CURVE_START" unfolding LOAD_CURVE_START_def by (rule fl32_nonneg) simp
  then show ?thesis
    using share_between_floor_and_full [of "gv_new 120" NaN] by (simp add: gv_new_def)
qed

section \<open>Buckets\<close>

lemma cap_at_least_floor: "per_sender_cap g = Some c \<Longrightarrow> 6 \<le> unat c"
proof -
  have "6 \<le> unat (max x 6)" for x :: u32
    by (cases "x \<le> 6") (simp_all add: max_def word_le_nat_alt not_le word_less_nat_alt)
  then show "per_sender_cap g = Some c \<Longrightarrow> 6 \<le> unat c"
    by (auto simp: per_sender_cap_def Let_def FLOOR_PER_SENDER_def split: if_splits)
qed

lemma rep_u32: "rep 53 (rat_of_nat (unat (c :: u32)))"
proof -
  have "unat c < 2 ^ 53" using unat_bound [of c] by simp
  then show "rep 53 (rat_of_nat (unat c))" by (rule rep_of_nat)
qed

lemma share_same: "share (g\<lparr>gv_senders := s\<rparr>) = share g"
  by (cases "gv_battery_percent g") (simp_all add: share_def battery_share_def load_share_def)

lemma price_same:
  assumes "hm_len s = hm_len (gv_senders g)"
  shows "per_sender_cap (g\<lparr>gv_senders := s\<rparr>) = per_sender_cap g"
  using assms by (simp add: per_sender_cap_def budget_per_min_def share_same Let_def)

lemma fl64_pos: "0 < x \<Longrightarrow> 0 < f64 x"
  using fl_pos_bounds [of x 53] by (meson less_le_trans zero_less_numeral zero_less_power_int)

lemma refill_one_stays:
  assumes "now_ms \<le> sq_last_refill_ms q"
  shows "refill_one cap r now_ms q = q"
  using assms by (simp add: refill_one_def max_def)

lemma shrink_one_stays: "sq_send_tokens q \<le> cap \<Longrightarrow> sq_recv_tokens q \<le> cap \<Longrightarrow> shrink_one cap q = q"
  by (simp add: shrink_one_def min_def)

text \<open>What one turn of the loops does to a bucket: it is filled up to the price and not below empty.\<close>

lemma refilled_bucket:
  assumes "tokens_ok q" and "0 \<le> cap" and "0 \<le> r" and "i64_chk (now_ms - sq_last_refill_ms q) \<noteq> None"
  defines "q' \<equiv> shrink_one cap (refill_one cap r now_ms q)"
  shows "now_ms \<le> sq_last_refill_ms q'" "i64_chk (now_ms - sq_last_refill_ms q') \<noteq> None" "tokens_ok q'"
    "sq_send_tokens q' \<le> cap" "sq_recv_tokens q' \<le> cap"
proof -
  have zero: "i64_chk 0 \<noteq> None" by (simp add: i64_chk_def in_i64_def i64_min_def i64_max_def)
  have pos: "0 < f64 (rat_of_int (now_ms - sq_last_refill_ms q))" if "sq_last_refill_ms q < now_ms"
    using that by (intro fl64_pos) simp
  have fill: "0 \<le> f64 (tk + f64 (f64 (rat_of_int e) * r))" if "0 \<le> tk" "0 \<le> e" for tk e
    using that assms(3) by (intro fl64_nonneg add_nonneg_nonneg mult_nonneg_nonneg) simp_all
  consider "now_ms \<le> sq_last_refill_ms q" | "sq_last_refill_ms q < now_ms" by linarith
  then have "now_ms \<le> sq_last_refill_ms q' \<and> i64_chk (now_ms - sq_last_refill_ms q') \<noteq> None \<and> tokens_ok q'
    \<and> sq_send_tokens q' \<le> cap \<and> sq_recv_tokens q' \<le> cap"
  proof cases
    case 1
    then show ?thesis using assms by (simp add: q'_def refill_one_stays shrink_one_def tokens_ok_def)
  next
    case 2
    then show ?thesis
      using assms(1,2) pos fill [of "sq_send_tokens q" "now_ms - sq_last_refill_ms q"]
        fill [of "sq_recv_tokens q" "now_ms - sq_last_refill_ms q"] zero
      by (simp add: q'_def refill_one_def Let_def max_def shrink_one_def tokens_ok_def)
  qed
  then show "now_ms \<le> sq_last_refill_ms q'" "i64_chk (now_ms - sq_last_refill_ms q') \<noteq> None" "tokens_ok q'"
    "sq_send_tokens q' \<le> cap" "sq_recv_tokens q' \<le> cap" by blast+
qed

lemma cap_exact: "f64 (rat_of_nat (unat (c :: u32)) * BUCKET_CAPACITY_FACTOR) = rat_of_nat (unat c)"
  by (simp add: BUCKET_CAPACITY_FACTOR_def fl_exact rep_u32)

lemma cap_per_ms_nonneg: "0 \<le> f64 (rat_of_nat (unat (c :: u32)) / rat_of_int REFILL_INTERVAL_MS)"
  by (intro fl64_nonneg) (simp add: REFILL_INTERVAL_MS_def)

lemma refill_all_settled: "settled c now_ms g \<Longrightarrow> refill_all g now_ms = Some g"
proof -
  assume s: "settled c now_ms g"
  have same: "shrink_one (rat_of_nat (unat c)) (refill_one (rat_of_nat (unat c)) r now_ms q) = q"
    if "(k, q) \<in> set (gv_senders g)" for k q r
  proof -
    have "q \<in> set (hm_values (gv_senders g))" using that by (force simp: hm_values_def)
    with s show ?thesis by (simp add: settled_def refill_one_stays shrink_one_stays)
  qed
  have "map (\<lambda>(k, q). (k, shrink_one (rat_of_nat (unat c)) (refill_one (rat_of_nat (unat c)) r now_ms q))) (gv_senders g)
      = gv_senders g" for r
    by (rule map_idI) (auto simp: same)
  moreover have "\<not> (\<exists>q \<in> set (hm_values (gv_senders g)). i64_chk (now_ms - sq_last_refill_ms q) = None)"
    using s by (auto simp: settled_def)
  ultimately show ?thesis using s by (auto simp: refill_all_def settled_def cap_exact Let_def)
qed

lemma refill_all_settles:
  assumes "gov_inv g" and "refill_all g now_ms = Some g1"
  obtains c where "per_sender_cap g = Some c" "settled c now_ms g1"
    "gv_senders g1 = map (\<lambda>(k, q). (k, shrink_one (rat_of_nat (unat c)) (refill_one (rat_of_nat (unat c))
      (f64 (rat_of_nat (unat c) / rat_of_int REFILL_INTERVAL_MS)) now_ms q))) (gv_senders g)"
    "g1 = g\<lparr>gv_senders := gv_senders g1\<rparr>"
proof -
  obtain c where c: "per_sender_cap g = Some c" using assms(2) by (auto simp: refill_all_def split: bind_splits)
  let ?r = "f64 (rat_of_nat (unat c) / rat_of_int REFILL_INTERVAL_MS)"
  let ?f = "\<lambda>q. shrink_one (rat_of_nat (unat c)) (refill_one (rat_of_nat (unat c)) ?r now_ms q)"
  have chk: "\<forall>q \<in> set (hm_values (gv_senders g)). i64_chk (now_ms - sq_last_refill_ms q) \<noteq> None"
    and g1: "g1 = g\<lparr>gv_senders := map (\<lambda>(k, q). (k, ?f q)) (gv_senders g)\<rparr>"
    using assms(2) c by (auto simp: refill_all_def cap_exact Let_def split: if_splits)
  have "settled c now_ms g1"
    unfolding settled_def
  proof (intro conjI ballI)
    have "hm_len (gv_senders g1) = hm_len (gv_senders g)" by (simp add: g1 hm_len_def)
    then show "per_sender_cap g1 = Some c" using price_same [of "gv_senders g1" g] c by (simp add: g1)
    have "map fst (gv_senders g1) = map fst (gv_senders g)" by (auto simp: g1)
    then show "hm_wf (gv_senders g1)" using assms(1) by (simp add: hm_wf_def gov_inv_def)
    fix q' assume "q' \<in> set (hm_values (gv_senders g1))"
    then obtain q where q: "q \<in> set (hm_values (gv_senders g))" "q' = ?f q" by (force simp: g1 hm_values_def)
    have "tokens_ok q" using q(1) assms(1) by (simp add: gov_inv_def)
    note b = refilled_bucket [OF this of_nat_0_le_iff cap_per_ms_nonneg [of c] chk [rule_format, OF q(1)], of "unat c"]
    show "now_ms \<le> sq_last_refill_ms q'" "i64_chk (now_ms - sq_last_refill_ms q') \<noteq> None" "tokens_ok q'"
      "sq_send_tokens q' \<le> rat_of_nat (unat c)" "sq_recv_tokens q' \<le> rat_of_nat (unat c)"
      using b unfolding q(2) by blast+
  qed
  then show ?thesis using that c g1 by simp
qed

lemma settled_take:
  assumes "settled c now_ms g"
  shows "allow_send g peer now_ms = (case hm_get (gv_senders g) peer of None \<Rightarrow> Some (False, g)
    | Some q \<Rightarrow> if 1 \<le> sq_send_tokens q
        then Some (True, g\<lparr>gv_senders := hm_insert peer (q\<lparr>sq_send_tokens := f64 (sq_send_tokens q - 1)\<rparr>) (gv_senders g)\<rparr>)
        else Some (False, g))"
  using refill_all_settled [OF assms] by (auto simp: allow_send_def take_token_def split: option.split)

lemma settled_insert:
  assumes s: "settled c now_ms g" and q: "hm_get (gv_senders g) peer = Some q" and one: "1 \<le> sq_send_tokens q"
  shows "settled c now_ms (g\<lparr>gv_senders := hm_insert peer (q\<lparr>sq_send_tokens := f64 (sq_send_tokens q - 1)\<rparr>) (gv_senders g)\<rparr>)"
proof -
  let ?q = "q\<lparr>sq_send_tokens := f64 (sq_send_tokens q - 1)\<rparr>"
  have wf: "hm_wf (gv_senders g)" using s by (simp add: settled_def)
  have len: "hm_len (hm_insert peer ?q (gv_senders g)) = hm_len (gv_senders g)" by (rule hm.siz_ins_old [OF wf q])
  have old: "q \<in> set (hm_values (gv_senders g))" by (rule hm_get_values [OF q])
  have "f64 (sq_send_tokens q - 1) \<le> rat_of_nat (unat c)" "0 \<le> f64 (sq_send_tokens q - 1)"
    using s old one by (auto intro!: fl64_le fl64_nonneg rep_u32 simp: settled_def)
  then show ?thesis
    using s old hm_values_insert [of peer ?q "gv_senders g"]
    by (auto simp: settled_def price_same [OF len] hm_laws tokens_ok_def)
qed

text \<open>From a settled governor with at most, or at least, \<open>m\<close> tokens.\<close>

lemma settled_sends_le:
  assumes "settled c now_ms g" and "\<And>q. hm_get (gv_senders g) peer = Some q \<Longrightarrow> sq_send_tokens q \<le> rat_of_nat m"
    and "m < 2 ^ 53" and "sends n g peer now_ms = Some (k, g')"
  shows "k \<le> m"
  using assms
proof (induction n arbitrary: g m k)
  case (Suc n)
  show ?case
  proof (cases "\<exists>q. hm_get (gv_senders g) peer = Some q \<and> 1 \<le> sq_send_tokens q")
    case False
    then have "allow_send g peer now_ms = Some (False, g)"
      using settled_take [OF Suc.prems(1)] by (auto split: option.split)
    then have "sends n g peer now_ms = Some (k, g')" using Suc.prems(4) by (auto split: bind_splits)
    then show ?thesis using Suc by blast
  next
    case True
    then obtain q where q: "hm_get (gv_senders g) peer = Some q" "1 \<le> sq_send_tokens q" by blast
    let ?g = "g\<lparr>gv_senders := hm_insert peer (q\<lparr>sq_send_tokens := f64 (sq_send_tokens q - 1)\<rparr>) (gv_senders g)\<rparr>"
    have "allow_send g peer now_ms = Some (True, ?g)" using settled_take [OF Suc.prems(1)] q by simp
    then obtain k' where k': "sends n ?g peer now_ms = Some (k', g')" "k = Suc k'"
      using Suc.prems(4) by (auto split: bind_splits)
    have m: "sq_send_tokens q \<le> rat_of_nat m" "0 < m" using Suc.prems(2) [OF q(1)] q(2) by (auto intro: ccontr)
    have "f64 (sq_send_tokens q - 1) \<le> rat_of_nat (m - 1)"
      using m q(2) Suc.prems(3) by (intro fl64_le rep_of_nat) (simp_all add: of_nat_diff)
    then have "k' \<le> m - 1"
      using Suc.prems(3) by (intro Suc.IH [OF settled_insert [OF Suc.prems(1) q] _ _ k'(1)]) (auto simp: hm_laws)
    then show ?thesis using k'(2) m(2) by linarith
  qed
qed simp

lemma settled_sends_all:
  assumes "settled c now_ms g" and "hm_get (gv_senders g) peer = Some q" and "rat_of_nat m \<le> sq_send_tokens q" and "m < 2 ^ 53"
  shows "\<exists>g'. sends m g peer now_ms = Some (m, g')"
  using assms
proof (induction m arbitrary: g q)
  case (Suc m)
  have one: "1 \<le> sq_send_tokens q" using Suc.prems(3) by simp
  let ?g = "g\<lparr>gv_senders := hm_insert peer (q\<lparr>sq_send_tokens := f64 (sq_send_tokens q - 1)\<rparr>) (gv_senders g)\<rparr>"
  have a: "allow_send g peer now_ms = Some (True, ?g)" using settled_take [OF Suc.prems(1)] Suc.prems(2) one by simp
  have "rat_of_nat m \<le> f64 (sq_send_tokens q - 1)"
    using Suc.prems(3,4) by (intro fl64_ge rep_of_nat) simp_all
  then obtain g' where "sends m ?g peer now_ms = Some (m, g')"
    using Suc.IH [OF settled_insert [OF Suc.prems(1,2) one], of "q\<lparr>sq_send_tokens := f64 (sq_send_tokens q - 1)\<rparr>"] Suc.prems(4)
    by (auto simp: hm_laws)
  then show ?case using a by simp
qed simp

lemma settled_inv: "settled c now_ms g \<Longrightarrow> 0 \<le> gv_load g \<Longrightarrow> gv_load g \<le> 1 \<Longrightarrow> gov_inv g"
  by (simp add: settled_def gov_inv_def)

lemma gov_inv_insert:
  assumes "gov_inv g" and "tokens_ok q"
  shows "gov_inv (g\<lparr>gv_senders := hm_insert peer q (gv_senders g)\<rparr>)"
  using assms hm_values_insert [of peer q "gv_senders g"] by (auto simp: gov_inv_def hm_laws)

lemma gov_inv_take:
  assumes "gov_inv g" and "take_token g peer now_ms send = Some (ok, g')"
  shows "gov_inv g'"
proof -
  obtain g1 where g1: "refill_all g now_ms = Some g1" using assms(2) by (auto simp: take_token_def split: bind_splits)
  obtain c where c: "settled c now_ms g1" "g1 = g\<lparr>gv_senders := gv_senders g1\<rparr>"
    by (rule refill_all_settles [OF assms(1) g1])
  have inv: "gov_inv g1"
    using assms(1) c(1) by (intro settled_inv) (simp_all add: gov_inv_def, (subst c(2), simp)+)
  have ok: "tokens_ok q" if "hm_get (gv_senders g1) peer = Some q" for q
    using hm_get_values [OF that] inv by (simp add: gov_inv_def)
  show ?thesis
  proof (cases "hm_get (gv_senders g1) peer")
    case None
    then show ?thesis using assms(2) g1 inv by (simp add: take_token_def)
  next
    case (Some q)
    have "tokens_ok (q\<lparr>sq_send_tokens := f64 (sq_send_tokens q - 1)\<rparr>)" if "1 \<le> sq_send_tokens q"
      using ok [OF Some] that by (auto simp: tokens_ok_def intro!: fl64_nonneg)
    moreover have "tokens_ok (q\<lparr>sq_recv_tokens := f64 (sq_recv_tokens q - 1)\<rparr>)" if "1 \<le> sq_recv_tokens q"
      using ok [OF Some] that by (auto simp: tokens_ok_def intro!: fl64_nonneg)
    ultimately show ?thesis
      using assms(2) g1 inv Some gov_inv_insert [OF inv, of _ peer]
      by (auto simp: take_token_def Let_def split: if_splits)
  qed
qed

lemma gov_reach_inv: "gov_reach g \<Longrightarrow> gov_inv g"
proof (induction rule: gov_reach.induct)
  case (gov_load g l)
  then show ?case by (cases l) (auto simp: gov_inv_def set_load_def)
next
  case (gov_register g peer now_ms g')
  then show ?case
    by (auto simp: register_sender_def Let_def tokens_ok_def intro!: gov_inv_insert split: bind_splits if_splits)
next
  case (gov_drop g peer)
  then show ?case
    by (simp add: gov_inv_def drop_sender_def hm_laws) (auto simp: hm_values_def hm_remove_filter)
next
  case (gov_take g peer now_ms send ok g')
  then show ?case using gov_inv_take by blast
qed (simp_all add: gov_inv_def gv_new_def set_battery_def hm_values_def)

lemma sends_after_refill:
  assumes "gov_inv g" and "refill_all g now_ms = Some g1"
  shows "sends (Suc n) g peer now_ms = sends (Suc n) g1 peer now_ms"
proof -
  obtain c where "settled c now_ms g1" by (rule refill_all_settles [OF assms])
  then have "refill_all g1 now_ms = Some g1" by (rule refill_all_settled)
  then show ?thesis using assms(2) by (simp add: allow_send_def take_token_def)
qed

lemma settled_sends_total: "settled c now_ms g \<Longrightarrow> \<exists>k g'. sends n g peer now_ms = Some (k, g')"
proof (induction n arbitrary: g)
  case (Suc n)
  have "\<exists>ok g1. allow_send g peer now_ms = Some (ok, g1) \<and> settled c now_ms g1"
    using settled_take [OF Suc.prems, of peer] settled_insert [OF Suc.prems, of peer] Suc.prems
    by (auto split: option.split)
  then obtain ok g1 where "allow_send g peer now_ms = Some (ok, g1)" "settled c now_ms g1" by blast
  with Suc.IH [of g1] show ?case by auto
qed simp

lemma refill_all_total:
  assumes "per_sender_cap g = Some c" and "\<forall>r \<in> set (hm_values (gv_senders g)). i64_chk (now_ms - sq_last_refill_ms r) \<noteq> None"
  shows "\<exists>g1. refill_all g now_ms = Some g1"
  using assms by (auto simp: refill_all_def Let_def)

lemma demo_governor_reach: "gov_reach demo_governor"
proof (rule gov_register [OF gov_start])
  show "register_sender (gv_new 40) [1] 0 = Some demo_governor"
    by (simp add: register_sender_def per_sender_cap_def Let_def gv_new_def demo_governor_def FLOOR_PER_SENDER_def
        hm_contains_def hm_insert_def)
qed

lemma demo_governor_facts:
  "per_sender_cap demo_governor \<noteq> None" "hm_get (gv_senders demo_governor) [1] = Some (snd (hd (gv_senders demo_governor)))"
  "\<forall>r \<in> set (hm_values (gv_senders demo_governor)). sq_last_refill_ms r = 0"
  by (simp_all add: per_sender_cap_def Let_def demo_governor_def hm_len_def hm_get_def hm_values_def)

text \<open>
  C18. No bursts beyond the price: of any number of messages a sender submits at one moment, at most as
  many as the current price (\<^verbatim>\<open>per_sender_cap\<close>) are let through, and the price is never below the
  guaranteed six.
\<close>

theorem burst_at_most_the_price:
  assumes "gov_reach g" and "per_sender_cap g = Some c" and "sends n g peer now_ms = Some (k, g')"
  shows "k \<le> unat c \<and> 6 \<le> unat c"
proof (cases n)
  case 0
  then show ?thesis using assms cap_at_least_floor by simp
next
  case (Suc m)
  obtain g1 where g1: "refill_all g now_ms = Some g1"
    using assms(3) Suc by (auto simp: allow_send_def take_token_def split: bind_splits)
  note inv = gov_reach_inv [OF assms(1)]
  obtain c' where c': "per_sender_cap g = Some c'" "settled c' now_ms g1" by (rule refill_all_settles [OF inv g1])
  then have s: "settled c now_ms g1" using assms(2) by simp
  have "sends n g1 peer now_ms = Some (k, g')" using sends_after_refill [OF inv g1] assms(3) Suc by simp
  moreover have "sq_send_tokens q \<le> rat_of_nat (unat c)" if "hm_get (gv_senders g1) peer = Some q" for q
    using hm_get_values [OF that] s by (simp add: settled_def)
  moreover have "unat c < 2 ^ 53" using unat_bound [of c] by simp
  ultimately have "k \<le> unat c" using settled_sends_le [OF s] by blast
  then show ?thesis using cap_at_least_floor [OF assms(2)] by simp
qed

theorem burst_at_most_the_price_witness:
  "\<exists>c k g'. per_sender_cap demo_governor = Some c \<and> sends 9 demo_governor [1] 60000 = Some (k, g') \<and> k \<le> unat c"
proof -
  obtain c where c: "per_sender_cap demo_governor = Some c" using demo_governor_facts(1) by blast
  have "\<exists>g1. refill_all demo_governor 60000 = Some g1"
    using demo_governor_facts(3)
    by (intro refill_all_total [OF c]) (simp add: i64_chk_def in_i64_def i64_min_def i64_max_def)
  then obtain g1 where g1: "refill_all demo_governor 60000 = Some g1" by blast
  note inv = gov_reach_inv [OF demo_governor_reach]
  obtain c' where "settled c' 60000 g1" by (rule refill_all_settles [OF inv g1])
  then obtain k g' where "sends (Suc 8) demo_governor [1] 60000 = Some (k, g')"
    using settled_sends_total [of c' 60000 g1 "Suc 8" "[1]"] sends_after_refill [OF inv g1, of 8 "[1]"] by auto
  then have k: "sends 9 demo_governor [1] 60000 = Some (k, g')" by (simp only: eval_nat_numeral)
  from burst_at_most_the_price [OF demo_governor_reach c k] c k show ?thesis by blast
qed

text \<open>The smallest price, earned over one minute: \<open>60000 * (6 / 60000)\<close> is 6 in double precision.\<close>

lemma six_per_minute: "f64 (60000 * f64 (6 / 60000)) = 6"
proof -
  have "expo (6 / 60000) = - 14" by (rule expo_unique) (simp_all add: power_int_minus)
  then have r: "f64 (6 / 60000) = 7378697629483821 / 73786976294838206464"
    by (simp add: fl_def round_half_even_def Let_def power_int_minus floor_rat_numeral)
  have "expo (60000 * (7378697629483821 / 73786976294838206464)) = 2" by (rule expo_unique) simp_all
  then show ?thesis
    unfolding r by (simp add: fl_def round_half_even_def Let_def power_int_minus floor_rat_numeral)
qed

lemma minute_fills_six:
  assumes "tokens_ok q" and "6 \<le> unat (c :: u32)" and "sq_last_refill_ms q + 60000 \<le> now_ms"
  shows "rat_of_nat 6 \<le> sq_send_tokens (shrink_one (rat_of_nat (unat c)) (refill_one (rat_of_nat (unat c))
    (f64 (rat_of_nat (unat c) / rat_of_int REFILL_INTERVAL_MS)) now_ms q))"
proof -
  let ?cap = "rat_of_nat (unat c)"
  let ?r = "f64 (?cap / rat_of_int REFILL_INTERVAL_MS)"
  let ?e = "f64 (rat_of_int (now_ms - sq_last_refill_ms q))"
  have cap: "6 \<le> ?cap" using assms(2) by (metis of_nat_le_iff of_nat_numeral)
  have "f64 (6 / 60000) \<le> ?r"
    using cap by (intro fl_mono divide_right_mono) (simp_all add: REFILL_INTERVAL_MS_def)
  moreover have e: "60000 \<le> ?e"
    using assms(3) rep_of_nat [of 60000 53] by (intro fl64_ge) (simp_all flip: of_int_diff)
  ultimately have "60000 * f64 (6 / 60000) \<le> ?e * ?r" by (intro mult_mono) (simp_all add: fl64_nonneg)
  then have "f64 (60000 * f64 (6 / 60000)) \<le> f64 (?e * ?r)" by (intro fl_mono) (simp_all add: fl64_nonneg)
  then have "6 \<le> sq_send_tokens q + f64 (?e * ?r)" using assms(1) unfolding six_per_minute tokens_ok_def by linarith
  then have "6 \<le> f64 (sq_send_tokens q + f64 (?e * ?r))" using rep_of_nat [of 6 53] by (intro fl64_ge) simp_all
  then show ?thesis using cap e assms(3) by (simp add: refill_one_def shrink_one_def Let_def max_def)
qed

text \<open>
  C17. Everybody is served: a registered sender whose bucket was last filled at least a minute ago gets
  at least six messages through, whatever the battery, the load, the number of senders and what it
  sent before. (No time difference overflows, and the number of senders is not a multiple of \<open>2 ^ 32\<close>.)
\<close>

theorem six_messages_a_minute:
  assumes "gov_reach g" and "per_sender_cap g = Some c" and "hm_get (gv_senders g) peer = Some q"
    and "sq_last_refill_ms q + 60000 \<le> now_ms"
    and "\<forall>r \<in> set (hm_values (gv_senders g)). i64_chk (now_ms - sq_last_refill_ms r) \<noteq> None"
  shows "\<exists>g'. sends 6 g peer now_ms = Some (6, g')"
proof -
  note inv = gov_reach_inv [OF assms(1)]
  obtain g1 where g1: "refill_all g now_ms = Some g1" using refill_all_total [OF assms(2,5)] by blast
  obtain c' where c': "per_sender_cap g = Some c'" "settled c' now_ms g1"
    "gv_senders g1 = map (\<lambda>(k, q). (k, shrink_one (rat_of_nat (unat c')) (refill_one (rat_of_nat (unat c'))
      (f64 (rat_of_nat (unat c') / rat_of_int REFILL_INTERVAL_MS)) now_ms q))) (gv_senders g)"
    by (rule refill_all_settles [OF inv g1])
  let ?cap = "rat_of_nat (unat c)"
  let ?r = "f64 (?cap / rat_of_int REFILL_INTERVAL_MS)"
  let ?q = "shrink_one ?cap (refill_one ?cap ?r now_ms q)"
  have q1: "hm_get (gv_senders g1) peer = Some ?q"
    using c'(1,3) assms(2,3) by (simp add: hm_get_def map_of_map comp_def)
  have "tokens_ok q" using hm_get_values [OF assms(3)] inv by (simp add: gov_inv_def)
  then have "rat_of_nat 6 \<le> sq_send_tokens ?q"
    using assms(4) cap_at_least_floor [OF assms(2)] by (intro minute_fills_six) simp_all
  then have "\<exists>g'. sends 6 g1 peer now_ms = Some (6, g')"
    using c'(1,2) assms(2) by (intro settled_sends_all [OF _ q1]) simp_all
  then show ?thesis using sends_after_refill [OF inv g1, of 5] by (simp add: eval_nat_numeral)
qed

theorem six_messages_a_minute_witness:
  "\<exists>g'. sends 6 demo_governor [1] 60000 = Some (6, g')"
proof -
  obtain c where c: "per_sender_cap demo_governor = Some c" using demo_governor_facts(1) by blast
  show ?thesis
    using demo_governor_facts(3) hm_get_values [OF demo_governor_facts(2)]
    by (intro six_messages_a_minute [OF demo_governor_reach c demo_governor_facts(2)])
      (simp_all add: i64_chk_def in_i64_def i64_min_def i64_max_def)
qed

end
