(* ===== verification/Timed_Gate.thy ===== *)
theory Timed_Gate
  imports Mailbox Clock
begin

text \<open>
  The mailbox gate (\<^verbatim>\<open>mailbox.rs\<close>) under the internal clock (\<^verbatim>\<open>clock.rs\<close>): writes arrive at local times and
  are judged at the internal time the clock reads then, while time sources correct the clock and contacts
  exchange times in between. Shown here: how far the readings can go back when only the time sources change
  the offset in force. A vote of the contacts has no such bound (the root theory has the run). The properties that follow for the gate are
  in the root theory.
\<close>

section \<open>Runs\<close>

datatype gate_event = Arrive bucket_write int | Adjust clock_op

text \<open>The writes with the internal time at their arrival (\<^verbatim>\<open>now(..) as u64\<close>); a reading that panics ends the run.\<close>

fun gate_times :: "clock \<Rightarrow> gate_event list \<Rightarrow> (bucket_write \<times> u64) list" where
  "gate_times c [] = []"
| "gate_times c (Arrive w l # es) =
     (case now c l of
        None \<Rightarrow> []
      | Some (t, c') \<Rightarrow> (w, i64_as_u64 t) # gate_times c' es)"
| "gate_times c (Adjust op # es) = gate_times (clock_apply op c) es"

fun arrivals :: "gate_event list \<Rightarrow> bucket_write list" where
  "arrivals [] = []"
| "arrivals (Arrive w l # es) = w # arrivals es"
| "arrivals (Adjust op # es) = arrivals es"

abbreviation at_internal_time :: "clock \<Rightarrow> (bucket_write \<times> int) list \<Rightarrow> (bucket_write \<times> u64) list" where
  "at_internal_time c ws \<equiv> gate_times c (map (\<lambda>(w, l). Arrive w l) ws)"

text \<open>
  The offset of a reading is that of the reading before, or a network offset that is still fresh: no
  adopted offset has run out or been withdrawn, and no vote of the contacts has moved the clock.
\<close>

definition offset_continues :: "clock \<Rightarrow> int \<Rightarrow> bool" where
  "offset_continues c l \<longleftrightarrow> effective_offset c l = Some (ck_last_offset_ms c)
     \<or> ck_network_offset_ms c \<noteq> None \<and> l \<le> ck_network_fresh_until c"

text \<open>
  A run after local time \<open>l0\<close>: local times do not decrease and every reading continues the offset, so
  that only time sources have changed it. Contacts may be trusted, withdrawn and exchange times as long as
  their vote is not what sets the offset of a reading.
\<close>

fun steady :: "int \<Rightarrow> clock \<Rightarrow> gate_event list \<Rightarrow> bool" where
  "steady l0 c [] = True"
| "steady l0 c (Arrive w l # es) = (l0 \<le> l \<and> l \<le> 2 ^ 62 \<and> offset_continues c l
     \<and> (case now c l of None \<Rightarrow> True | Some (t, c') \<Rightarrow> steady l c' es))"
| "steady l0 c (Adjust op # es) =
     (case op of
        Sync s l n \<Rightarrow> l0 \<le> l \<and> l \<le> 2 ^ 62 \<and> steady l (clock_apply op c) es
      | Trust p \<Rightarrow> steady l0 (clock_apply op c) es
      | Distrust p \<Rightarrow> steady l0 (clock_apply op c) es
      | Exchange p t1 t2 t3 t4 \<Rightarrow> steady l0 (clock_apply op c) es
      | _ \<Rightarrow> False)"

text \<open>
  The invariant behind the bound, for \<open>H\<close> the highest reading so far and \<open>l0\<close> the local time reached:
  \<open>H\<close> is at most the present reading, plus two minutes while the last adoption is younger than that; an
  offset adopted but not yet read is within two minutes of the last one, and \<open>H\<close> is then no higher than
  what the old offset gave at the adoption.
\<close>

definition gate_inv :: "int \<Rightarrow> int \<Rightarrow> clock \<Rightarrow> bool" where
  "gate_inv H l0 c \<longleftrightarrow> clock_inv c \<and> 86400000 \<le> l0 \<and> l0 \<le> 2 ^ 62
     \<and> uint (ck_internal_high_water_ms c) \<le> H
     \<and> ck_last_network_adopted_at c \<le> l0
     \<and> H \<le> ck_last_offset_ms c + max l0 (ck_last_network_adopted_at c + 120000)
     \<and> (\<forall>x. ck_network_offset_ms c = Some x \<and> l0 \<le> ck_network_fresh_until c \<longrightarrow>
          x = ck_last_offset_ms c
          \<or> \<bar>x - ck_last_offset_ms c\<bar> \<le> 120000 \<and> H \<le> ck_last_offset_ms c + ck_last_network_adopted_at c)"

section \<open>How far readings go back\<close>

lemma gate_inv_adjust:
  assumes "gate_inv H l0 c" and "steady l0 c (Adjust op # es)"
  shows "\<exists>l1 \<ge> l0. gate_inv H l1 (clock_apply op c) \<and> steady l1 (clock_apply op c) es"
proof (cases op)
  case (Sync s l n)
  have inv: "clock_inv c" using assms(1) by (simp add: gate_inv_def)
  have l: "l0 \<le> l" "l \<le> 2 ^ 62" "86400000 \<le> l" "in_i64 l"
    using assms by (auto simp: Sync gate_inv_def in_i64_def i64_min_def i64_max_def)
  have "i64_chk (l + NETWORK_FRESH_MS) = Some (l + NETWORK_FRESH_MS)"
    using l by (simp add: i64_chk_def in_i64_def i64_min_def i64_max_def NETWORK_FRESH_MS_def)
  then have "gate_inv H l (clock_apply op c)"
    using assms(1) l sync_inv [OF inv l(4), of s n]
    by (auto simp: Sync gate_inv_def network_sync_eq adoptable_def split: option.splits if_splits)
  then show ?thesis using assms(2) l(1) by (auto simp: Sync)
next
  case (Exchange p t1 t2 t3 t4)
  have "gate_inv H l0 (clock_apply op c)"
    using assms(1) exchange_inv [of c p t1 t2 t3 t4] by (auto simp: Exchange gate_inv_def on_peer_exchange_def Let_def)
  then show ?thesis using assms(2) by (auto simp: Exchange)
next
  case (Trust p)
  have "gate_inv H l0 (clock_apply op c)"
    using assms(1) apply_inv [of c op] by (auto simp: Trust gate_inv_def trust_peer_def)
  then show ?thesis using assms(2) by (auto simp: Trust)
next
  case (Distrust p)
  have "gate_inv H l0 (clock_apply op c)"
    using assms(1) apply_inv [of c op] by (auto simp: Distrust gate_inv_def distrust_peer_def)
  then show ?thesis using assms(2) by (auto simp: Distrust)
qed (use assms(2) in auto)

lemma gate_inv_arrive:
  assumes "gate_inv H l0 c" and "l0 \<le> l" and "l \<le> 2 ^ 62" and "offset_continues c l"
  shows "\<exists>(u :: u64) c'. now c l = Some (uint u, c') \<and> H \<le> uint u + 120000 \<and> gate_inv (max H (uint u)) l c'"
proof -
  have inv: "clock_inv c" using assms(1) by (simp add: gate_inv_def)
  have li: "in_i64 l" using assms(1-3) by (auto simp: gate_inv_def in_i64_def i64_min_def i64_max_def)
  obtain x where x: "effective_offset c l = Some x" and
    cont: "x = ck_last_offset_ms c \<or> ck_network_offset_ms c = Some x \<and> l \<le> ck_network_fresh_until c"
    using assms(4) by (auto simp: offset_continues_def effective_offset_def)
  have day: "in_day x" using cont inv by (auto simp: clock_inv_def)
  then have int: "max (i64_sat (l + x)) 0 = l + x"
    using assms(1-3) by (auto simp: gate_inv_def in_day_def MAX_CORRECTION_MS_def i64_sat_def i64_min_def i64_max_def)
  obtain rb u where u: "now c l = Some (uint u, c\<lparr>ck_local_high_water_ms := max (ck_local_high_water_ms c) l,
      ck_rollback_detected := rb, ck_last_offset_ms := x, ck_internal_high_water_ms := u\<rparr>)"
    and uu: "uint u = (if x \<noteq> ck_last_offset_ms c then l + x else max (uint (ck_internal_high_water_ms c)) (l + x))"
    using now_result [OF inv x li] unfolding int by blast
  let ?c = "c\<lparr>ck_local_high_water_ms := max (ck_local_high_water_ms c) l, ck_rollback_detected := rb,
    ck_last_offset_ms := x, ck_internal_high_water_ms := u\<rparr>"
  have H: "H \<le> x + max l (ck_last_network_adopted_at c + 120000)"
    using assms(1,2) cont by (auto simp: gate_inv_def)
  have "clock_inv ?c" by (rule now_inv [OF inv li u])
  moreover have "uint u \<le> x + max l (ck_last_network_adopted_at c + 120000)" "l + x \<le> uint u"
    using assms(1) H uu by (auto simp: gate_inv_def)
  moreover have "y = x" if "ck_network_offset_ms c = Some y" "l \<le> ck_network_fresh_until c" for y
    using x that by (simp add: effective_offset_def)
  ultimately have "gate_inv (max H (uint u)) l ?c"
    using assms(1-3) H by (auto simp: gate_inv_def)
  moreover have "H \<le> uint u + 120000"
    using H assms(1,2) \<open>l + x \<le> uint u\<close> by (auto simp: gate_inv_def)
  ultimately show ?thesis using u by blast
qed

lemma readings_back_two_minutes:
  assumes "gate_inv H l0 c" and "steady l0 c es"
  shows "map fst (gate_times c es) = arrivals es
    \<and> (\<forall>p \<in> set (gate_times c es). H \<le> uint (snd p) + 120000)
    \<and> sorted_wrt (\<lambda>a b. uint (snd a) \<le> uint (snd b) + 120000) (gate_times c es)"
  using assms
proof (induction es arbitrary: H l0 c)
  case (Cons e es)
  show ?case
  proof (cases e)
    case (Arrive w l)
    then have "l0 \<le> l" "l \<le> 2 ^ 62" "offset_continues c l" using Cons.prems(2) by simp_all
    from gate_inv_arrive [OF Cons.prems(1) this] obtain u :: u64 and c' where u: "now c l = Some (uint u, c')"
      and "H \<le> uint u + 120000" and inv: "gate_inv (max H (uint u)) l c'" by blast
    moreover have "steady l c' es" using Cons.prems(2) u by (simp add: Arrive)
    moreover have "i64_as_u64 (uint u) = u" by (simp add: i64_as_u64_def)
    ultimately show ?thesis using Cons.IH [OF inv] by (auto simp: Arrive)
  next
    case (Adjust op)
    then show ?thesis using gate_inv_adjust [OF Cons.prems(1)] Cons.prems(2) Cons.IH by fastforce
  qed
qed simp

lemma near_uint: "uint x \<le> uint y + 120000 \<Longrightarrow> unat x < unat y + 240000" for x y :: u64
  unfolding unat_eq_nat_uint using uint_ge_0 [of x] uint_ge_0 [of y] by linarith

lemma gate_inv_start:
  assumes "86400000 \<le> l0" and "l0 \<le> 2 ^ 62" and "uint v \<le> l0"
  shows "gate_inv l0 l0 (restore_high_water clock_new v)"
proof -
  have "clock_inv (clock_apply (Restore v) clock_new)" by (intro apply_inv clock_new_inv) simp
  moreover have "uint (min v MAX_PLAUSIBLE_MS) \<le> uint v" by (simp add: min_def word_le_def)
  ultimately show ?thesis
    using assms
    by (simp add: gate_inv_def restore_high_water_def Let_def clock_new_def clock_default_def LONG_AGO_def i64_min_def
        signed_divide_int_def)
qed

section \<open>Constant offsets\<close>

lemma effective_offset_after_now:
  "effective_offset (c\<lparr>ck_local_high_water_ms := a, ck_rollback_detected := b, ck_internal_high_water_ms := w\<rparr>) l
     = effective_offset c l"
  by (simp add: effective_offset_def peak_cluster_def split: option.split)

lemma clock_reach_now: "clock_reach c \<Longrightarrow> in_i64 l \<Longrightarrow> now c l = Some (t, c') \<Longrightarrow> clock_reach c'"
  using clock_reach_apply [of c "Now l"] by simp

lemma sorted_near:
  "sorted (map (unat \<circ> snd) ts) \<Longrightarrow> sorted_wrt (\<lambda>a b. unat (snd a) < unat (snd b) + 240000) ts"
  by (auto simp: sorted_map intro: sorted_wrt_mono_rel [rotated])

lemma internal_times_sorted:
  assumes "clock_reach c" and "\<forall>(w, l) \<in> set ws. in_i64 l \<and> effective_offset c l = Some (ck_last_offset_ms c)"
  shows "sorted (map (unat \<circ> snd) (at_internal_time c ws))
    \<and> (\<forall>(w, t) \<in> set (at_internal_time c ws). ck_internal_high_water_ms c \<le> t)"
  using assms
proof (induction ws arbitrary: c)
  case (Cons a ws)
  obtain w l where a: "a = (w, l)" by (cases a)
  have l: "in_i64 l" "effective_offset c l = Some (ck_last_offset_ms c)" using Cons.prems(2) by (auto simp: a)
  obtain rb u where u: "now c l = Some (uint u, c\<lparr>ck_local_high_water_ms := max (ck_local_high_water_ms c) l,
      ck_rollback_detected := rb, ck_last_offset_ms := ck_last_offset_ms c, ck_internal_high_water_ms := u\<rparr>)"
    and "uint u = max (uint (ck_internal_high_water_ms c)) (max (i64_sat (l + ck_last_offset_ms c)) 0)"
    using now_result [OF clock_reach_inv [OF Cons.prems(1)] l(2,1), unfolded not_True_eq_False simp_thms(6) if_False] by blast
  then have hw: "ck_internal_high_water_ms c \<le> u" by (simp add: word_le_def)
  let ?c = "c\<lparr>ck_local_high_water_ms := max (ck_local_high_water_ms c) l, ck_rollback_detected := rb,
    ck_last_offset_ms := ck_last_offset_ms c, ck_internal_high_water_ms := u\<rparr>"
  have "sorted (map (unat \<circ> snd) (at_internal_time ?c ws))
    \<and> (\<forall>(w, t) \<in> set (at_internal_time ?c ws). ck_internal_high_water_ms ?c \<le> t)"
    using Cons.prems(2) by (intro Cons.IH clock_reach_now [OF Cons.prems(1) l(1) u]) (auto simp: effective_offset_after_now)
  moreover have "i64_as_u64 (uint u) = u" by (simp add: i64_as_u64_def)
  ultimately show ?case
    using hw by (auto simp: a u word_le_nat_alt comp_def)
qed simp

lemma clock_reach_ops:
  "clock_reach c \<Longrightarrow> \<forall>op \<in> set ops. clock_op_ok op \<Longrightarrow> clock_reach (foldl (\<lambda>c op. clock_apply op c) c ops)"
  by (induction ops arbitrary: c) (auto intro: clock_reach_apply)

lemma seal_accepted:
  assumes "keyed_ok keyed" and "unat ts \<le> unat t + 300000" and "unat t \<le> unat ts + 300000"
  shows "inbound_step keyed secret c (seal keyed e secret s ts n, t) = nc_step c (env_msg_id e, ts, t)"
  using assms by (simp add: inbound_step_alt bw_verify_iff seal_fields keyed_ok_def)


end
