(* ===== verification/Smoke.thy ===== *)
theory Smoke
  imports Ffi Governor Mailbox Relay Nodekey Queue_Db Clock Entropy_Pool Settings
begin

text \<open>
  The two exports at the head of \<^verbatim>\<open>crates/core/src/ffi.rs\<close>: \<^verbatim>\<open>CoreInfo\<close> and \<^verbatim>\<open>smoke_test_all_modules\<close>, which calls
  every module once and prints what it saw. A failed \<^verbatim>\<open>unwrap\<close> is a panic, \<open>None\<close>.
\<close>

section \<open>Version and licence\<close>

text \<open>\<^verbatim>\<open>env!("CARGO_PKG_VERSION")\<close>, from the crate's manifest.\<close>

definition APP_VERSION :: string where "APP_VERSION = ''0.1.0''"

definition ci_version :: string where "ci_version = APP_VERSION"

definition ci_license :: string where "ci_license = ''AGPL-3.0-or-later''"

section \<open>Formatting\<close>

text \<open>\<^verbatim>\<open>{:?}\<close> of a tier, \<^verbatim>\<open>{}\<close> of a bool, and \<^verbatim>\<open>{:.2}\<close> of a non-negative float, rounded from its exact value.\<close>

fun tier_debug :: "tier \<Rightarrow> string" where
  "tier_debug Light = ''Light''"
| "tier_debug Medium = ''Medium''"
| "tier_debug Heavy = ''Heavy''"

definition show_bool :: "bool \<Rightarrow> string" where
  "show_bool b = (if b then ''true'' else ''false'')"

definition show_fixed2 :: "rat \<Rightarrow> string" where
  "show_fixed2 x = (let n = nat (round_half_even (x * 100))
     in show_nat (n div 100) @ ''.'' @ show_nat (n div 10 mod 10) @ show_nat (n mod 10))"

section \<open>The smoke test\<close>

text \<open>
  Parameters: the hash, the signatures, the random bytes of the three calls for them, and the outcome of
  the database calls.
\<close>

definition smoke_results :: "(bytes \<Rightarrow> nat \<Rightarrow> bytes) \<Rightarrow> ed25519 \<Rightarrow> (nat \<Rightarrow> string + bytes) \<Rightarrow> string option
    \<Rightarrow> (string \<Rightarrow> string option) \<Rightarrow> faults \<Rightarrow> string list option" where
  "smoke_results xof ed rng conn exec f = do {
     (tier, _) \<leftarrow> observe (pe_new th_default) \<lparr>mt_group_size = 1, mt_msg_rate = Fin 0\<rparr>;
     h \<leftarrow> unwrap (harvester_new (rng 0));
     token \<leftarrow> unwrap (fst (draw xof (rng 1) 8 h));
     i \<leftarrow> unwrap (generate (rng 2));
     let fp = identity_fingerprint xof (node_id_of ed i);
     db \<leftarrow> unwrap (db_open conn exec db_empty '':memory:'' (Some ''smoke''));
     (pending, dead, seen) \<leftarrow> unwrap (stats f db);
     let results = [''adaptive='' @ tier_debug tier,
       ''entropy='' @ hex_byte (token ! 0),
       ''envelope_max_frame='' @ show_nat MAX_FRAME_SIZE,
       ''identity_fp_len='' @ show_nat (length fp),
       ''mailbox_replay_window='' @ show_nat (unat REPLAY_WINDOW_MS),
       ''nodekey_max_validity='' @ show_nat (unat MAX_VALIDITY_MS),
       ''relay_ticket_ttl='' @ show_nat (unat MAX_TICKET_TTL_MS),
       ''retry_max_attempts='' @ show_nat (unat (rp_max_attempts rp_default)),
       ''clock_net_cap='' @ show_nat (nat NETWORK_ADOPTION_CAP_MS),
       ''settings_strict='' @ show_bool (st_strict_crypto settings_default),
       ''governor_share='' @ show_fixed2 (share (gv_new 120)),
       ''queue_pending='' @ show_nat (unat pending) @ '' dead='' @ show_nat (unat dead) @ '' seen='' @ show_nat (unat seen)];
     Some results
   }"

definition smoke_test_all_modules :: "(bytes \<Rightarrow> nat \<Rightarrow> bytes) \<Rightarrow> ed25519 \<Rightarrow> (nat \<Rightarrow> string + bytes) \<Rightarrow> string option
    \<Rightarrow> (string \<Rightarrow> string option) \<Rightarrow> faults \<Rightarrow> string option" where
  "smoke_test_all_modules xof ed rng conn exec f =
     map_option (\<lambda>results. ''smoke_test_all_modules: ['' @ join_with '', '' results @ '']'') (smoke_results xof ed rng conn exec f)"

section \<open>Its result\<close>

lemma fresh_share: "share (gv_new n) = STRANGER_SHARE_FULL"
proof -
  have "0 \<le> LOAD_CURVE_START" unfolding LOAD_CURVE_START_def by (rule fl32_nonneg) simp
  then show ?thesis
    by (simp add: share_def battery_share_def load_share_def gv_new_def BATTERY_CURVE_START_def)
qed

lemma fresh_tier: "observe (pe_new th_default) \<lparr>mt_group_size = 1, mt_msg_rate = Fin 0\<rparr> = Some (Light, pe_new th_default)"
  by (simp add: observe_def demanded_def pe_new_def th_default_def DEFAULT_GROUP_MEDIUM_def DEFAULT_RATE_MEDIUM_def
      sat_mul_def Let_def)

lemma digit_chars: "char_of (48 :: nat) = CHR ''0''" "char_of (49 :: nat) = CHR ''1''" "char_of (50 :: nat) = CHR ''2''"
  "char_of (51 :: nat) = CHR ''3''" "char_of (52 :: nat) = CHR ''4''" "char_of (53 :: nat) = CHR ''5''"
  "char_of (55 :: nat) = CHR ''7''" "char_of (56 :: nat) = CHR ''8''" "char_of (57 :: nat) = CHR ''9''"
  by code_simp+

lemma share_printed: "show_fixed2 STRANGER_SHARE_FULL = ''0.15''"
  unfolding share_constants
  by (simp add: show_fixed2_def round_half_even_def Let_def floor_rat_numeral show_nat.simps digit_chars)

lemma numbers_printed:
  "show_nat 4194304 = ''4194304''" "show_nat 128 = ''128''" "show_nat 300000 = ''300000''"
  "show_nat 2592000000 = ''2592000000''" "show_nat 7200000 = ''7200000''" "show_nat 8 = ''8''"
  "show_nat 120000 = ''120000''" "show_nat 0 = ''0''"
  by (simp_all add: show_nat.simps digit_chars)

lemma smoke_calls:
  "unwrap (harvester_new r) = (case r of Inl _ \<Rightarrow> None | Inr b \<Rightarrow> Some \<lparr>eh_pool = ascii ''dc-entropy-v1'' @ b, eh_draws = 0\<rparr>)"
  "unwrap (generate r) = (case r of Inl _ \<Rightarrow> None | Inr b \<Rightarrow> Some \<lparr>id_seed = b\<rparr>)"
  "unwrap (db_open conn exec db_empty '':memory:'' (Some k))
    = (if conn = None \<and> exec (pragma_key k) = None \<and> exec QUEUE_SCHEMA = None then Some db_empty else None)"
  "unwrap (stats f db_empty) = (if f 0 = None \<and> f 1 = None \<and> f 2 = None then Some (0, 0, 0) else None)"
  by (auto simp: harvester_new_def generate_def from_seed_def db_open_def stats_def db_empty_def guard_fault_def split: sum.split option.split)

text \<open>
  The smoke test returns if and only if the three calls for random bytes and the calls of the in-memory
  database succeed, and its results then have no other variable part than the random byte.
\<close>

theorem smoke_test_result:
  assumes "\<And>m n. length (xof m n) = n"
  shows "smoke_results xof ed rng conn exec f =
    (if \<not> isl (rng 0) \<and> \<not> isl (rng 1) \<and> \<not> isl (rng 2) \<and> conn = None \<and> exec (pragma_key ''smoke'') = None
       \<and> exec QUEUE_SCHEMA = None \<and> f 0 = None \<and> f 1 = None \<and> f 2 = None
     then Some [''adaptive=Light'',
       ''entropy='' @ hex_byte (projr (fst (draw xof (rng 1) 8 \<lparr>eh_pool = ascii ''dc-entropy-v1'' @ projr (rng 0), eh_draws = 0\<rparr>)) ! 0),
       ''envelope_max_frame=4194304'', ''identity_fp_len=128'', ''mailbox_replay_window=300000'',
       ''nodekey_max_validity=2592000000'', ''relay_ticket_ttl=7200000'', ''retry_max_attempts=8'',
       ''clock_net_cap=120000'', ''settings_strict=true'', ''governor_share=0.15'', ''queue_pending=0 dead=0 seen=0'']
     else None)"
proof -
  have fp: "length (identity_fingerprint xof n) = 128" for n
    by (simp add: identity_fingerprint_def fingerprint1024_def FINGERPRINT_LEN_def assms)
  show ?thesis
    by (cases "rng 0"; cases "rng 1"; cases "rng 2")
      (simp_all add: smoke_results_def fresh_tier fresh_share share_printed smoke_calls fp numbers_printed draw_def Let_def
        MAX_FRAME_SIZE_def REPLAY_WINDOW_MS_def MAX_VALIDITY_MS_def MAX_TICKET_TTL_MS_def rp_default_def
        NETWORK_ADOPTION_CAP_MS_def settings_default_def show_bool_def)
qed

end
