(* ===== verification/Delivery.thy ===== *)
theory Delivery
  imports Queue_Db Mailbox
begin

text \<open>
  The two loops that join the components on the way of a message, as \<^verbatim>\<open>crates/core/examples/e2e_demo.rs\<close>
  writes them: the sender's tick over the outbox (\<^verbatim>\<open>due\<close>, then \<^verbatim>\<open>fail_and_reschedule\<close> for every message the
  channel could not deliver), and the receiver of a stream (\<^verbatim>\<open>unframe\<close>, \<^verbatim>\<open>from_cbor\<close>, \<^verbatim>\<open>verify\<close>, then \<^verbatim>\<open>record_seen\<close>).
  A failed \<^verbatim>\<open>unwrap\<close> is a panic. In the sender's tick the database calls are those that succeed; the receiver
  runs with any outcome of its calls.
\<close>

section \<open>The sender's tick\<close>

abbreviation no_faults :: faults where "no_faults \<equiv> \<lambda>_. None"

text \<open>\<open>rnd i\<close> are the random bytes drawn for message \<open>i\<close>.\<close>

fun fail_each :: "(msg_id \<Rightarrow> bytes) \<Rightarrow> retry_policy \<Rightarrow> u64 \<Rightarrow> pending_row list \<Rightarrow> db \<Rightarrow> (bool list \<times> db) option" where
  "fail_each rnd p now [] d = Some ([], d)"
| "fail_each rnd p now (m # ms) d = do {
     (r, d1) \<leftarrow> fail_and_reschedule no_faults (Inr (rnd (pr_msg_id m))) d (pr_msg_id m) p now;
     dead \<leftarrow> unwrap r;
     (deads, d2) \<leftarrow> fail_each rnd p now ms d1;
     Some (dead # deads, d2)
   }"

definition failed_tick :: "(col_error \<Rightarrow> string) \<Rightarrow> (out_row list \<Rightarrow> out_row list) \<Rightarrow> (msg_id \<Rightarrow> bytes) \<Rightarrow> retry_policy
    \<Rightarrow> u64 \<Rightarrow> u32 \<Rightarrow> db \<Rightarrow> (pending_row list \<times> bool list \<times> db) option" where
  "failed_tick shw ord rnd p now limit d = do {
     ms \<leftarrow> unwrap (due shw ord no_faults d now limit);
     (deads, d') \<leftarrow> fail_each rnd p now ms d;
     Some (ms, deads, d')
   }"

section \<open>The receiver\<close>

datatype verdict =
    Frame_error core_error
  | Half_frame
  | Cbor_error core_error
  | Mac_refused msg_id core_error
  | Bucketed msg_id
  | Duplicate msg_id

text \<open>\<open>now1\<close> and \<open>now2\<close> are the two readings of the system clock.\<close>

definition bob_verdict :: "(bytes \<Rightarrow> string + bucket_write) \<Rightarrow> (bytes \<Rightarrow> bytes \<Rightarrow> bytes) \<Rightarrow> bytes \<Rightarrow> faults
    \<Rightarrow> bytes \<Rightarrow> u64 \<Rightarrow> u64 \<Rightarrow> db \<Rightarrow> (verdict \<times> db) option" where
  "bob_verdict de keyed secret f raw now1 now2 d =
     (case unframe raw of
        Inl e \<Rightarrow> Some (Frame_error e, d)
      | Inr None \<Rightarrow> Some (Half_frame, d)
      | Inr (Some (payload, _)) \<Rightarrow>
          (case bw_from_cbor de payload of
             Inl e \<Rightarrow> Some (Cbor_error e, d)
           | Inr bw \<Rightarrow>
               (case bw_verify keyed bw secret now1 of
                  Inl e \<Rightarrow> Some (Mac_refused (env_msg_id (bw_envelope bw)) e, d)
                | Inr _ \<Rightarrow>
                    let (r, d') = record_seen f d (env_msg_id (bw_envelope bw)) now2 in do {
                      first \<leftarrow> unwrap r;
                      Some (if first then Bucketed (env_msg_id (bw_envelope bw))
                            else Duplicate (env_msg_id (bw_envelope bw)), d')
                    })))"

text \<open>
  A stream with the outcomes of the calls on it: what the channel gives (an error when it breaks off), the two
  readings of the clock, the failures of the database, and the results of \<^verbatim>\<open>write_all\<close> and \<^verbatim>\<open>finish\<close> for the answer.
\<close>

record stream_in =
  si_data :: "string + bytes"
  si_now1 :: u64
  si_now2 :: u64
  si_faults :: faults
  si_write :: "string + unit"
  si_finish :: "string + unit"

text \<open>\<^verbatim>\<open>recv.read_to_end(64 * 1024)\<close> refuses longer streams.\<close>

definition READ_LIMIT :: nat where "READ_LIMIT = 64 * 1024"

definition read_to_end :: "nat \<Rightarrow> string + bytes \<Rightarrow> string + bytes" where
  "read_to_end limit data = (case data of Inl e \<Rightarrow> Inl e | Inr raw \<Rightarrow> if length raw > limit then Inl ''stream too long'' else Inr raw)"

text \<open>
  One turn of the loop: the verdict that is printed, if the turn comes that far, the database, and whether
  the turn ends without a panic. A panic before the verdict leaves the database as it is: the call whose
  failure causes it is the only one that writes.
\<close>

definition bob_turn :: "(bytes \<Rightarrow> string + bucket_write) \<Rightarrow> (bytes \<Rightarrow> bytes \<Rightarrow> bytes) \<Rightarrow> bytes
    \<Rightarrow> stream_in \<Rightarrow> db \<Rightarrow> verdict option \<times> db \<times> bool" where
  "bob_turn de keyed secret s d =
     (case read_to_end READ_LIMIT (si_data s) of
        Inl _ \<Rightarrow> (None, d, False)
      | Inr raw \<Rightarrow>
          (case bob_verdict de keyed secret (si_faults s) raw (si_now1 s) (si_now2 s) d of
             None \<Rightarrow> (None, d, False)
           | Some (v, d') \<Rightarrow>
               (Some v, d', unwrap (si_write s) \<noteq> None \<and> unwrap (si_finish s) \<noteq> None)))"

text \<open>The verdicts in order, the database left behind, and whether the loop got through without a panic.\<close>

fun bob_loop :: "(bytes \<Rightarrow> string + bucket_write) \<Rightarrow> (bytes \<Rightarrow> bytes \<Rightarrow> bytes) \<Rightarrow> bytes
    \<Rightarrow> stream_in list \<Rightarrow> db \<Rightarrow> verdict list \<times> db \<times> bool" where
  "bob_loop de keyed secret [] d = ([], d, True)"
| "bob_loop de keyed secret (s # streams) d =
     (let (v, d1, alive) = bob_turn de keyed secret s d;
          said = (case v of None \<Rightarrow> [] | Some v \<Rightarrow> [v])
      in if alive then let (vs, d2, through) = bob_loop de keyed secret streams d1 in (said @ vs, d2, through)
         else (said, d1, False))"

text \<open>The ids put into the bucket, in order.\<close>

definition bucketed :: "verdict list \<Rightarrow> msg_id list" where
  "bucketed vs = concat (map (\<lambda>v. case v of Bucketed i \<Rightarrow> [i] | _ \<Rightarrow> []) vs)"

text \<open>The stream starts with a frame that holds a write of this id, authentic and in its window.\<close>

definition authentic :: "(bytes \<Rightarrow> string + bucket_write) \<Rightarrow> (bytes \<Rightarrow> bytes \<Rightarrow> bytes) \<Rightarrow> bytes \<Rightarrow> bytes \<Rightarrow> u64 \<Rightarrow> msg_id \<Rightarrow> bool" where
  "authentic de keyed secret raw now i \<longleftrightarrow> (\<exists>payload f rest bw. frame payload = Some f \<and> raw = f @ rest
     \<and> length payload \<le> MAX_FRAME_SIZE \<and> de payload = Inr bw \<and> bw_verify keyed bw secret now = Inr () \<and> env_msg_id (bw_envelope bw) = i)"

text \<open>
  The calls on the stream go well: it comes within the limit, the database call succeeds if the stream holds an
  authentic write (only then it is made), and the answer goes out.
\<close>

definition goes_well :: "(bytes \<Rightarrow> string + bucket_write) \<Rightarrow> (bytes \<Rightarrow> bytes \<Rightarrow> bytes) \<Rightarrow> bytes \<Rightarrow> stream_in \<Rightarrow> bool" where
  "goes_well de keyed secret s \<longleftrightarrow>
     (case si_data s of Inl _ \<Rightarrow> False
      | Inr raw \<Rightarrow> length raw \<le> READ_LIMIT
          \<and> (si_faults s 0 = None \<or> (\<forall>i. \<not> authentic de keyed secret raw (si_now1 s) i)))
     \<and> si_write s = Inr () \<and> si_finish s = Inr ()"

section \<open>Specification vocabulary\<close>

abbreviation row_of :: "db \<Rightarrow> msg_id \<Rightarrow> out_row option" where
  "row_of d i \<equiv> find (\<lambda>r. ob_msg_id r = i) (db_outbox d)"

text \<open>The state of a message after its failure: dead at the limit, else waiting at least the base delay.\<close>

definition put_off :: "retry_policy \<Rightarrow> u64 \<Rightarrow> out_row \<Rightarrow> out_row \<Rightarrow> bool" where
  "put_off p now r r' \<longleftrightarrow> ob_attempts r' = ob_attempts r + 1
     \<and> (if int (unat (rp_max_attempts p)) \<le> ob_attempts r + 1 then ob_state r' = ''dead''
        else ob_state r' = ob_state r
          \<and> min (int (unat now + unat (rp_base_delay_ms p))) i64_max \<le> ob_next_attempt_ms r'
          \<and> ob_next_attempt_ms r' \<le> int (unat now + unat (delay_cap p (word_of_int (ob_attempts r + 1)))))"

text \<open>A stream on which every call goes well.\<close>

definition demo_stream :: "bytes \<Rightarrow> u64 \<Rightarrow> stream_in" where
  "demo_stream raw now = \<lparr>si_data = Inr raw, si_now1 = now, si_now2 = now, si_faults = no_faults, si_write = Inr (), si_finish = Inr ()\<rparr>"

section \<open>What the receiver guarantees\<close>

text \<open>What a stream holds decides the verdict, and the database call that may fail is made for an authentic write only.\<close>

lemma unframed_authentic:
  assumes "unframe raw = Inr (Some (p, n))" and "de p = Inr bw"
  shows "authentic de keyed secret raw now i \<longleftrightarrow> bw_verify keyed bw secret now = Inr () \<and> env_msg_id (bw_envelope bw) = i"
proof
  assume "authentic de keyed secret raw now i"
  then obtain p' f rest bw' where p': "frame p' = Some f" "raw = f @ rest" "length p' \<le> MAX_FRAME_SIZE" "de p' = Inr bw'"
    "bw_verify keyed bw' secret now = Inr ()" "env_msg_id (bw_envelope bw') = i"
    unfolding authentic_def by blast
  then have "unframe raw = Inr (Some (p', length f))" unfolding unframe_exact by blast
  then have "p' = p" using assms(1) by simp
  then show "bw_verify keyed bw secret now = Inr () \<and> env_msg_id (bw_envelope bw) = i" using p'(4-6) assms(2) by simp
next
  assume "bw_verify keyed bw secret now = Inr () \<and> env_msg_id (bw_envelope bw) = i"
  then show "authentic de keyed secret raw now i" using assms unfolding unframe_exact authentic_def by blast
qed

lemma not_authentic:
  assumes "\<nexists>p n bw. unframe raw = Inr (Some (p, n)) \<and> de p = Inr bw"
  shows "\<not> authentic de keyed secret raw now i"
proof
  assume "authentic de keyed secret raw now i"
  then obtain p f rest bw where "frame p = Some f \<and> raw = f @ rest \<and> length f = length f \<and> length p \<le> MAX_FRAME_SIZE" "de p = Inr bw"
    unfolding authentic_def by blast
  then have "unframe raw = Inr (Some (p, length f))" unfolding unframe_exact by blast
  then show False using assms \<open>de p = Inr bw\<close> by blast
qed

lemma bob_verdict_spec:
  "case bob_verdict de keyed secret f raw now1 now2 d of
     None \<Rightarrow> f 0 \<noteq> None \<and> (\<exists>i. authentic de keyed secret raw now1 i)
   | Some (v, d') \<Rightarrow> (f 0 = None \<or> (\<forall>i. \<not> authentic de keyed secret raw now1 i))
       \<and> (\<forall>i. v \<in> {Bucketed i, Duplicate i} \<longleftrightarrow> authentic de keyed secret raw now1 i)
       \<and> (case v of
            Bucketed i \<Rightarrow> \<not> hm_contains (db_inbox_seen d) i
              \<and> d' = d\<lparr>db_inbox_seen := hm_insert i (clamp_ms now2) (db_inbox_seen d)\<rparr>
          | Duplicate i \<Rightarrow> hm_contains (db_inbox_seen d) i \<and> d' = d
          | _ \<Rightarrow> d' = d)"
proof (cases "\<exists>p n bw. unframe raw = Inr (Some (p, n)) \<and> de p = Inr bw")
  case True
  then obtain p n bw where u: "unframe raw = Inr (Some (p, n))" "de p = Inr bw" by blast
  show ?thesis
    unfolding bob_verdict_def unframed_authentic [of raw p n de bw, OF u] u(1)
    by (auto simp: bw_from_cbor_def map_err_def u(2) record_seen_def Let_def split: sum.split option.split)
next
  case False
  then show ?thesis
    using not_authentic [OF False]
    by (auto simp: bob_verdict_def bw_from_cbor_def map_err_def split: sum.split option.split)
qed

lemma bob_turn_spec:
  assumes "bob_turn de keyed secret s d = (v, d', alive)"
  shows "alive = goes_well de keyed secret s" and "alive \<Longrightarrow> v \<noteq> None"
    and "v = Some x \<Longrightarrow> \<exists>raw. si_data s = Inr raw
       \<and> (\<forall>i. x \<in> {Bucketed i, Duplicate i} \<longleftrightarrow> authentic de keyed secret raw (si_now1 s) i)"
    and "hm_contains (db_inbox_seen d') i \<longleftrightarrow> hm_contains (db_inbox_seen d) i \<or> v = Some (Bucketed i)"
    and "v = Some (Bucketed i) \<Longrightarrow> \<not> hm_contains (db_inbox_seen d) i"
proof -
  have some: "unwrap r = Some () \<longleftrightarrow> r = Inr ()" for r :: "string + unit" by (cases r) simp_all
  have "alive = goes_well de keyed secret s \<and> (alive \<longrightarrow> v \<noteq> None)
     \<and> (\<forall>x. v = Some x \<longrightarrow> (\<exists>raw. si_data s = Inr raw
          \<and> (\<forall>i. x \<in> {Bucketed i, Duplicate i} \<longleftrightarrow> authentic de keyed secret raw (si_now1 s) i)))
     \<and> (\<forall>i. hm_contains (db_inbox_seen d') i \<longleftrightarrow> hm_contains (db_inbox_seen d) i \<or> v = Some (Bucketed i))
     \<and> (\<forall>i. v = Some (Bucketed i) \<longrightarrow> \<not> hm_contains (db_inbox_seen d) i)"
  proof (cases "\<exists>raw. si_data s = Inr raw \<and> length raw \<le> READ_LIMIT")
    case False
    then show ?thesis using assms by (auto simp: bob_turn_def read_to_end_def goes_well_def split: sum.splits if_splits)
  next
    case True
    then obtain raw where raw: "si_data s = Inr raw" "length raw \<le> READ_LIMIT" by blast
    then have read: "read_to_end READ_LIMIT (si_data s) = Inr raw" by (simp add: read_to_end_def)
    note spec = bob_verdict_spec [where de = de and keyed = keyed and secret = secret and f = "si_faults s" and raw = raw
      and ?now1.0 = "si_now1 s" and ?now2.0 = "si_now2 s" and d = d]
    show ?thesis
    proof (cases "bob_verdict de keyed secret (si_faults s) raw (si_now1 s) (si_now2 s) d")
      case None
      then have "v = None" "d' = d" "\<not> alive" using assms by (simp_all add: bob_turn_def read)
      moreover have "\<not> goes_well de keyed secret s" using None spec raw by (auto simp: goes_well_def)
      ultimately show ?thesis by simp
    next
      case (Some r)
      obtain x d1 where r: "r = (x, d1)" by (cases r)
      have eq: "v = Some x" "d' = d1" "alive = (si_write s = Inr () \<and> si_finish s = Inr ())"
        using assms by (simp_all add: bob_turn_def read Some r some)
      have "goes_well de keyed secret s = (si_write s = Inr () \<and> si_finish s = Inr ())"
        using spec raw unfolding Some r goes_well_def by simp
      moreover have "case x of
            Bucketed i \<Rightarrow> \<not> hm_contains (db_inbox_seen d) i
              \<and> d1 = d\<lparr>db_inbox_seen := hm_insert i (clamp_ms (si_now2 s)) (db_inbox_seen d)\<rparr>
          | Duplicate i \<Rightarrow> hm_contains (db_inbox_seen d) i \<and> d1 = d
          | _ \<Rightarrow> d1 = d"
        using spec unfolding Some r by simp
      then have "\<forall>i. hm_contains (db_inbox_seen d1) i \<longleftrightarrow> hm_contains (db_inbox_seen d) i \<or> x = Bucketed i"
        "\<forall>i. x = Bucketed i \<longrightarrow> \<not> hm_contains (db_inbox_seen d) i"
        by (cases x; auto simp: hm_contains_def hm.get_ins)+
      moreover have "\<forall>i. x \<in> {Bucketed i, Duplicate i} \<longleftrightarrow> authentic de keyed secret raw (si_now1 s) i"
        using spec unfolding Some r by simp
      ultimately show ?thesis using eq raw(1) by simp
    qed
  qed
  then show "alive = goes_well de keyed secret s" "alive \<Longrightarrow> v \<noteq> None"
    "v = Some x \<Longrightarrow> \<exists>raw. si_data s = Inr raw
       \<and> (\<forall>i. x \<in> {Bucketed i, Duplicate i} \<longleftrightarrow> authentic de keyed secret raw (si_now1 s) i)"
    "hm_contains (db_inbox_seen d') i \<longleftrightarrow> hm_contains (db_inbox_seen d) i \<or> v = Some (Bucketed i)"
    "v = Some (Bucketed i) \<Longrightarrow> \<not> hm_contains (db_inbox_seen d) i" by blast+
qed

lemma bucketed_simps: "bucketed [] = []"
  "set (bucketed (v # vs)) = {i. v = Bucketed i} \<union> set (bucketed vs)"
  "distinct (bucketed (v # vs)) \<longleftrightarrow> distinct (bucketed vs) \<and> (\<forall>i. v = Bucketed i \<longrightarrow> i \<notin> set (bucketed vs))"
  by (simp add: bucketed_def) (cases v; auto simp: bucketed_def)+



section \<open>What a failed tick leaves behind\<close>

lemma row_of_iff: "db_inv d \<Longrightarrow> row_of d i = Some r \<longleftrightarrow> r \<in> set (db_outbox d) \<and> ob_msg_id r = i"
proof -
  assume "db_inv d"
  then have dist: "distinct (map ob_msg_id (db_outbox d))" by (simp add: db_inv_def)
  have "find (\<lambda>r. ob_msg_id r = i) rows = Some r \<longleftrightarrow> r \<in> set rows \<and> ob_msg_id r = i"
    if "distinct (map ob_msg_id rows)" for rows
    using that by (induction rows) auto
  from this [OF dist] show ?thesis .
qed

lemma fail_each_spec:
  assumes "db_reach d" and "distinct (map pr_msg_id ms)"
    and "\<forall>m \<in> set ms. \<exists>r. row_of d (pr_msg_id m) = Some r \<and> ob_attempts r + 1 < 2 ^ 32"
  shows "\<exists>d'. fail_each rnd p now ms d
      = Some (map (\<lambda>m. int (unat (rp_max_attempts p)) \<le> ob_attempts (the (row_of d (pr_msg_id m))) + 1) ms, d')
    \<and> db_reach d' \<and> db_inbox_seen d' = db_inbox_seen d
    \<and> (\<forall>i. i \<notin> pr_msg_id ` set ms \<longrightarrow> row_of d' i = row_of d i)
    \<and> (\<forall>m \<in> set ms. \<exists>r'. row_of d' (pr_msg_id m) = Some r' \<and> put_off p now (the (row_of d (pr_msg_id m))) r')"
  using assms
proof (induction ms arbitrary: d)
  case Nil
  then show ?case by simp
next
  case (Cons m ms)
  let ?i = "pr_msg_id m"
  obtain r where r: "row_of d ?i = Some r" "ob_attempts r + 1 < 2 ^ 32" using Cons.prems(3) by auto
  have ok: "row_ok r" using r(1) db_reach_inv [OF Cons.prems(1)] row_of_iff by (auto simp: db_inv_def)
  define k where "k = nat (ob_attempts r)"
  have k: "ob_attempts r = int k" "Suc k < 2 ^ 32" using ok r(2) by (auto simp: row_ok_def k_def)
  obtain d1 r1 where d1: "fail_and_reschedule no_faults (Inr (rnd ?i)) d ?i p now
      = Some (Inr (unat (rp_max_attempts p) \<le> Suc k), d1)"
    and find1: "\<forall>j. row_of d1 j = (if j = ?i then Some r1 else row_of d j)"
    and r1: "ob_attempts r1 = int (Suc k)" "if unat (rp_max_attempts p) \<le> Suc k then ob_state r1 = ''dead''
       else ob_state r1 = ob_state r
         \<and> min (int (unat now + unat (rp_base_delay_ms p))) i64_max \<le> ob_next_attempt_ms r1
         \<and> ob_next_attempt_ms r1 \<le> int (unat now + unat (delay_cap p (word_of_nat (Suc k))))"
    using fail_step [OF r(1) k, of "rnd ?i" p now] by blast
  have lim: "int (unat (rp_max_attempts p)) \<le> ob_attempts r + 1 \<longleftrightarrow> unat (rp_max_attempts p) \<le> Suc k"
    unfolding k(1) by linarith
  have att: "(word_of_int (ob_attempts r + 1) :: u32) = word_of_nat (Suc k)" by (simp add: k(1) add.commute)
  have off: "put_off p now r r1"
    using r1 unfolding put_off_def lim att by (simp add: k(1) del: of_nat_unat split: if_splits)
  have seen1: "db_inbox_seen d1 = db_inbox_seen d" using d1 by (rule fail_cases) auto
  have "db_step d (db_apply no_faults (Fail ?i p now (Inr (rnd ?i))) d)" by (rule db_step.step) simp
  then have reach1: "db_reach d1" using Cons.prems(1) d1 by (auto intro: db_reach.next_db)
  have other: "row_of d1 (pr_msg_id x) = row_of d (pr_msg_id x)" if "x \<in> set ms" for x
    using find1 Cons.prems(2) that by (metis distinct.simps(2) image_eqI list.simps(9) set_map)
  have dist: "distinct (map pr_msg_id ms)" using Cons.prems(2) by simp
  have rest: "\<forall>x \<in> set ms. \<exists>r. row_of d1 (pr_msg_id x) = Some r \<and> ob_attempts r + 1 < 2 ^ 32"
    using Cons.prems(3) other by simp
  obtain d' where d': "fail_each rnd p now ms d1
      = Some (map (\<lambda>m. int (unat (rp_max_attempts p)) \<le> ob_attempts (the (row_of d1 (pr_msg_id m))) + 1) ms, d')"
    "db_reach d'" "db_inbox_seen d' = db_inbox_seen d1" "\<forall>i. i \<notin> pr_msg_id ` set ms \<longrightarrow> row_of d' i = row_of d1 i"
    "\<forall>m \<in> set ms. \<exists>r'. row_of d' (pr_msg_id m) = Some r' \<and> put_off p now (the (row_of d1 (pr_msg_id m))) r'"
    using Cons.IH [OF reach1 dist rest] by blast
  have "?i \<notin> pr_msg_id ` set ms" using Cons.prems(2) by simp
  then have ri: "row_of d' ?i = Some r1" using d'(4) find1 by simp
  have same: "map (\<lambda>m. int (unat (rp_max_attempts p)) \<le> ob_attempts (the (row_of d1 (pr_msg_id m))) + 1) ms
      = map (\<lambda>m. int (unat (rp_max_attempts p)) \<le> ob_attempts (the (row_of d (pr_msg_id m))) + 1) ms"
    using other by (intro map_cong) simp_all
  show ?case
  proof (intro exI conjI)
    show "fail_each rnd p now (m # ms) d
        = Some (map (\<lambda>m. int (unat (rp_max_attempts p)) \<le> ob_attempts (the (row_of d (pr_msg_id m))) + 1) (m # ms), d')"
      unfolding fail_each.simps d1 list.map(2) r(1) option.sel lim
      by (simp only: bind.bind_lunit prod.case unwrap.simps d'(1) same)
    show "db_reach d'" "db_inbox_seen d' = db_inbox_seen d" using d'(2,3) seen1 by simp_all
    show "\<forall>i. i \<notin> pr_msg_id ` set (m # ms) \<longrightarrow> row_of d' i = row_of d i"
      using d'(4) find1 by simp
    show "\<forall>x \<in> set (m # ms). \<exists>r'. row_of d' (pr_msg_id x) = Some r' \<and> put_off p now (the (row_of d (pr_msg_id x))) r'"
      using d'(5) other ri off r(1) by simp
  qed
qed

lemma due_rows:
  assumes "db_reach d" and "order_by_ok ob_created_ms ord" and "unat now < 2 ^ 63"
  defines "P \<equiv> \<lambda>r. ob_state r = ''pending'' \<and> ob_next_attempt_ms r \<le> uint now"
  shows "due shw ord no_faults d now limit = Inr (map to_pending (take (unat limit) (ord (filter P (db_outbox d)))))"
proof -
  have "uint now < 2 ^ 63" using assms(3) by (metis of_nat_less_iff of_nat_numeral of_nat_power uint_nat)
  then have now: "u64_as_i64 now = uint now" by (simp add: u64_as_i64_def)
  have "set (ord rows) = set rows" for rows using order_by_set assms(2) by blast
  then show ?thesis
    using select_rows_ok [OF db_reach_inv [OF assms(1)], of ord shw P limit] by (simp add: due_def now P_def)
qed

lemma due_distinct:
  assumes "db_reach d" and "order_by_ok ob_created_ms ord"
  shows "distinct (map pr_msg_id (map to_pending (take n (ord (filter P (db_outbox d))))))"
proof -
  have "mset (map ob_msg_id (ord (filter P (db_outbox d)))) = mset (map ob_msg_id (filter P (db_outbox d)))"
    using assms(2) by (simp add: order_by_ok_def)
  moreover have "distinct (map ob_msg_id (filter P (db_outbox d)))"
    using db_reach_inv [OF assms(1)] by (simp add: db_inv_def distinct_map_filter)
  ultimately have "distinct (map ob_msg_id (ord (filter P (db_outbox d))))" by (metis mset_eq_imp_distinct_iff)
  then have "distinct (take n (map ob_msg_id (ord (filter P (db_outbox d)))))" by (rule distinct_take)
  then show ?thesis by (simp add: take_map comp_def to_pending_def)
qed

lemma count_rows:
  assumes "db_inv d"
  shows "length (filter P (db_outbox d)) = card {i. \<exists>r. row_of d i = Some r \<and> P r}"
proof -
  have "distinct (map ob_msg_id (filter P (db_outbox d)))" using assms by (simp add: db_inv_def distinct_map_filter)
  then have "length (filter P (db_outbox d)) = card (ob_msg_id ` set (filter P (db_outbox d)))"
    by (metis distinct_card length_map list.set_map)
  also have "ob_msg_id ` set (filter P (db_outbox d)) = {i. \<exists>r. row_of d i = Some r \<and> P r}"
    unfolding row_of_iff [OF assms] by auto
  finally show ?thesis .
qed

lemma due_ids:
  assumes "db_reach d" and "order_by_ok ob_created_ms ord" and "unat now < 2 ^ 63" and "length (db_outbox d) \<le> unat limit"
  shows "\<exists>ms. due shw ord no_faults d now limit = Inr ms \<and> distinct (map pr_msg_id ms)
    \<and> pr_msg_id ` set ms = {i. \<exists>r. row_of d i = Some r \<and> ob_state r = ''pending'' \<and> ob_next_attempt_ms r \<le> uint now}"
proof -
  let ?P = "\<lambda>r. ob_state r = ''pending'' \<and> ob_next_attempt_ms r \<le> uint now"
  have sets: "set (ord rows) = set rows" "length (ord rows) = length rows" for rows
    using order_by_set order_by_length assms(2) by blast+
  have all: "take (unat limit) (ord (filter ?P (db_outbox d))) = ord (filter ?P (db_outbox d))"
    using assms(4) sets(2) [of "filter ?P (db_outbox d)"] by (simp add: le_trans [OF length_filter_le])
  have "pr_msg_id ` set (map to_pending (ord (filter ?P (db_outbox d)))) = {i. \<exists>r. row_of d i = Some r \<and> ?P r}"
    unfolding row_of_iff [OF db_reach_inv [OF assms(1)]] by (auto simp: sets image_image to_pending_def)
  then show ?thesis
    using due_rows [OF assms(1-3), of shw limit] due_distinct [OF assms(1,2), of "unat limit" ?P] unfolding all by auto
qed

text \<open>
  After a tick in which the channel failed nothing is due: on every reachable outbox, if no message has
  reached the end of its 32-bit counter, the tick fails every message that is due and returns; then
  nothing is due at that time, and a message that just failed is not due before the base delay has passed.
\<close>

theorem failed_tick_leaves_nothing_due:
  assumes "db_reach d" and "order_by_ok ob_created_ms ord" and "unat now + unat (rp_base_delay_ms p) < 2 ^ 63"
    and "0 < unat (rp_base_delay_ms p)" and "length (db_outbox d) \<le> unat limit"
    and "\<forall>r \<in> set (db_outbox d). ob_attempts r + 1 < 2 ^ 32"
  shows "\<exists>ms deads d'. failed_tick shw ord rnd p now limit d = Some (ms, deads, d') \<and> db_reach d'
    \<and> due shw ord no_faults d' now limit = Inr []
    \<and> (\<forall>m \<in> set ms. \<forall>r. \<forall>t :: u64. r \<in> set (db_outbox d') \<and> ob_msg_id r = pr_msg_id m
         \<and> unat t < unat now + unat (rp_base_delay_ms p) \<longrightarrow> \<not> (ob_state r = ''pending'' \<and> ob_next_attempt_ms r \<le> uint t))"
proof -
  let ?P = "\<lambda>r. ob_state r = ''pending'' \<and> ob_next_attempt_ms r \<le> uint now"
  have now: "unat now < 2 ^ 63" using assms(3) by simp
  note inv = db_reach_inv [OF assms(1)]
  obtain ms where ms: "due shw ord no_faults d now limit = Inr ms" "distinct (map pr_msg_id ms)"
    "pr_msg_id ` set ms = {i. \<exists>r. row_of d i = Some r \<and> ?P r}"
    using due_ids [OF assms(1,2) now assms(5)] by blast
  have rows: "\<forall>m \<in> set ms. \<exists>r. row_of d (pr_msg_id m) = Some r \<and> ob_attempts r + 1 < 2 ^ 32"
    using ms(3) assms(6) row_of_iff [OF inv] by blast
  obtain d' deads where d': "fail_each rnd p now ms d = Some (deads, d')" "db_reach d'"
    "\<forall>i. i \<notin> pr_msg_id ` set ms \<longrightarrow> row_of d' i = row_of d i"
    "\<forall>m \<in> set ms. \<exists>r'. row_of d' (pr_msg_id m) = Some r' \<and> put_off p now (the (row_of d (pr_msg_id m))) r'"
    using fail_each_spec [OF assms(1) ms(2) rows, of rnd p now] by blast
  note inv' = db_reach_inv [OF d'(2)]
  have late: "\<not> (ob_state r = ''pending'' \<and> ob_next_attempt_ms r \<le> uint t)"
    if m: "m \<in> set ms" and r: "r \<in> set (db_outbox d')" "ob_msg_id r = pr_msg_id m"
      and t: "unat t < unat now + unat (rp_base_delay_ms p)" for m r and t :: u64
  proof -
    have "row_of d' (pr_msg_id m) = Some r" using row_of_iff [OF inv'] r by blast
    then have "ob_state r = ''dead'' \<or> min (int (unat now + unat (rp_base_delay_ms p))) i64_max \<le> ob_next_attempt_ms r"
      using d'(4) m by (auto simp: put_off_def split: if_splits)
    moreover have "uint t < min (int (unat now + unat (rp_base_delay_ms p))) i64_max"
      using t assms(3) unfolding uint_nat by (simp add: i64_max_def del: of_nat_unat)
    ultimately show ?thesis by auto
  qed
  have "filter ?P (db_outbox d') = []"
  proof (rule ccontr)
    assume "filter ?P (db_outbox d') \<noteq> []"
    then obtain r where r: "r \<in> set (db_outbox d')" "?P r" by (auto simp: filter_empty_conv)
    then have "ob_msg_id r \<notin> pr_msg_id ` set ms" using late assms(4) by force
    then have "row_of d (ob_msg_id r) = Some r" using d'(3) row_of_iff [OF inv'] r(1) by metis
    then show False using r(2) ms(3) \<open>ob_msg_id r \<notin> pr_msg_id ` set ms\<close> by blast
  qed
  then have "ord (filter ?P (db_outbox d')) = []" using order_by_length [OF assms(2), of "[]"] by simp
  then have "due shw ord no_faults d' now limit = Inr []" using due_rows [OF d'(2) assms(2) now] by simp
  moreover have "failed_tick shw ord rnd p now limit d = Some (ms, deads, d')"
    using ms(1) d'(1) by (simp add: failed_tick_def)
  ultimately show ?thesis using d'(2) late by blast
qed

theorem failed_tick_leaves_nothing_due_witness:
  "\<exists>ms deads d'. failed_tick (\<lambda>_. []) (sort_key ob_created_ms) (\<lambda>_. [3]) rp_default 500 10
      (db_apply no_faults (Enqueue (demo_message 5)) db_empty) = Some (ms, deads, d')
    \<and> due (\<lambda>_. []) (sort_key ob_created_ms) no_faults d' 500 10 = Inr []"
  using failed_tick_leaves_nothing_due [OF demo_reach order_sort, of 500 rp_default 5 10 "\<lambda>_. []" "\<lambda>_. [3]"]
    demo_outbox [of 5]
  by (auto simp: rp_default_def env_row_def simp del: db_apply.simps)

end
