(* ===== verification/E2e_Demo.thy ===== *)
theory E2e_Demo
  imports Delivery Nodekey Adaptive Entropy_Pool Settings
begin

text \<open>
  \<^verbatim>\<open>crates/core/examples/e2e_demo.rs\<close>: the program that runs the components together, act by act. Every
  \<^verbatim>\<open>unwrap\<close>, \<^verbatim>\<open>expect\<close> and \<^verbatim>\<open>assert\<close> that fails is \<open>None\<close>. The lines it prints are left out, except for the values
  they show. Parameters: random bytes, the readings of the system clock, the hash functions, signatures
  and the CBOR coder. The transport gives the receiver the bytes of each stream, as it promises, and the
  database files can be written.
\<close>

section \<open>Acts one and two: identities and the mailbox key\<close>

definition act_identities :: "(nat \<Rightarrow> string + bytes) \<Rightarrow> (identity \<times> identity) option" where
  "act_identities rng = do { alice \<leftarrow> unwrap (generate (rng 0)); bob \<leftarrow> unwrap (generate (rng 1)); Some (alice, bob) }"

definition safety_codes :: "(bytes \<Rightarrow> nat \<Rightarrow> bytes) \<Rightarrow> node_id \<Rightarrow> node_id \<Rightarrow> string \<times> string" where
  "safety_codes xof alice bob =
     (let fp_a = identity_fingerprint xof alice; fp_b = identity_fingerprint xof bob
      in (safety_groups fp_a 2, safety_groups fp_b 2))"

definition act_mailbox_key :: "(bytes \<Rightarrow> nat \<Rightarrow> bytes) \<Rightarrow> (string \<Rightarrow> bytes \<Rightarrow> bytes) \<Rightarrow> (nat \<Rightarrow> string + bytes)
    \<Rightarrow> (bytes \<times> bytes) option" where
  "act_mailbox_key xof derive rng = do {
     h \<leftarrow> unwrap (harvester_new (rng 2));
     let h = mix h (ascii ''sensor-noise-simulation-0.013,0.998,gyro-jitter'');
     let (r1, h) = token512 xof (rng 3) h;
     handshake_secret \<leftarrow> unwrap r1;
     let (r2, h) = token512 xof (rng 4) h;
     token \<leftarrow> unwrap r2;
     let bucket = take 32 token;
     Some (bucket, derive_mailbox_secret derive handshake_secret bucket 1)
   }"

section \<open>Act three: queue, retries, dead letters\<close>

definition e2e_policy :: retry_policy where
  "e2e_policy = \<lparr>rp_max_attempts = 3, rp_base_delay_ms = 50, rp_max_delay_ms = 200\<rparr>"

definition e2e_env :: "node_id \<Rightarrow> node_id \<Rightarrow> u64 \<Rightarrow> u8 \<Rightarrow> envelope" where
  "e2e_env alice bob t i = \<lparr>env_msg_id = replicate 16 i, env_sender = alice, env_recipient = Some bob, env_group = None,
     env_kind = Text, env_body = ascii (''hello-'' @ show_nat (unat i)), env_sent_at_ms = t, env_ttl_hops = 6\<rparr>"

definition e2e_envs :: "node_id \<Rightarrow> node_id \<Rightarrow> u64 \<Rightarrow> envelope list" where
  "e2e_envs alice bob t = map (e2e_env alice bob t) [0, 1, 2, 3, 4]"

fun enqueue_all :: "envelope list \<Rightarrow> db \<Rightarrow> db option" where
  "enqueue_all [] d = Some d"
| "enqueue_all (e # es) d = (let (r, d') = enqueue no_faults d e in do { _ \<leftarrow> unwrap r; enqueue_all es d' })"

text \<open>One turn of the loop that drives the fourth message to its limit.\<close>

definition exhaust_round :: "(col_error \<Rightarrow> string) \<Rightarrow> (out_row list \<Rightarrow> out_row list) \<Rightarrow> (msg_id \<Rightarrow> bytes) \<Rightarrow> u64 \<Rightarrow> db
    \<Rightarrow> (bool list \<times> db) option" where
  "exhaust_round shw ord rnd now d = do {
     ms \<leftarrow> unwrap (due shw ord no_faults d now 10);
     fail_each rnd e2e_policy now (filter (\<lambda>m. pr_msg_id m = replicate 16 3) ms) d
   }"

definition act_queue :: "(col_error \<Rightarrow> string) \<Rightarrow> (out_row list \<Rightarrow> out_row list) \<Rightarrow> (nat \<Rightarrow> msg_id \<Rightarrow> bytes) \<Rightarrow> u64
    \<Rightarrow> envelope list \<Rightarrow> (nat \<times> nat \<times> bool list \<times> (u32 \<times> u32 \<times> u32) \<times> (u32 \<times> u32 \<times> u32)) option" where
  "act_queue shw ord rnd t envs = do {
     d \<leftarrow> enqueue_all envs db_empty;
     (due1, deads1, d) \<leftarrow> failed_tick shw ord (rnd 0) e2e_policy t 10 d;
     if True \<in> set deads1 then None
     else do {
       again \<leftarrow> unwrap (due shw ord no_faults d t 10);
       if again \<noteq> [] then None
       else do {
         t300 \<leftarrow> chk_add t 300;
         (due2, _, d) \<leftarrow> failed_tick shw ord (rnd 1) e2e_policy t300 10 d;
         t900 \<leftarrow> chk_add t 900;
         (deads2, d) \<leftarrow> exhaust_round shw ord (rnd 2) t900 d;
         (deads3, d) \<leftarrow> exhaust_round shw ord (rnd 3) t900 d;
         before \<leftarrow> unwrap (stats no_faults d);
         let (r, d) = revive no_faults d (replicate 16 3);
         _ \<leftarrow> unwrap r;
         after \<leftarrow> unwrap (stats no_faults d);
         Some (length due1, length due2, deads2 @ deads3, before, after)
       }
     }
   }"

section \<open>Act four: transfer with a duplicate and an altered message\<close>

definition alice_write :: "(bytes \<Rightarrow> bytes \<Rightarrow> bytes) \<Rightarrow> bytes \<Rightarrow> envelope list \<Rightarrow> nat \<Rightarrow> envelope \<Rightarrow> u64 \<Rightarrow> bucket_write" where
  "alice_write keyed secret envs idx env now =
     (let payload = (if idx = 1 then env\<lparr>env_msg_id := env_msg_id (envs ! 0)\<rparr> else env);
          bw = seal keyed payload secret 1 now (replicate 16 (word_of_nat idx))
      in if idx = 2 then bw\<lparr>bw_envelope := (bw_envelope bw)\<lparr>env_body := env_body (bw_envelope bw) @ [0xFF]\<rparr>\<rparr> else bw)"

text \<open>\<open>clk idx\<close> are the readings when the message is sealed, verified and recorded.\<close>

fun act_transfer :: "(bucket_write \<Rightarrow> string + bytes) \<Rightarrow> (bytes \<Rightarrow> string + bucket_write) \<Rightarrow> (bytes \<Rightarrow> bytes \<Rightarrow> bytes) \<Rightarrow> bytes
    \<Rightarrow> (nat \<Rightarrow> u64 \<times> u64 \<times> u64) \<Rightarrow> envelope list \<Rightarrow> (nat \<times> envelope) list \<Rightarrow> db
    \<Rightarrow> (verdict list \<times> (nat \<times> bytes) list \<times> db) option" where
  "act_transfer ser de keyed secret clk envs [] d = Some ([], [], d)"
| "act_transfer ser de keyed secret clk envs ((idx, env) # rest) d =
     (case clk idx of (sealed_at, now1, now2) \<Rightarrow> do {
       cbor \<leftarrow> unwrap (bw_to_cbor ser (alice_write keyed secret envs idx env sealed_at));
       raw \<leftarrow> frame cbor;
       if length raw > READ_LIMIT then None
       else do {
         (v, d1) \<leftarrow> bob_verdict de keyed secret no_faults raw now1 now2 d;
         (vs, acks, d2) \<leftarrow> act_transfer ser de keyed secret clk envs rest d1;
         Some (v # vs, (idx, ascii ''ack'') # acks, d2)
       }
     })"

section \<open>Act five: rotation of the node key\<close>

definition WEEK_MS :: u64 where "WEEK_MS = 7 * 86400000"

definition upsert_ok :: "ed25519 \<Rightarrow> key_ring \<Rightarrow> announcement \<Rightarrow> u64 \<Rightarrow> key_ring option" where
  "upsert_ok ed ring ann now = (let (r, ring') = upsert ed ring ann now in do { _ \<leftarrow> unwrap r; Some ring' })"

definition act_rotation :: "ed25519 \<Rightarrow> identity \<Rightarrow> identity \<Rightarrow> identity \<Rightarrow> identity \<Rightarrow> u64 \<Rightarrow> (node_id \<times> node_id \<times> bool) option" where
  "act_rotation ed alice bob node_v1 node_v2 t = do {
     let nid = node_id_of ed;
     t10 \<leftarrow> chk_add t 10;
     t20 \<leftarrow> chk_add t 20;
     t30 \<leftarrow> chk_add t 30;
     ann1 \<leftarrow> unwrap (nk_sign ed alice (nk_new (nid alice) (nid node_v1) 1 t WEEK_MS));
     ann2 \<leftarrow> unwrap (nk_sign ed alice (nk_new (nid alice) (nid node_v2) 2 t10 WEEK_MS));
     ring \<leftarrow> upsert_ok ed nr_new ann1 t;
     key1 \<leftarrow> current ring (nid alice) t;
     ring \<leftarrow> upsert_ok ed ring ann2 t20;
     key2 \<leftarrow> current ring (nid alice) t20;
     let old_ok = accepts ring (nid alice) (nid node_v1) t20;
     if isl (nk_sign ed bob (nk_new (nid alice) (nid node_v2) 3 t30 WEEK_MS)) then Some (key1, key2, old_ok) else None
   }"

section \<open>Act six: load tiers\<close>

definition tier_script :: "metrics list" where
  "tier_script = map (\<lambda>(g, r). \<lparr>mt_group_size = g, mt_msg_rate = Fin r\<rparr>)
     [(10, 1), (60, 1), (200, 5), (200, 1), (10, 1), (10, 1), (10, 1), (10, 1), (10, 1)]"

fun observe_trace :: "policy_engine \<Rightarrow> metrics list \<Rightarrow> (tier list \<times> policy_engine) option" where
  "observe_trace e [] = Some ([], e)"
| "observe_trace e (m # ms) = do { (t, e1) \<leftarrow> observe e m; (ts, e2) \<leftarrow> observe_trace e1 ms; Some (t # ts, e2) }"

definition act_tiers :: "tier list option" where
  "act_tiers = do {
     (trace, e) \<leftarrow> observe_trace (pe_new th_default) tier_script;
     if pe_tier e \<noteq> Light then None else Some trace
   }"

section \<open>The end: settings and elapsed time\<close>

definition act_summary :: "u64 \<Rightarrow> u64 \<Rightarrow> (bool \<times> bool \<times> bool \<times> u64) option" where
  "act_summary t0 now = do {
     let settings = settings_default;
     elapsed \<leftarrow> chk_sub now t0;
     Some (st_strict_crypto settings, pv_link_preview (st_privacy settings), ns_enabled (st_node_service settings), elapsed)
   }"

section \<open>The whole program\<close>

text \<open>\<open>t0\<close> and \<open>t1\<close> are the first two readings of the system clock, \<open>t2\<close> the last one.\<close>

definition e2e_main where
  "e2e_main xof derive ed ser de keyed shw ord rng rnd t0 t1 t2 clk = do {
     (alice, bob) \<leftarrow> act_identities rng;
     let codes = safety_codes xof (node_id_of ed alice) (node_id_of ed bob);
     (bucket, secret) \<leftarrow> act_mailbox_key xof derive rng;
     since \<leftarrow> chk_sub t1 t0;
     t \<leftarrow> chk_add since 1000;
     let envs = e2e_envs (node_id_of ed alice) (node_id_of ed bob) t;
     queue \<leftarrow> act_queue shw ord rnd t envs;
     (verdicts, acks, _) \<leftarrow> act_transfer ser de keyed secret clk envs (enumerate 0 envs) db_empty;
     node_v1 \<leftarrow> unwrap (generate (rng 5));
     node_v2 \<leftarrow> unwrap (generate (rng 6));
     rotation \<leftarrow> act_rotation ed alice bob node_v1 node_v2 t;
     tiers \<leftarrow> act_tiers;
     summary \<leftarrow> act_summary t0 t2;
     Some (codes, queue, verdicts, acks, rotation, tiers, summary)
   }"

section \<open>Specification vocabulary\<close>

definition e2e_ids :: "msg_id set" where
  "e2e_ids = (\<lambda>i. replicate 16 i) ` {0, 1, 2, 3, 4}"

text \<open>The bucket and the mailbox secret, for the random bytes \<open>seed k\<close> of the calls.\<close>

definition agreed_key :: "(bytes \<Rightarrow> nat \<Rightarrow> bytes) \<Rightarrow> (string \<Rightarrow> bytes \<Rightarrow> bytes) \<Rightarrow> (nat \<Rightarrow> bytes) \<Rightarrow> bytes \<times> bytes" where
  "agreed_key xof derive seed =
     (let sensor = ascii ''sensor-noise-simulation-0.013,0.998,gyro-jitter'';
          p0 = ascii ''dc-entropy-v1'' @ seed 2 @ be_bytes 8 (length sensor) @ sensor;
          p1 = p0 @ be_bytes 8 (length (seed 3)) @ seed 3 @ u64_be 1;
          p2 = p1 @ be_bytes 8 (length (seed 4)) @ seed 4 @ u64_be 2;
          bucket = take 32 (xof p2 64)
      in (bucket, derive_mailbox_secret derive (xof p1 64) bucket 1))"

text \<open>A database whose outbox has exactly the messages \<open>I\<close>, each row with the property \<open>Q\<close>, and nothing filed.\<close>

definition rows_at :: "db \<Rightarrow> msg_id set \<Rightarrow> (msg_id \<Rightarrow> out_row \<Rightarrow> bool) \<Rightarrow> bool" where
  "rows_at d I Q \<longleftrightarrow> db_reach d \<and> db_inbox_seen d = [] \<and> (\<forall>i. row_of d i = None \<longleftrightarrow> i \<notin> I)
     \<and> (\<forall>i r. row_of d i = Some r \<longrightarrow> Q i r)"

text \<open>Concrete libraries, to run the program with.\<close>

definition toy_ed :: ed25519 where
  "toy_ed = \<lparr>ed_pub = (\<lambda>s. take 32 (s @ replicate 32 0)), ed_sign = (\<lambda>_ _. replicate 64 0), ed_key_err = (\<lambda>_. None),
     ed_verify_err = (\<lambda>_ _ _. None)\<rparr>"

definition toy_keyed :: "bytes \<Rightarrow> bytes \<Rightarrow> bytes" where
  "toy_keyed k m = replicate 32 (word_of_nat (length m))"

definition toy_writes :: "bucket_write list" where
  "toy_writes = (let envs = e2e_envs (ed_pub toy_ed [0]) (ed_pub toy_ed [1]) 1000
     in map (\<lambda>k. alice_write toy_keyed [] envs k (envs ! k) 5) [0, 1, 2, 3, 4])"

definition toy_ser :: "bucket_write \<Rightarrow> string + bytes" where
  "toy_ser w = (case find (\<lambda>k. toy_writes ! k = w) [0, 1, 2, 3, 4] of Some k \<Rightarrow> Inr [word_of_nat k] | None \<Rightarrow> Inl [])"

definition toy_de :: "bytes \<Rightarrow> string + bucket_write" where
  "toy_de b = (case b of [k] \<Rightarrow> Inr (toy_writes ! unat k) | _ \<Rightarrow> Inl [])"

section \<open>The acts run through\<close>

lemma mailbox_key_runs:
  assumes "rng 2 = Inr (seed 2)" and "rng 3 = Inr (seed 3)" and "rng 4 = Inr (seed 4)"
  shows "act_mailbox_key xof derive rng = Some (agreed_key xof derive seed)"
  by (simp add: act_mailbox_key_def agreed_key_def harvester_new_def assms mix_def token512_def draw_Inr Let_def)

lemma tiers_run: "act_tiers = Some [Light, Medium, Medium, Medium, Medium, Medium, Medium, Medium, Light]"
  by (simp add: act_tiers_def tier_script_def pe_new_def th_default_def DEFAULT_GROUP_MEDIUM_def DEFAULT_RATE_MEDIUM_def
      DEFAULT_DEMOTE_SAMPLES_def observe_def demanded_def Let_def sat_mul_def chk_add_def pe_tier_def word_le_nat_alt)

lemma trim_short: "length slot \<le> MAX_ANNOUNCEMENTS_PER_IDENTITY \<Longrightarrow> trim_slot serial slot = slot"
  by (subst trim_slot.simps) simp

lemma rotation_runs:
  assumes "ed25519_ok ed" and "node_id_of ed bob \<noteq> node_id_of ed alice" and "unat t < 2 ^ 63"
  shows "act_rotation ed alice bob v1 v2 t = Some (node_id_of ed v1, node_id_of ed v2, True)"
proof -
  let ?i = "node_id_of ed alice"
  have add: "chk_add t k = Some (t + k)" "unat (t + k) = unat t + unat k" if "unat k \<le> 1000000000" for k
    using assms(3) that by (simp_all add: chk_add_def unat_plus_no_overflow)
  define a1 where "a1 = (nk_new ?i (node_id_of ed v1) 1 t WEEK_MS)\<lparr>nk_sig := sign ed alice
    (nk_signing_payload (nk_new ?i (node_id_of ed v1) 1 t WEEK_MS))\<rparr>"
  define a2 where "a2 = (nk_new ?i (node_id_of ed v2) 2 (t + 10) WEEK_MS)\<lparr>nk_sig := sign ed alice
    (nk_signing_payload (nk_new ?i (node_id_of ed v2) 2 (t + 10) WEEK_MS))\<rparr>"
  have sign: "nk_sign ed alice (nk_new ?i (node_id_of ed v1) 1 t WEEK_MS) = Inr a1"
    "nk_sign ed alice (nk_new ?i (node_id_of ed v2) 2 (t + 10) WEEK_MS) = Inr a2"
    by (simp_all add: nk_sign_def a1_def a2_def nk_new_def)
  have week: "unat WEEK_MS = 604800000" by (simp add: WEEK_MS_def)
  have ok: "nk_verify ed a1 = Inr ()" "nk_verify ed a2 = Inr ()"
    using signed_announcement_verifies [OF assms(1) sign(1)] signed_announcement_verifies [OF assms(1) sign(2)] assms(3)
    by (simp_all add: week add)
  have sel: "nk_identity a1 = ?i" "nk_identity a2 = ?i" "nk_serial a1 = 1" "nk_serial a2 = 2"
    "nk_node_key a1 = node_id_of ed v1" "nk_node_key a2 = node_id_of ed v2"
    "nk_not_before_ms a1 = t" "nk_not_before_ms a2 = t + 10"
    "nk_not_after_ms a1 = sat_add t WEEK_MS" "nk_not_after_ms a2 = sat_add (t + 10) WEEK_MS"
    by (simp_all add: a1_def a2_def nk_new_def)
  have order: "t < sat_add t WEEK_MS" "t + 20 < sat_add t WEEK_MS" "t + 20 < sat_add (t + 10) WEEK_MS" "t \<le> t + 20" "t + 10 \<le> t + 20"
    using assms(3) by (simp_all add: word_less_nat_alt word_le_nat_alt unat_sat_add week add)
  have u1: "upsert_ok ed nr_new a1 t = Some \<lparr>nr_entries = [(?i, [a1])]\<rparr>"
    using order by (simp add: upsert_ok_def upsert_def ok sel nr_new_def slot_of_def hm_get_def hm_insert_def Let_def
        trim_short MAX_ANNOUNCEMENTS_PER_IDENTITY_def not_le)
  have u2: "upsert_ok ed \<lparr>nr_entries = [(?i, [a1])]\<rparr> a2 (t + 20) = Some \<lparr>nr_entries = [(?i, [a1, a2])]\<rparr>"
    using order by (simp add: upsert_ok_def upsert_def ok sel slot_of_def hm_get_def hm_insert_def Let_def
        trim_short MAX_ANNOUNCEMENTS_PER_IDENTITY_def not_le)
  have "nk_sign ed bob (nk_new ?i (node_id_of ed v2) 3 (t + 30) WEEK_MS) = Inl (Crypto ''announcement signed by wrong identity'')"
    using assms(2) by (simp add: nk_sign_def nk_new_def)
  then show ?thesis
    using order by (simp add: act_rotation_def add sign u1 u2 current_def accepts_def valid_at_def hm_get_def sel Let_def)
qed

lemma framed:
  assumes "length cbor + 4 \<le> READ_LIMIT"
  shows "\<exists>raw. frame cbor = Some raw \<and> length raw \<le> READ_LIMIT \<and> unframe raw = Inr (Some (cbor, length raw))"
proof -
  obtain raw where raw: "frame cbor = Some raw" "length raw \<le> READ_LIMIT"
    using assms by (auto simp: frame_def READ_LIMIT_def)
  then have "unframe raw = Inr (Some (cbor, length raw))"
    using assms by (subst unframe_exact) (auto simp: READ_LIMIT_def MAX_FRAME_SIZE_def)
  with raw show ?thesis by blast
qed

lemma transfer_step:
  assumes "codec_ok ser de" and "clk idx = (sealed_at, now1, now2)"
    and "ser (alice_write keyed secret envs idx env sealed_at) = Inr cbor" and "length cbor + 4 \<le> READ_LIMIT"
  defines "w \<equiv> alice_write keyed secret envs idx env sealed_at"
  shows "act_transfer ser de keyed secret clk envs ((idx, env) # rest) d =
    (let i = env_msg_id (bw_envelope w);
         (v, d1) = (case bw_verify keyed w secret now1 of
             Inl e \<Rightarrow> (Mac_refused i e, d)
           | Inr _ \<Rightarrow> if hm_contains (db_inbox_seen d) i then (Duplicate i, d)
               else (Bucketed i, d\<lparr>db_inbox_seen := hm_insert i (clamp_ms now2) (db_inbox_seen d)\<rparr>))
     in do {
       (vs, acks, d2) \<leftarrow> act_transfer ser de keyed secret clk envs rest d1;
       Some (v # vs, (idx, ascii ''ack'') # acks, d2)
     })"
proof -
  obtain raw where raw: "frame cbor = Some raw" "length raw \<le> READ_LIMIT" "unframe raw = Inr (Some (cbor, length raw))"
    using framed [OF assms(4)] by blast
  have "de cbor = Inr w" using assms(1,3) by (simp add: codec_ok_def w_def)
  then show ?thesis
    using raw assms(2,3)
    by (simp add: bw_to_cbor_def bob_verdict_def bw_from_cbor_def record_seen_get Let_def w_def split: sum.split)
qed

text \<open>What verification says of the sender's five writes.\<close>

lemma write_verifies:
  assumes "keyed_ok keyed" and "idx \<noteq> 2" and "unat ts \<le> unat now + 300000" and "unat now \<le> unat ts + 300000"
  shows "bw_verify keyed (alice_write keyed secret envs idx env ts) secret now = Inr ()"
  using assms by (simp add: alice_write_def Let_def bw_verify_iff seal_fields keyed_ok_def)

lemma altered_refused:
  assumes "keyed_ok keyed" and "w = alice_write keyed secret envs 2 env ts"
    and "keyed secret (mac_input w) \<noteq> keyed secret (mac_input (seal keyed env secret 1 ts (replicate 16 2)))"
  shows "bw_verify keyed w secret now = Inl (Crypto ''mailbox mac mismatch'')"
proof -
  have mac: "bw_mac w = keyed secret (mac_input (seal keyed env secret 1 ts (replicate 16 2)))"
    by (simp add: assms(2) alice_write_def Let_def seal_fields(1) [symmetric])
  have "ct_diff (bw_mac w) (keyed secret (mac_input w)) \<noteq> 0"
    using ct_diff_zero_iff [of "bw_mac w" "keyed secret (mac_input w)"] assms(1,3) mac by (simp add: keyed_ok_def)
  then show ?thesis by (simp add: bw_verify_def compute_mac_def)
qed

lemma write_id:
  "env_msg_id (bw_envelope (alice_write keyed secret envs idx env ts)) = (if idx = 1 then env_msg_id (envs ! 0) else env_msg_id env)"
  by (simp add: alice_write_def Let_def seal_fields)

lemma transfer_runs:
  assumes "codec_ok ser de" and "keyed_ok keyed"
    and coded: "\<forall>k < 5. \<exists>cbor. ser (alice_write keyed secret envs k (envs ! k) (fst (clk k))) = Inr cbor \<and> length cbor + 4 \<le> READ_LIMIT"
    and times: "\<forall>k < 5. unat (fst (clk k)) \<le> unat (fst (snd (clk k))) + 300000
      \<and> unat (fst (snd (clk k))) \<le> unat (fst (clk k)) + 300000"
    and hash: "keyed secret (mac_input (alice_write keyed secret envs 2 (envs ! 2) (fst (clk 2))))
      \<noteq> keyed secret (mac_input (seal keyed (envs ! 2) secret 1 (fst (clk 2)) (replicate 16 2)))"
    and envs: "envs = e2e_envs a b t"
  shows "\<exists>d'. act_transfer ser de keyed secret clk envs (enumerate 0 envs) db_empty
    = Some ([Bucketed (replicate 16 0), Duplicate (replicate 16 0), Mac_refused (replicate 16 2) (Crypto ''mailbox mac mismatch''),
        Bucketed (replicate 16 3), Bucketed (replicate 16 4)], map (\<lambda>k. (k, ascii ''ack'')) [0, 1, 2, 3, 4], d')"
proof -
  have "\<exists>ca s n1 n2. clk k = (s, n1, n2) \<and> ser (alice_write keyed secret envs k (envs ! k) s) = Inr ca
      \<and> length ca + 4 \<le> READ_LIMIT \<and> unat s \<le> unat n1 + 300000 \<and> unat n1 \<le> unat s + 300000" if "k < 5" for k
    using coded times that by (metis prod.collapse)
  then obtain ca s n1 n2 where clk: "\<And>k. k < 5 \<Longrightarrow> clk k = (s k, n1 k, n2 k)"
    and ser: "\<And>k. k < 5 \<Longrightarrow> ser (alice_write keyed secret envs k (envs ! k) (s k)) = Inr (ca k)"
    and len: "\<And>k. k < 5 \<Longrightarrow> length (ca k) + 4 \<le> READ_LIMIT"
    and win: "\<And>k. k < 5 \<Longrightarrow> unat (s k) \<le> unat (n1 k) + 300000" "\<And>k. k < 5 \<Longrightarrow> unat (n1 k) \<le> unat (s k) + 300000"
    by metis
  note step = transfer_step [OF assms(1) clk ser len]
  have enum: "enumerate 0 envs = [(0, envs ! 0), (1, envs ! 1), (2, envs ! 2), (3, envs ! 3), (4, envs ! 4)]"
    by (simp add: envs e2e_envs_def)
  have ids: "env_msg_id (envs ! 0) = replicate 16 0" "env_msg_id (envs ! 2) = replicate 16 2"
    "env_msg_id (envs ! 3) = replicate 16 3" "env_msg_id (envs ! 4) = replicate 16 4"
    by (simp_all add: envs e2e_envs_def e2e_env_def)
  have refused: "bw_verify keyed (alice_write keyed secret envs 2 (envs ! 2) (s 2)) secret (n1 2)
      = Inl (Crypto ''mailbox mac mismatch'')"
    using altered_refused [OF assms(2) refl] hash clk [of 2] by simp
  show ?thesis
    unfolding enum
    by (simp add: step write_id ids write_verifies [OF assms(2)] win refused Let_def db_empty_def hm_contains_def hm_get_def
        hm_insert_def del: act_transfer.simps(2))
qed

section \<open>The queue in act three\<close>

lemma rows_at_count:
  assumes "rows_at d I Q"
  shows "length (filter P (db_outbox d)) = card {i \<in> I. \<exists>r. row_of d i = Some r \<and> P r}"
proof -
  have "{i. \<exists>r. row_of d i = Some r \<and> P r} = {i \<in> I. \<exists>r. row_of d i = Some r \<and> P r}"
    using assms by (force simp: rows_at_def)
  then show ?thesis using count_rows [of d P] assms by (simp add: rows_at_def db_reach_inv)
qed

lemma rows_at_length: "rows_at d I Q \<Longrightarrow> length (db_outbox d) = card I"
proof -
  assume at: "rows_at d I Q"
  then have "{i \<in> I. \<exists>r. row_of d i = Some r \<and> True} = I" by (force simp: rows_at_def)
  then show ?thesis using rows_at_count [OF at, of "\<lambda>_. True"] by simp
qed

lemma rows_at_fail:
  assumes "rows_at d I Q" and "distinct (map pr_msg_id ms)" and "pr_msg_id ` set ms \<subseteq> I"
    and "\<And>i r. i \<in> pr_msg_id ` set ms \<Longrightarrow> Q i r \<Longrightarrow> ob_attempts r = a" and "a + 1 < 2 ^ 32"
  shows "\<exists>d'. fail_each rnd p now ms d = Some (map (\<lambda>_. int (unat (rp_max_attempts p)) \<le> a + 1) ms, d')
    \<and> rows_at d' I (\<lambda>i r. if i \<in> pr_msg_id ` set ms then \<exists>r0. Q i r0 \<and> put_off p now r0 r else Q i r)"
proof -
  have reach: "db_reach d" and none: "row_of d i = None \<longleftrightarrow> i \<notin> I" and Q: "row_of d i = Some r \<Longrightarrow> Q i r" for i r
    using assms(1) by (auto simp: rows_at_def)
  have rows: "\<exists>r. row_of d (pr_msg_id m) = Some r \<and> Q (pr_msg_id m) r \<and> ob_attempts r = a" if "m \<in> set ms" for m
    using none [of "pr_msg_id m"] Q assms(3,4) that by blast
  then have "\<forall>m \<in> set ms. \<exists>r. row_of d (pr_msg_id m) = Some r \<and> ob_attempts r + 1 < 2 ^ 32"
    using assms(5) by metis
  then obtain d' where d': "fail_each rnd p now ms d
      = Some (map (\<lambda>m. int (unat (rp_max_attempts p)) \<le> ob_attempts (the (row_of d (pr_msg_id m))) + 1) ms, d')"
    "db_reach d'" "db_inbox_seen d' = db_inbox_seen d" "\<forall>i. i \<notin> pr_msg_id ` set ms \<longrightarrow> row_of d' i = row_of d i"
    "\<forall>m \<in> set ms. \<exists>r'. row_of d' (pr_msg_id m) = Some r' \<and> put_off p now (the (row_of d (pr_msg_id m))) r'"
    using fail_each_spec [OF reach assms(2)] by blast
  have "map (\<lambda>m. int (unat (rp_max_attempts p)) \<le> ob_attempts (the (row_of d (pr_msg_id m))) + 1) ms
      = map (\<lambda>_. int (unat (rp_max_attempts p)) \<le> a + 1) ms"
    using rows by (intro map_cong) fastforce+
  moreover have "row_of d' i = None \<longleftrightarrow> i \<notin> I" for i
    using d'(4,5) none [of i] assms(3) by (cases "i \<in> pr_msg_id ` set ms") auto
  moreover have "if i \<in> pr_msg_id ` set ms then \<exists>r0. Q i r0 \<and> put_off p now r0 r else Q i r"
    if "row_of d' i = Some r" for i r
  proof (cases "i \<in> pr_msg_id ` set ms")
    case True
    then obtain m where m: "m \<in> set ms" "i = pr_msg_id m" by blast
    from rows [OF m(1)] d'(5) m that show ?thesis by force
  qed (use d'(4) Q that in auto)
  ultimately show ?thesis using d'(1-3) assms(1) by (auto simp: rows_at_def)
qed

lemma rows_at_due:
  assumes "rows_at d I Q" and "card I \<le> 10" and "unat now < 2 ^ 63" and "order_by_ok ob_created_ms ord"
  shows "\<exists>ms. due shw ord no_faults d now 10 = Inr ms \<and> distinct (map pr_msg_id ms)
    \<and> pr_msg_id ` set ms = {i \<in> I. \<exists>r. row_of d i = Some r \<and> ob_state r = ''pending'' \<and> ob_next_attempt_ms r \<le> uint now}"
proof -
  have "{i. \<exists>r. row_of d i = Some r \<and> ob_state r = ''pending'' \<and> ob_next_attempt_ms r \<le> uint now}
      = {i \<in> I. \<exists>r. row_of d i = Some r \<and> ob_state r = ''pending'' \<and> ob_next_attempt_ms r \<le> uint now}"
    using assms(1) by (force simp: rows_at_def)
  then show ?thesis
    using due_ids [OF _ assms(4,3), of d 10 shw] assms(1,2) rows_at_length [OF assms(1)] by (simp add: rows_at_def)
qed

lemma rows_at_mono: "rows_at d I Q \<Longrightarrow> (\<And>i r. i \<in> I \<Longrightarrow> Q i r \<Longrightarrow> R i r) \<Longrightarrow> rows_at d I R"
  unfolding rows_at_def by (metis option.distinct(1))

lemma e2e_delay: "uint (delay_cap e2e_policy a) \<le> 200"
  using unat_delay_cap [of e2e_policy a] by (simp add: uint_nat e2e_policy_def del: of_nat_unat)

lemma put_off_e2e:
  assumes "put_off e2e_policy now r r'" and "unat now + 1000 < 2 ^ 63"
  shows "ob_attempts r' = ob_attempts r + 1
    \<and> (if 3 \<le> ob_attempts r + 1 then ob_state r' = ''dead''
       else ob_state r' = ob_state r \<and> uint now + 50 \<le> ob_next_attempt_ms r' \<and> ob_next_attempt_ms r' \<le> uint now + 200)"
proof -
  have u: "uint now + 1000 < 2 ^ 63" using assms(2) unfolding uint_nat by (simp del: of_nat_unat)
  have "unat (rp_max_attempts e2e_policy) = 3" "unat (rp_base_delay_ms e2e_policy) = 50" by (simp_all add: e2e_policy_def)
  then show ?thesis
    using assms(1) u e2e_delay [of "word_of_int (ob_attempts r + 1)"]
    by (auto simp: put_off_def i64_max_def split: if_splits)
qed

lemma tick_rows:
  assumes at: "rows_at d I (\<lambda>i r. ob_state r = ''pending'' \<and> ob_attempts r = a \<and> ob_next_attempt_ms r \<le> uint now)"
    and "card I \<le> 10" and "a + 1 < 3" and "unat now + 1000 < 2 ^ 63" and "order_by_ok ob_created_ms ord"
  shows "\<exists>ms d'. failed_tick shw ord rnd e2e_policy now 10 d = Some (ms, map (\<lambda>_. False) ms, d') \<and> length ms = card I
    \<and> rows_at d' I (\<lambda>i r. ob_state r = ''pending'' \<and> ob_attempts r = a + 1
         \<and> uint now + 50 \<le> ob_next_attempt_ms r \<and> ob_next_attempt_ms r \<le> uint now + 200)"
proof -
  have now: "unat now < 2 ^ 63" using assms(4) by simp
  have "{i \<in> I. \<exists>r. row_of d i = Some r \<and> ob_state r = ''pending'' \<and> ob_next_attempt_ms r \<le> uint now} = I"
    using at by (force simp: rows_at_def)
  then obtain ms where ms: "due shw ord no_faults d now 10 = Inr ms" "distinct (map pr_msg_id ms)" "pr_msg_id ` set ms = I"
    using rows_at_due [OF at assms(2) now assms(5), of shw] by auto
  have len: "length ms = card I" using ms(2,3) by (metis distinct_card length_map list.set_map)
  have lim: "\<not> int (unat (rp_max_attempts e2e_policy)) \<le> a + 1" using assms(3) by (simp add: e2e_policy_def)
  obtain d' where d': "fail_each rnd e2e_policy now ms d = Some (map (\<lambda>_. False) ms, d')"
    "rows_at d' I (\<lambda>i r. if i \<in> pr_msg_id ` set ms then \<exists>r0. (ob_state r0 = ''pending'' \<and> ob_attempts r0 = a
       \<and> ob_next_attempt_ms r0 \<le> uint now) \<and> put_off e2e_policy now r0 r
     else ob_state r = ''pending'' \<and> ob_attempts r = a \<and> ob_next_attempt_ms r \<le> uint now)"
    using rows_at_fail [OF at ms(2), of a rnd e2e_policy now] ms(3) assms(3) lim by (auto simp del: of_nat_unat)
  have "rows_at d' I (\<lambda>i r. ob_state r = ''pending'' \<and> ob_attempts r = a + 1
         \<and> uint now + 50 \<le> ob_next_attempt_ms r \<and> ob_next_attempt_ms r \<le> uint now + 200)"
    by (rule rows_at_mono [OF d'(2)]) (use put_off_e2e [OF _ assms(4)] assms(3) ms(3) in \<open>fastforce split: if_splits\<close>)
  then show ?thesis using ms(1) d'(1) len by (auto simp: failed_tick_def)
qed

lemma distinct_singleton: "distinct (map f xs) \<Longrightarrow> i \<in> f ` set xs \<Longrightarrow> \<exists>x. filter (\<lambda>x. f x = i) xs = [x] \<and> f x = i"
  by (induction xs) (auto simp: filter_empty_conv image_iff)

lemma exhaust_last:
  assumes at: "rows_at d I (\<lambda>i r. ob_state r = ''pending'' \<and> ob_attempts r = 2 \<and> ob_next_attempt_ms r \<le> uint now)"
    and "card I \<le> 10" and "unat now + 1000 < 2 ^ 63" and "order_by_ok ob_created_ms ord" and "replicate 16 3 \<in> I"
  shows "\<exists>d'. exhaust_round shw ord rnd now d = Some ([True], d')
    \<and> rows_at d' I (\<lambda>i r. if i = replicate 16 3 then ob_state r = ''dead'' else ob_state r = ''pending'')"
proof -
  have now: "unat now < 2 ^ 63" using assms(3) by simp
  have "{i \<in> I. \<exists>r. row_of d i = Some r \<and> ob_state r = ''pending'' \<and> ob_next_attempt_ms r \<le> uint now} = I"
    using at by (force simp: rows_at_def)
  then obtain ms where ms: "due shw ord no_faults d now 10 = Inr ms" "distinct (map pr_msg_id ms)" "pr_msg_id ` set ms = I"
    using rows_at_due [OF at assms(2) now assms(4), of shw] by auto
  obtain m where m: "filter (\<lambda>m. pr_msg_id m = replicate 16 3) ms = [m]" "pr_msg_id m = replicate 16 3"
    using distinct_singleton [OF ms(2)] assms(5) ms(3) by blast
  have lim: "int (unat (rp_max_attempts e2e_policy)) \<le> 2 + 1" by (simp add: e2e_policy_def)
  obtain d' where d': "fail_each rnd e2e_policy now [m] d = Some ([True], d')"
    "rows_at d' I (\<lambda>i r. if i \<in> pr_msg_id ` set [m] then \<exists>r0. (ob_state r0 = ''pending'' \<and> ob_attempts r0 = 2
       \<and> ob_next_attempt_ms r0 \<le> uint now) \<and> put_off e2e_policy now r0 r
     else ob_state r = ''pending'' \<and> ob_attempts r = 2 \<and> ob_next_attempt_ms r \<le> uint now)"
    using rows_at_fail [OF at, of "[m]" 2 rnd e2e_policy now] m(2) assms(5) lim by (auto simp del: of_nat_unat fail_each.simps)
  have "rows_at d' I (\<lambda>i r. if i = replicate 16 3 then ob_state r = ''dead'' else ob_state r = ''pending'')"
    by (rule rows_at_mono [OF d'(2)]) (use put_off_e2e [OF _ assms(3)] m(2) in \<open>fastforce split: if_splits\<close>)
  then show ?thesis using ms(1) d'(1) m(1) by (auto simp: exhaust_round_def simp del: fail_each.simps)
qed

lemma exhaust_none:
  assumes at: "rows_at d I (\<lambda>i r. if i = replicate 16 3 then ob_state r = ''dead'' else ob_state r = ''pending'')"
    and "card I \<le> 10" and "unat now < 2 ^ 63" and "order_by_ok ob_created_ms ord"
  shows "exhaust_round shw ord rnd now d = Some ([], d)"
proof -
  obtain ms where ms: "due shw ord no_faults d now 10 = Inr ms"
    "pr_msg_id ` set ms = {i \<in> I. \<exists>r. row_of d i = Some r \<and> ob_state r = ''pending'' \<and> ob_next_attempt_ms r \<le> uint now}"
    using rows_at_due [OF assms, of shw] by blast
  have "replicate 16 3 \<notin> pr_msg_id ` set ms"
  proof
    assume "replicate 16 3 \<in> pr_msg_id ` set ms"
    then obtain r where "row_of d (replicate 16 3) = Some r" "ob_state r = ''pending''" unfolding ms(2) by blast
    then show False using at by (auto simp: rows_at_def)
  qed
  then have "filter (\<lambda>m. pr_msg_id m = replicate 16 3) ms = []" by (metis (mono_tags, lifting) filter_False image_eqI)
  then show ?thesis using ms(1) by (simp add: exhaust_round_def)
qed

lemma revive_rows:
  assumes at: "rows_at d I (\<lambda>i r. if i = replicate 16 3 then ob_state r = ''dead'' else ob_state r = ''pending'')"
  shows "\<exists>d'. revive no_faults d (replicate 16 3) = (Inr (), d') \<and> rows_at d' I (\<lambda>i r. ob_state r = ''pending'')"
proof -
  let ?u = "\<lambda>r. r\<lparr>ob_state := ''pending'', ob_attempts := 0, ob_next_attempt_ms := 0\<rparr>"
  let ?d = "d\<lparr>db_outbox := update_where (\<lambda>r. ob_msg_id r = replicate 16 3) ?u (db_outbox d)\<rparr>"
  have rv: "revive no_faults d (replicate 16 3) = (Inr (), ?d)" by (simp add: revive_def)
  have "db_step d (db_apply no_faults (Revive (replicate 16 3)) d)" by (rule db_step.step) simp
  then have "db_reach ?d" using at rv by (auto simp: rows_at_def intro: db_reach.next_db)
  moreover have "row_of ?d i = (if i = replicate 16 3 then map_option ?u (row_of d i) else row_of d i)" for i
    by (simp add: find_update_where option.map_ident)
  ultimately have "rows_at ?d I (\<lambda>i r. ob_state r = ''pending'')"
    using at by (auto simp: rows_at_def split: if_splits)
  then show ?thesis using rv by blast
qed

lemma enqueued_rows:
  assumes "length a = 32" and "length b = 32"
  shows "\<exists>d. enqueue_all (e2e_envs a b t) db_empty = Some d
    \<and> rows_at d e2e_ids (\<lambda>i r. ob_state r = ''pending'' \<and> ob_attempts r = 0 \<and> ob_next_attempt_ms r \<le> 0)"
proof -
  have wf: "wf_envelope (e2e_env a b t i)" for i
    using assms by (simp add: e2e_env_def wf_envelope_def opt_len_def)
  let ?d = "\<lparr>db_outbox = map (env_row \<circ> e2e_env a b t) [0, 1, 2, 3, 4], db_inbox_seen = []\<rparr>"
  have run: "enqueue_all (map (e2e_env a b t) is) d = Some (foldl (\<lambda>d i. db_apply no_faults (Enqueue (e2e_env a b t i)) d) d is)" for "is" d
    by (induction "is" arbitrary: d) (simp_all add: enqueue_def)
  have one: "db_reach (db_apply no_faults (Enqueue (e2e_env a b t i)) d)" if "db_reach d" for i d
    by (rule db_reach.next_db [OF that], rule db_step.step) (simp add: wf)
  have reach: "db_reach d \<Longrightarrow> db_reach (foldl (\<lambda>d i. db_apply no_faults (Enqueue (e2e_env a b t i)) d) d is)" for "is" d
    using one by (induction "is" arbitrary: d) simp_all
  have eq: "foldl (\<lambda>d i. db_apply no_faults (Enqueue (e2e_env a b t i)) d) db_empty [0, 1, 2, 3, 4] = ?d"
    by (simp add: enqueue_def insert_or_ignore_def db_empty_def env_row_def e2e_env_def)
  have "db_reach ?d" using reach [OF db_reach.init, of "[0, 1, 2, 3, 4]"] unfolding eq .
  moreover have "row_of ?d i = None \<longleftrightarrow> i \<notin> e2e_ids" for i
    by (auto simp: find_None_iff e2e_ids_def env_row_def e2e_env_def)
  moreover have "ob_state r = ''pending'' \<and> ob_attempts r = 0 \<and> ob_next_attempt_ms r \<le> 0" if "row_of ?d i = Some r" for i r
    using find_SomeD_mem [OF that] by (auto simp: env_row_def)
  ultimately have "rows_at ?d e2e_ids (\<lambda>i r. ob_state r = ''pending'' \<and> ob_attempts r = 0 \<and> ob_next_attempt_ms r \<le> 0)"
    by (simp add: rows_at_def)
  then show ?thesis using run [of "[0, 1, 2, 3, 4]" db_empty] unfolding eq by (auto simp: e2e_envs_def)
qed

lemma rows_where:
  assumes "rows_at d I Q" and "\<And>i r. i \<in> I \<Longrightarrow> Q i r \<Longrightarrow> P r \<longleftrightarrow> i \<in> J"
  shows "{i \<in> I. \<exists>r. row_of d i = Some r \<and> P r} = I \<inter> J"
proof -
  have "(\<exists>r. row_of d i = Some r \<and> P r) \<longleftrightarrow> i \<in> J" if i: "i \<in> I" for i
  proof -
    obtain r where r: "row_of d i = Some r" "Q i r" using assms(1) i unfolding rows_at_def by blast
    then show ?thesis using assms(2) [OF i r(2)] by simp
  qed
  then show ?thesis by blast
qed

lemma stats_rows:
  assumes "rows_at d I Q" and "card {i \<in> I. \<exists>r. row_of d i = Some r \<and> ob_state r = ''pending''} = p"
    and "card {i \<in> I. \<exists>r. row_of d i = Some r \<and> ob_state r = ''dead''} = n"
  shows "stats no_faults d = Inr (word_of_nat p, word_of_nat n, 0)"
  using assms rows_at_count [OF assms(1)] by (simp add: stats_def rows_at_def)

lemma queue_runs:
  assumes "length a = 32" and "length b = 32" and "unat t + 2000 < 2 ^ 63" and "order_by_ok ob_created_ms ord"
  shows "act_queue shw ord rnd t (e2e_envs a b t) = Some (5, 5, [True], (4, 1, 0), (5, 0, 0))"
proof -
  have ids: "card e2e_ids = 5" "replicate 16 3 \<in> e2e_ids" "finite e2e_ids"
    by (auto simp: e2e_ids_def card_insert_if)
  have add: "chk_add t k = Some (t + k)" "unat (t + k) = unat t + unat k" "uint (t + k) = uint t + uint k"
    if "unat k \<le> 1000" for k
  proof -
    show *: "chk_add t k = Some (t + k)" "unat (t + k) = unat t + unat k"
      using assms(3) that by (simp_all add: chk_add_def unat_plus_no_overflow)
    show "uint (t + k) = uint t + uint k" unfolding uint_nat *(2) by (simp del: of_nat_unat)
  qed
  obtain d where d: "enqueue_all (e2e_envs a b t) db_empty = Some d"
    "rows_at d e2e_ids (\<lambda>i r. ob_state r = ''pending'' \<and> ob_attempts r = 0 \<and> ob_next_attempt_ms r \<le> 0)"
    using enqueued_rows [OF assms(1,2)] by blast
  have d0: "rows_at d e2e_ids (\<lambda>i r. ob_state r = ''pending'' \<and> ob_attempts r = 0 \<and> ob_next_attempt_ms r \<le> uint t)"
    by (rule rows_at_mono [OF d(2)]) (use order_trans [OF _ uint_ge_0] in blast)
  obtain ms1 d1 where d1: "failed_tick shw ord (rnd 0) e2e_policy t 10 d = Some (ms1, map (\<lambda>_. False) ms1, d1)" "length ms1 = 5"
    "rows_at d1 e2e_ids (\<lambda>i r. ob_state r = ''pending'' \<and> ob_attempts r = 1
         \<and> uint t + 50 \<le> ob_next_attempt_ms r \<and> ob_next_attempt_ms r \<le> uint t + 200)"
    using tick_rows [OF d0, of ord shw "rnd 0"] assms(3,4) ids(1) by auto
  have "{i \<in> e2e_ids. \<exists>r. row_of d1 i = Some r \<and> ob_state r = ''pending'' \<and> ob_next_attempt_ms r \<le> uint t} = {}"
    using d1(3) by (force simp: rows_at_def)
  moreover have "card e2e_ids \<le> 10" "unat t < 2 ^ 63" using ids(1) assms(3) by simp_all
  ultimately have none: "due shw ord no_faults d1 t 10 = Inr []"
    using rows_at_due [OF d1(3) _ _ assms(4), of t shw] by (metis (no_types, lifting) image_is_empty set_empty)
  have "rows_at d1 e2e_ids (\<lambda>i r. ob_state r = ''pending'' \<and> ob_attempts r = 1 \<and> ob_next_attempt_ms r \<le> uint (t + 300))"
    by (rule rows_at_mono [OF d1(3)]) (auto simp: add)
  then obtain ms2 d2 where d2: "failed_tick shw ord (rnd 1) e2e_policy (t + 300) 10 d1 = Some (ms2, map (\<lambda>_. False) ms2, d2)"
    "length ms2 = 5" "rows_at d2 e2e_ids (\<lambda>i r. ob_state r = ''pending'' \<and> ob_attempts r = 2
         \<and> uint (t + 300) + 50 \<le> ob_next_attempt_ms r \<and> ob_next_attempt_ms r \<le> uint (t + 300) + 200)"
    using tick_rows [of d1 e2e_ids 1 "t + 300" ord shw "rnd 1"] assms(3,4) ids(1) by (auto simp: add)
  have "rows_at d2 e2e_ids (\<lambda>i r. ob_state r = ''pending'' \<and> ob_attempts r = 2 \<and> ob_next_attempt_ms r \<le> uint (t + 900))"
    by (rule rows_at_mono [OF d2(3)]) (auto simp: add)
  then obtain d3 where d3: "exhaust_round shw ord (rnd 2) (t + 900) d2 = Some ([True], d3)"
    "rows_at d3 e2e_ids (\<lambda>i r. if i = replicate 16 3 then ob_state r = ''dead'' else ob_state r = ''pending'')"
    using exhaust_last [of d2 e2e_ids "t + 900" ord shw "rnd 2"] assms(3,4) ids by (auto simp: add)
  have d4: "exhaust_round shw ord (rnd 3) (t + 900) d3 = Some ([], d3)"
    using exhaust_none [OF d3(2), of "t + 900" ord shw "rnd 3"] assms(3,4) ids(1) by (simp add: add)
  obtain d5 where d5: "revive no_faults d3 (replicate 16 3) = (Inr (), d5)" "rows_at d5 e2e_ids (\<lambda>i r. ob_state r = ''pending'')"
    using revive_rows [OF d3(2)] by blast
  have "{i \<in> e2e_ids. \<exists>r. row_of d3 i = Some r \<and> ob_state r = ''pending''} = e2e_ids - {replicate 16 3}"
    "{i \<in> e2e_ids. \<exists>r. row_of d3 i = Some r \<and> ob_state r = ''dead''} = {replicate 16 3}"
    "{i \<in> e2e_ids. \<exists>r. row_of d5 i = Some r \<and> ob_state r = ''pending''} = e2e_ids"
    "{i \<in> e2e_ids. \<exists>r. row_of d5 i = Some r \<and> ob_state r = ''dead''} = {}"
    using rows_where [OF d3(2), of "\<lambda>r. ob_state r = ''pending''" "- {replicate 16 3}"]
      rows_where [OF d3(2), of "\<lambda>r. ob_state r = ''dead''" "{replicate 16 3}"]
      rows_where [OF d5(2), of "\<lambda>r. ob_state r = ''pending''" UNIV] rows_where [OF d5(2), of "\<lambda>r. ob_state r = ''dead''" "{}"] ids(2)
    by (auto simp: Diff_eq split: if_splits)
  then have "stats no_faults d3 = Inr (4, 1, 0)" "stats no_faults d5 = Inr (5, 0, 0)"
    using stats_rows [OF d3(2), of 4 1] stats_rows [OF d5(2), of 5 0] ids by simp_all
  then show ?thesis
    using d(1) d1(1,2) none d2(1,2) d3(1) d4 d5(1) by (simp add: act_queue_def add)
qed

section \<open>The program\<close>

lemma generate_Inr: "unwrap (generate (Inr b)) = Some \<lparr>id_seed = b\<rparr>"
  by (simp add: generate_def from_seed_def)

text \<open>
  C15. The program that runs all components together goes through: with working libraries, databases and
  transport, random bytes for every call, a coder whose writes fit the read limit, and clocks within the replay
  window, no \<^verbatim>\<open>expect\<close>, no \<^verbatim>\<open>unwrap\<close> and no \<^verbatim>\<open>assert\<close> fails. The key act gives the secret \<open>agreed_key\<close> for any random
  bytes. All five messages are due and put off twice, the fourth one dies at its third attempt and is
  revived; the receiver files the first message, drops its duplicate, refuses the altered one (unless the
  hash collides) and files the last two; the new node key is current, the old one still accepted, and
  the forged announcement cannot be signed; the load tier rises and falls back; the settings shown are
  the defaults.
\<close>

theorem e2e_program_runs_through:
  assumes "\<forall>k < 7. rng k = Inr (seed k)" and secret: "secret = snd (agreed_key xof derive seed)"
    and "ed25519_ok ed" and "\<forall>s. length (ed_pub ed s) = 32" and "ed_pub ed (seed 1) \<noteq> ed_pub ed (seed 0)"
    and "codec_ok ser de" and "keyed_ok keyed" and "order_by_ok ob_created_ms ord"
    and "t0 \<le> t1" and "unat t1 + 4000 < 2 ^ 63" and "t0 \<le> t2"
    and envs: "envs = e2e_envs (ed_pub ed (seed 0)) (ed_pub ed (seed 1)) (t1 - t0 + 1000)"
    and "\<forall>k < 5. \<exists>cbor. ser (alice_write keyed secret envs k (envs ! k) (fst (clk k))) = Inr cbor \<and> length cbor + 4 \<le> READ_LIMIT"
    and "\<forall>k < 5. unat (fst (clk k)) \<le> unat (fst (snd (clk k))) + 300000
      \<and> unat (fst (snd (clk k))) \<le> unat (fst (clk k)) + 300000"
    and "keyed secret (mac_input (alice_write keyed secret envs 2 (envs ! 2) (fst (clk 2))))
      \<noteq> keyed secret (mac_input (seal keyed (envs ! 2) secret 1 (fst (clk 2)) (replicate 16 2)))"
  shows "e2e_main xof derive ed ser de keyed shw ord rng rnd t0 t1 t2 clk
    = Some (safety_codes xof (ed_pub ed (seed 0)) (ed_pub ed (seed 1)), (5, 5, [True], (4, 1, 0), (5, 0, 0)),
        [Bucketed (replicate 16 0), Duplicate (replicate 16 0), Mac_refused (replicate 16 2) (Crypto ''mailbox mac mismatch''),
         Bucketed (replicate 16 3), Bucketed (replicate 16 4)],
        map (\<lambda>k. (k, ascii ''ack'')) [0, 1, 2, 3, 4],
        (ed_pub ed (seed 5), ed_pub ed (seed 6), True),
        [Light, Medium, Medium, Medium, Medium, Medium, Medium, Medium, Light], (True, False, True, t2 - t0))"
proof -
  let ?t = "t1 - t0 + 1000"
  have "unat (t1 - t0) \<le> unat t1" using assms(9) by (simp add: unat_sub word_le_nat_alt)
  then have small: "unat (t1 - t0) + 1000 < 2 ^ LENGTH(64)" "unat (t1 - t0) + 4000 < 2 ^ 63" using assms(10) by simp_all
  have sub: "chk_sub t1 t0 = Some (t1 - t0)" using assms(9) by (simp add: chk_sub_def)
  have add: "chk_add (t1 - t0) 1000 = Some ?t" "unat ?t = unat (t1 - t0) + 1000"
    using small by (simp_all add: chk_add_def unat_plus_no_overflow)
  have tq: "unat ?t + 2000 < 2 ^ 63" "unat ?t < 2 ^ 63" using small add(2) by simp_all
  have gen: "unwrap (generate (rng k)) = Some \<lparr>id_seed = seed k\<rparr>" if "k < 7" for k
    using assms(1) that by (simp add: generate_Inr)
  have key: "act_mailbox_key xof derive rng = Some (fst (agreed_key xof derive seed), secret)"
    using assms(1) by (subst mailbox_key_runs [where seed = seed]) (simp_all add: secret)
  have nid: "node_id_of ed \<lparr>id_seed = s\<rparr> = ed_pub ed s" for s by (simp add: node_id_of_def)
  obtain d' where tr: "act_transfer ser de keyed secret clk envs (enumerate 0 envs) db_empty
    = Some ([Bucketed (replicate 16 0), Duplicate (replicate 16 0), Mac_refused (replicate 16 2) (Crypto ''mailbox mac mismatch''),
        Bucketed (replicate 16 3), Bucketed (replicate 16 4)], map (\<lambda>k. (k, ascii ''ack'')) [0, 1, 2, 3, 4], d')"
    using transfer_runs [OF assms(6,7,13,14,15) envs] by blast
  have q: "act_queue shw ord rnd ?t envs = Some (5, 5, [True], (4, 1, 0), (5, 0, 0))"
    unfolding envs using assms(4) by (intro queue_runs tq assms(8)) simp_all
  have rot: "act_rotation ed \<lparr>id_seed = seed 0\<rparr> \<lparr>id_seed = seed 1\<rparr> \<lparr>id_seed = seed 5\<rparr> \<lparr>id_seed = seed 6\<rparr> ?t
      = Some (ed_pub ed (seed 5), ed_pub ed (seed 6), True)"
    using rotation_runs [OF assms(3) _ tq(2)] assms(5) by (simp add: nid)
  have summary: "act_summary t0 t2 = Some (True, False, True, t2 - t0)"
    using assms(11) by (simp add: act_summary_def chk_sub_def settings_default_def privacy_cfg_default_def node_service_cfg_default_def Let_def)
  show ?thesis
    unfolding e2e_main_def act_identities_def
    by (simp add: gen key sub add(1) nid Let_def envs [symmetric] q tr rot tiers_run summary del: One_nat_def)
qed

lemma toy_facts: "ed25519_ok toy_ed" "length (ed_pub toy_ed s) = 32" "keyed_ok toy_keyed" "codec_ok toy_ser toy_de"
proof -
  show "ed25519_ok toy_ed" "length (ed_pub toy_ed s) = 32" "keyed_ok toy_keyed"
    by (simp_all add: ed25519_ok_def toy_ed_def keyed_ok_def toy_keyed_def)
  show "codec_ok toy_ser toy_de"
    unfolding codec_ok_def toy_ser_def toy_de_def by (auto split: option.splits dest!: find_SomeD_mem)
qed

lemma toy_hash: "toy_keyed [] (mac_input (alice_write toy_keyed [] envs 2 env ts))
    \<noteq> toy_keyed [] (mac_input (seal toy_keyed env [] 1 ts (replicate 16 2)))"
proof -
  have "mac_input (alice_write toy_keyed [] envs 2 env ts) = mac_input (seal toy_keyed env [] 1 ts (replicate 16 2)) @ [0xFF]"
    by (simp add: alice_write_def seal_def mac_input_def Let_def)
  then show ?thesis by (simp add: toy_keyed_def)
qed

lemma toy_coded:
  assumes "k < 5"
  shows "\<exists>cbor. toy_ser (alice_write toy_keyed [] (e2e_envs (ed_pub toy_ed [0]) (ed_pub toy_ed [1]) 1000) k
      (e2e_envs (ed_pub toy_ed [0]) (ed_pub toy_ed [1]) 1000 ! k) 5) = Inr cbor \<and> length cbor + 4 \<le> READ_LIMIT"
    (is "\<exists>cbor. toy_ser ?w = _ \<and> _")
proof -
  have k: "k \<in> set [0, 1, 2, 3, 4]" "k = [0, 1, 2, 3, 4] ! k" "k < length [0, 1, 2, 3, 4::nat]"
    using assms by (auto simp: less_Suc_eq numeral_eq_Suc)
  have "toy_writes ! k = ?w"
    unfolding toy_writes_def Let_def nth_map [OF k(3)] k(2) [symmetric] ..
  then have "find (\<lambda>k. toy_writes ! k = ?w) [0, 1, 2, 3, 4] \<noteq> None"
    using k(1) unfolding find_None_iff by blast
  then show ?thesis by (auto simp: toy_ser_def READ_LIMIT_def simp del: find.simps)
qed

theorem e2e_program_runs_through_witness:
  "\<exists>report. e2e_main (\<lambda>_ n. replicate n 0) (\<lambda>_ _. []) toy_ed toy_ser toy_de toy_keyed (\<lambda>_. []) (sort_key ob_created_ms)
     (\<lambda>k. Inr [word_of_nat k]) (\<lambda>_ _. []) 0 0 7 (\<lambda>_. (5, 5, 5)) = Some report"
proof -
  let ?rng = "\<lambda>k. Inr [word_of_nat k :: u8] :: string + bytes"
  let ?envs = "e2e_envs (ed_pub toy_ed [0]) (ed_pub toy_ed [1]) 1000"
  have key: "[] = snd (agreed_key (\<lambda>_ n. replicate n 0) (\<lambda>_ _. []) (\<lambda>k. [word_of_nat k]))"
    by (simp add: agreed_key_def Let_def derive_mailbox_secret_def)
  have keys: "ed_pub toy_ed [word_of_nat 1] \<noteq> ed_pub toy_ed [word_of_nat 0]" by (simp add: toy_ed_def)
  have sizes: "\<forall>s. length (ed_pub toy_ed s) = 32" by (simp add: toy_facts)
  have envs: "?envs = e2e_envs (ed_pub toy_ed [word_of_nat 0]) (ed_pub toy_ed [word_of_nat 1]) (0 - 0 + 1000)" by simp
  show ?thesis
    by (rule exI, rule e2e_program_runs_through [OF _ key toy_facts(1) sizes keys toy_facts(4,3) order_sort _ _ _ envs])
      (simp_all add: toy_hash toy_coded)
qed

end
