(* ===== verification/Messaging.thy ===== *)
theory Messaging
  imports Delivery
begin

text \<open>
  The way of a message from the sender's outbox (\<^verbatim>\<open>queue.rs\<close>) over a channel in the hands of an attacker to
  the receiver's bucket (\<^verbatim>\<open>envelope.rs\<close>, \<^verbatim>\<open>mailbox.rs\<close>, \<^verbatim>\<open>queue.rs\<close>). The operations are those of the source;
  the system that runs them in any order is stated here.
\<close>

section \<open>Messages\<close>

text \<open>What the outbox keeps of a message: id, recipient, group, kind and body.\<close>

type_synonym message = "msg_id \<times> bytes option \<times> bytes option \<times> int \<times> bytes"

definition message_of :: "envelope \<Rightarrow> message" where
  "message_of e = (env_msg_id e, env_recipient e, env_group e, uint (kind_u8 (env_kind e)), env_body e)"

definition row_message :: "out_row \<Rightarrow> message" where
  "row_message r = (ob_msg_id r, ob_recipient r, ob_group_id r, ob_kind r, ob_body r)"

text \<open>The envelope is made from what \<^verbatim>\<open>due\<close> returned; sender, time and hop limit are the application's.\<close>

definition made_from :: "pending_row \<Rightarrow> envelope \<Rightarrow> bool" where
  "made_from m e \<longleftrightarrow> wf_envelope e \<and> env_msg_id e = pr_msg_id m \<and> env_recipient e = pr_recipient m
     \<and> env_group e = pr_group_id m \<and> kind_u8 (env_kind e) = pr_kind m \<and> env_body e = pr_body m"

text \<open>The write the receiver reads out of a stream.\<close>

definition decoded :: "(bytes \<Rightarrow> string + bucket_write) \<Rightarrow> bytes \<Rightarrow> bucket_write option" where
  "decoded de raw =
     (case unframe raw of
        Inr (Some (payload, _)) \<Rightarrow> (case de payload of Inr w \<Rightarrow> Some w | Inl _ \<Rightarrow> None)
      | _ \<Rightarrow> None)"

text \<open>Documented behaviour of the CBOR decoder: arrays of fixed length have their length.\<close>

definition decoder_ok :: "(bytes \<Rightarrow> string + bucket_write) \<Rightarrow> bool" where
  "decoder_ok de \<longleftrightarrow> (\<forall>b w. de b = Inr w \<longrightarrow> wf_write w)"

section \<open>The system\<close>

text \<open>
  The two databases, the messages whose submission succeeded, the writes the sender has sealed, and the
  envelopes the receiver has filed.
\<close>

record sys =
  sy_alice :: db
  sy_bob :: db
  sy_submitted :: "message list"
  sy_writes :: "bucket_write list"
  sy_filed :: "envelope list"

definition sys_start :: sys where
  "sys_start = \<lparr>sy_alice = db_empty, sy_bob = db_empty, sy_submitted = [], sy_writes = [], sy_filed = []\<rparr>"

definition submitted_after :: "unit result \<Rightarrow> envelope \<Rightarrow> message list \<Rightarrow> message list" where
  "submitted_after r e ms = (if r = Inr () \<and> env_msg_id e \<notin> fst ` set ms then ms @ [message_of e] else ms)"

text \<open>
  What the attacker may bring in: any bytes, as long as a valid tag on them is one the sender has
  made. Bytes that were sent can come late, often, or never.
\<close>

definition unforged :: "(bytes \<Rightarrow> string + bucket_write) \<Rightarrow> (bytes \<Rightarrow> bytes \<Rightarrow> bytes) \<Rightarrow> bytes \<Rightarrow> bucket_write list \<Rightarrow> bytes \<Rightarrow> bool" where
  "unforged de keyed secret ws raw \<longleftrightarrow> (\<forall>w. decoded de raw = Some w \<and> bw_mac w = keyed secret (mac_input w)
     \<longrightarrow> mac_input w \<in> mac_input ` set ws)"

fun filed_after :: "verdict \<Rightarrow> bucket_write option \<Rightarrow> envelope list \<Rightarrow> envelope list" where
  "filed_after (Bucketed i) (Some w) es = es @ [bw_envelope w]"
| "filed_after _ _ es = es"

text \<open>
  Steps, with arbitrary failures of the database calls: the application submits a message, seals one
  that is due, notes a failure, revives a message, or marks any id as sent whenever it likes (the library
  does not tie \<^verbatim>\<open>mark_sent\<close> to an answer); a stream within the read limit arrives at the receiver, whose table
  of seen ids is not pruned. A stream that breaks off or exceeds the limit changes nothing (\<open>Delivery.bob_turn\<close>).
\<close>

inductive sys_step :: "(bytes \<Rightarrow> string + bucket_write) \<Rightarrow> (bytes \<Rightarrow> bytes \<Rightarrow> bytes) \<Rightarrow> bytes \<Rightarrow> sys \<Rightarrow> sys \<Rightarrow> bool"
  for de keyed secret where
  submit: "wf_envelope e \<Longrightarrow> enqueue f (sy_alice s) e = (r, a) \<Longrightarrow>
    sys_step de keyed secret s (s\<lparr>sy_alice := a, sy_submitted := submitted_after r e (sy_submitted s)\<rparr>)"
| sealed: "due shw ord f (sy_alice s) now limit = Inr ms \<Longrightarrow> order_by_ok ob_created_ms ord \<Longrightarrow> m \<in> set ms \<Longrightarrow>
    made_from m e \<Longrightarrow> length nonce = 16 \<Longrightarrow>
    sys_step de keyed secret s (s\<lparr>sy_writes := sy_writes s @ [seal keyed e secret serial ts nonce]\<rparr>)"
| fails: "fail_and_reschedule f rng (sy_alice s) i p now = Some (r, a) \<Longrightarrow> sys_step de keyed secret s (s\<lparr>sy_alice := a\<rparr>)"
| revives: "revive f (sy_alice s) i = (r, a) \<Longrightarrow> sys_step de keyed secret s (s\<lparr>sy_alice := a\<rparr>)"
| marks: "mark_sent f (sy_alice s) i = (r, a) \<Longrightarrow> sys_step de keyed secret s (s\<lparr>sy_alice := a\<rparr>)"
| arrive: "unforged de keyed secret (sy_writes s) raw \<Longrightarrow> length raw \<le> READ_LIMIT \<Longrightarrow> bob_verdict de keyed secret f raw now1 now2 (sy_bob s) = Some (v, b) \<Longrightarrow>
    sys_step de keyed secret s (s\<lparr>sy_bob := b, sy_filed := filed_after v (decoded de raw) (sy_filed s)\<rparr>)"

inductive sys_reach :: "(bytes \<Rightarrow> string + bucket_write) \<Rightarrow> (bytes \<Rightarrow> bytes \<Rightarrow> bytes) \<Rightarrow> bytes \<Rightarrow> sys \<Rightarrow> bool"
  for de keyed secret where
  start: "sys_reach de keyed secret sys_start"
| next_sys: "sys_reach de keyed secret s \<Longrightarrow> sys_step de keyed secret s s' \<Longrightarrow> sys_reach de keyed secret s'"

text \<open>
  The invariant: the outbox rows are the submitted messages, one row each; what is sealed is a
  submitted message; what is filed is a submitted message, each once, and the filed ids are those of the
  receiver's table.
\<close>

definition sys_inv :: "sys \<Rightarrow> bool" where
  "sys_inv s \<longleftrightarrow> db_inv (sy_alice s) \<and> map row_message (db_outbox (sy_alice s)) = sy_submitted s
     \<and> set (sy_submitted s) \<subseteq> range message_of
     \<and> (\<forall>w \<in> set (sy_writes s). wf_envelope (bw_envelope w) \<and> length (bw_nonce w) = 16
          \<and> message_of (bw_envelope w) \<in> set (sy_submitted s))
     \<and> (\<forall>e \<in> set (sy_filed s). message_of e \<in> set (sy_submitted s))
     \<and> distinct (map env_msg_id (sy_filed s))
     \<and> (\<forall>i. hm_contains (db_inbox_seen (sy_bob s)) i \<longleftrightarrow> i \<in> env_msg_id ` set (sy_filed s))"

text \<open>A concrete system: a coder for one write, and the state after the submission of its message.\<close>

definition one_ser :: "bucket_write \<Rightarrow> string + bytes" where
  "one_ser w = (if w = demo_write then Inr [1] else Inl [])"

definition one_de :: "bytes \<Rightarrow> string + bucket_write" where
  "one_de b = (if b = [1] then Inr demo_write else Inl [])"

definition submitted_one :: sys where
  "submitted_one = sys_start\<lparr>sy_alice := snd (enqueue no_faults db_empty demo_env), sy_submitted := [message_of demo_env]\<rparr>"

section \<open>The invariant holds\<close>

lemma due_from_outbox:
  assumes "db_inv d" and "order_by_ok ob_created_ms ord" and "due shw ord f d now limit = Inr ms" and "m \<in> set ms"
  shows "\<exists>r \<in> set (db_outbox d). m = to_pending r"
proof -
  let ?P = "\<lambda>r. ob_state r = ''pending'' \<and> ob_next_attempt_ms r \<le> u64_as_i64 now"
  have sets: "set (ord rows) = set rows" for rows using order_by_set [OF assms(2)] .
  have "f 0 = None" "f 1 = None" "f 2 = None"
    using assms(3) by (auto simp: due_def select_rows_def guard_fault_def split: option.splits)
  then have "due shw ord f d now limit = due shw ord no_faults d now limit"
    by (simp add: due_def select_rows_def)
  then have "ms = map to_pending (take (unat limit) (ord (filter ?P (db_outbox d))))"
    using assms(3) select_rows_ok [OF assms(1) sets, of shw ?P limit] by (simp add: due_def)
  then show ?thesis using assms(4) sets by (auto dest!: in_set_takeD)
qed

lemma made_from_row:
  assumes "made_from (to_pending r) e" and "row_message r \<in> range message_of"
  shows "message_of e = row_message r"
proof -
  obtain x where "row_message r = message_of x" using assms(2) by blast
  then show ?thesis using assms(1) by (simp add: made_from_def message_of_def row_message_def to_pending_def)
qed

text \<open>Failure, revival and marking change the state of rows only.\<close>

lemma update_messages:
  assumes "\<And>r. row_message (u r) = row_message r"
  shows "map row_message (update_where P u rows) = map row_message rows"
  using assms by (rule update_where_keys)

lemma alice_update_inv:
  assumes "sys_inv s" and "db_inv a" and "a = (sy_alice s)\<lparr>db_outbox := update_where P u (db_outbox (sy_alice s))\<rparr>"
    and "\<And>r. row_message (u r) = row_message r"
  shows "sys_inv (s\<lparr>sy_alice := a\<rparr>)"
  using assms by (simp add: sys_inv_def update_messages)

lemma fails_inv:
  assumes "sys_inv s" and "fail_and_reschedule f rng (sy_alice s) i p now = Some (r, a)"
  shows "sys_inv (s\<lparr>sy_alice := a\<rparr>)"
proof -
  have a: "db_inv a" using db_apply_inv [of "sy_alice s" "Fail i p now rng" f] assms by (simp add: sys_inv_def)
  from assms(2) show ?thesis
  proof (cases rule: fail_cases)
    case (written r0 att)
    show ?thesis
    proof (cases "exhausted p att")
      case True
      then show ?thesis by (rule alice_update_inv [OF assms(1) a written(4)]) (simp_all add: row_message_def)
    next
      case False
      with written(5) obtain n where "a = (sy_alice s)\<lparr>db_outbox := update_where (\<lambda>r. ob_msg_id r = i)
          (\<lambda>r. r\<lparr>ob_attempts := uint att, ob_next_attempt_ms := n\<rparr>) (db_outbox (sy_alice s))\<rparr>" by blast
      then show ?thesis by (rule alice_update_inv [OF assms(1) a]) (simp_all add: row_message_def)
    qed
  qed (use assms(1) in simp)
qed

lemma revives_inv:
  assumes "sys_inv s" and "revive f (sy_alice s) i = (r, a)"
  shows "sys_inv (s\<lparr>sy_alice := a\<rparr>)"
proof (cases "f 0")
  case None
  have "db_inv a" using db_apply_inv [of "sy_alice s" "Revive i" f] assms by (simp add: sys_inv_def)
  moreover have "a = (sy_alice s)\<lparr>db_outbox := update_where (\<lambda>r. ob_msg_id r = i)
      (\<lambda>r. r\<lparr>ob_state := ''pending'', ob_attempts := 0, ob_next_attempt_ms := 0\<rparr>) (db_outbox (sy_alice s))\<rparr>"
    using assms(2) None by (simp add: revive_def)
  ultimately show ?thesis by (rule alice_update_inv [OF assms(1)]) (simp_all add: row_message_def)
qed (use assms in \<open>auto simp: revive_def\<close>)

lemma marks_inv:
  assumes "sys_inv s" and "mark_sent f (sy_alice s) i = (r, a)"
  shows "sys_inv (s\<lparr>sy_alice := a\<rparr>)"
proof (cases "f 0")
  case None
  have "db_inv a" using db_apply_inv [of "sy_alice s" "MarkSent i" f] assms by (simp add: sys_inv_def)
  moreover have "a = (sy_alice s)\<lparr>db_outbox := update_where (\<lambda>r. ob_msg_id r = i)
      (\<lambda>r. r\<lparr>ob_state := ''sent''\<rparr>) (db_outbox (sy_alice s))\<rparr>"
    using assms(2) None by (simp add: mark_sent_def)
  ultimately show ?thesis by (rule alice_update_inv [OF assms(1)]) (simp_all add: row_message_def)
qed (use assms in \<open>auto simp: mark_sent_def\<close>)

lemma submit_inv:
  assumes "sys_inv s" and "wf_envelope e" and "enqueue f (sy_alice s) e = (r, a)"
  shows "sys_inv (s\<lparr>sy_alice := a, sy_submitted := submitted_after r e (sy_submitted s)\<rparr>)"
proof -
  have inv: "db_inv (sy_alice s)" "map row_message (db_outbox (sy_alice s)) = sy_submitted s" using assms(1) by (simp_all add: sys_inv_def)
  have "db_inv a" using db_apply_inv [OF inv(1), of "Enqueue e" f] assms(2,3) by simp
  moreover have "fst ` set (sy_submitted s) = ob_msg_id ` set (db_outbox (sy_alice s))"
    unfolding inv(2) [symmetric] by (force simp: row_message_def)
  moreover have "row_message (env_row e) = message_of e" "ob_msg_id (env_row e) = env_msg_id e" "ob_state (env_row e) = ''pending''"
    by (simp_all add: row_message_def message_of_def env_row_def)
  ultimately show ?thesis
    using assms(1,3) by (auto simp: sys_inv_def enqueue_def submitted_after_def insert_or_ignore_def split: option.splits)
qed

lemma verdict_fields:
  assumes "bob_verdict de keyed secret f raw now1 now2 b = Some (v, b')"
  shows "case v of
      Bucketed i \<Rightarrow> \<not> hm_contains (db_inbox_seen b) i \<and> (\<exists>w. decoded de raw = Some w \<and> env_msg_id (bw_envelope w) = i
        \<and> bw_verify keyed w secret now1 = Inr ()) \<and> b' = b\<lparr>db_inbox_seen := hm_insert i (clamp_ms now2) (db_inbox_seen b)\<rparr>
    | Duplicate i \<Rightarrow> hm_contains (db_inbox_seen b) i \<and> b' = b
    | _ \<Rightarrow> b' = b"
  using assms
  by (auto simp: bob_verdict_def bw_from_cbor_def map_err_def record_seen_def decoded_def Let_def
      split: sum.splits option.splits if_splits)

lemma seal_shape: "bw_envelope (seal keyed e secret serial ts nonce) = e" "bw_nonce (seal keyed e secret serial ts nonce) = nonce"
  by (simp_all add: seal_def Let_def)

text \<open>A decoded write with a valid tag is, but for the tag, one the sender has sealed.\<close>

lemma verified_is_sealed:
  assumes "keyed_ok keyed" and "decoder_ok de" and "unforged de keyed secret ws raw" and "decoded de raw = Some w"
    and "bw_verify keyed w secret now = Inr ()" and "\<forall>w \<in> set ws. wf_envelope (bw_envelope w) \<and> length (bw_nonce w) = 16"
  shows "\<exists>w' \<in> set ws. bw_envelope w' = bw_envelope w"
proof -
  have wf: "wf_write w" using assms(2,4) by (auto simp: decoder_ok_def decoded_def split: sum.splits option.splits)
  then have "bw_mac w = keyed secret (mac_input w)"
    using bw_verify_iff [of w keyed secret now] assms(1,5) by (simp add: wf_write_def keyed_ok_def)
  then obtain w' where w': "w' \<in> set ws" "mac_input w = mac_input w'" using assms(3,4) by (auto simp: unforged_def)
  let ?t = "replicate 32 0"
  have "wf_write (w'\<lparr>bw_mac := ?t\<rparr>)" using assms(6) w'(1) by (simp add: wf_write_def)
  moreover have "mac_input (w'\<lparr>bw_mac := ?t\<rparr>) = mac_input w'" by (simp add: mac_input_def)
  ultimately have "w\<lparr>bw_mac := ?t\<rparr> = w'\<lparr>bw_mac := ?t\<rparr>" using mac_input_inj [OF wf, of "w'\<lparr>bw_mac := ?t\<rparr>" ?t] w'(2) by simp
  then have "bw_envelope w' = bw_envelope w" by (metis bucket_write.select_convs(1) bucket_write.surjective bucket_write.update_convs(5))
  with w'(1) show ?thesis by blast
qed

lemma arrive_inv:
  assumes "sys_inv s" and "keyed_ok keyed" and "decoder_ok de" and "unforged de keyed secret (sy_writes s) raw"
    and "bob_verdict de keyed secret f raw now1 now2 (sy_bob s) = Some (v, b)"
  shows "sys_inv (s\<lparr>sy_bob := b, sy_filed := filed_after v (decoded de raw) (sy_filed s)\<rparr>)"
proof (cases v)
  case (Bucketed i)
  then obtain w where w: "\<not> hm_contains (db_inbox_seen (sy_bob s)) i" "decoded de raw = Some w" "env_msg_id (bw_envelope w) = i"
    "bw_verify keyed w secret now1 = Inr ()" "b = (sy_bob s)\<lparr>db_inbox_seen := hm_insert i (clamp_ms now2) (db_inbox_seen (sy_bob s))\<rparr>"
    using verdict_fields [OF assms(5)] by auto
  have "message_of (bw_envelope w) \<in> set (sy_submitted s)"
    using verified_is_sealed [OF assms(2-4) w(2,4)] assms(1) unfolding sys_inv_def by metis
  then show ?thesis
    using assms(1) w Bucketed by (auto simp: sys_inv_def hm_contains_def hm.get_ins)
next
  case (Duplicate i)
  then show ?thesis using assms(1) verdict_fields [OF assms(5)] by (auto simp: sys_inv_def)
qed (use assms(1) verdict_fields [OF assms(5)] in \<open>auto simp: sys_inv_def\<close>)

lemma sealed_inv:
  assumes "sys_inv s" and "due shw ord f (sy_alice s) now limit = Inr ms" and "order_by_ok ob_created_ms ord" and "m \<in> set ms"
    and "made_from m e" and "length nonce = 16"
  shows "sys_inv (s\<lparr>sy_writes := sy_writes s @ [seal keyed e secret serial ts nonce]\<rparr>)"
proof -
  have inv: "db_inv (sy_alice s)" "map row_message (db_outbox (sy_alice s)) = sy_submitted s" "set (sy_submitted s) \<subseteq> range message_of"
    using assms(1) by (simp_all add: sys_inv_def)
  obtain r where r: "r \<in> set (db_outbox (sy_alice s))" "m = to_pending r"
    using due_from_outbox [OF inv(1) assms(3,2,4)] by blast
  then have "row_message r \<in> set (sy_submitted s)" unfolding inv(2) [symmetric] by simp
  then have "message_of e \<in> set (sy_submitted s)" using made_from_row [of r e] assms(5) r(2) inv(3) by auto
  moreover have "wf_envelope e" using assms(5) by (simp add: made_from_def)
  ultimately show ?thesis using assms(1,6) by (auto simp: sys_inv_def seal_shape)
qed

lemma sys_reach_inv:
  assumes "keyed_ok keyed" and "decoder_ok de" and "sys_reach de keyed secret s"
  shows "sys_inv s"
  using assms(3)
proof (induction rule: sys_reach.induct)
  case start
  then show ?case by (simp add: sys_inv_def sys_start_def db_empty_inv) (simp add: db_empty_def hm_contains_def hm_get_def)
next
  case (next_sys s s')
  from next_sys.hyps(2) next_sys.IH show ?case
    by (cases rule: sys_step.cases)
      (simp_all add: submit_inv sealed_inv fails_inv revives_inv marks_inv arrive_inv [OF _ assms(1,2)])
qed

section \<open>What the system promises\<close>

lemma message_row:
  assumes "sys_inv s" and "m \<in> set (sy_submitted s)"
  shows "\<exists>r. row_of (sy_alice s) (fst m) = Some r \<and> row_message r = m"
proof -
  have inv: "db_inv (sy_alice s)" "sy_submitted s = map row_message (db_outbox (sy_alice s))" using assms(1) by (simp_all add: sys_inv_def)
  obtain r where r: "r \<in> set (db_outbox (sy_alice s))" "row_message r = m" using assms(2) inv(2) by auto
  then have "ob_msg_id r = fst m" by (auto simp: row_message_def)
  then show ?thesis using row_of_iff [OF inv(1)] r by blast
qed

lemma filed_table:
  assumes "sys_inv s"
  shows "hm_contains (db_inbox_seen (sy_bob s)) i \<longleftrightarrow> (\<exists>e \<in> set (sy_filed s). env_msg_id e = i)"
  using assms unfolding sys_inv_def by auto

text \<open>
  C1. Messages arrive once and unaltered, and the sender forgets none: whatever the channel drops, delays,
  repeats or alters, whichever database calls fail, and in whatever order the application fails, revives or
  marks messages, the receiver files every message id at most once, and exactly the ids of its table; it files
  only what was submitted, with exactly that recipient, group, kind and body; and every submitted message has
  its row in the outbox, with its content, once.
\<close>

theorem messages_arrive_once_and_unaltered:
  assumes "keyed_ok keyed" and "decoder_ok de" and "sys_reach de keyed secret s"
  shows "distinct (map env_msg_id (sy_filed s)) \<and> message_of ` set (sy_filed s) \<subseteq> set (sy_submitted s)
    \<and> (\<forall>i. hm_contains (db_inbox_seen (sy_bob s)) i \<longleftrightarrow> (\<exists>e \<in> set (sy_filed s). env_msg_id e = i))
    \<and> distinct (map fst (sy_submitted s))
    \<and> (\<forall>m \<in> set (sy_submitted s). \<exists>r. row_of (sy_alice s) (fst m) = Some r \<and> row_message r = m)
    \<and> length (db_outbox (sy_alice s)) = length (sy_submitted s)"
proof -
  have inv: "sys_inv s" by (rule sys_reach_inv [OF assms])
  have sub: "sy_submitted s = map row_message (db_outbox (sy_alice s))" "db_inv (sy_alice s)" using inv by (simp_all add: sys_inv_def)
  have "map fst (sy_submitted s) = map ob_msg_id (db_outbox (sy_alice s))" unfolding sub(1) by (simp add: row_message_def)
  then have "distinct (map fst (sy_submitted s))" using sub(2) by (simp add: db_inv_def)
  moreover have "length (db_outbox (sy_alice s)) = length (sy_submitted s)" unfolding sub(1) by simp
  moreover have "distinct (map env_msg_id (sy_filed s))" "message_of ` set (sy_filed s) \<subseteq> set (sy_submitted s)"
    using inv by (auto simp: sys_inv_def)
  ultimately show ?thesis using filed_table [OF inv] message_row [OF inv] by blast
qed

lemma one_ok: "decoder_ok one_de" "codec_ok one_ser one_de"
  by (auto simp: decoder_ok_def one_de_def codec_ok_def one_ser_def demo_wf split: if_splits)

lemma submitted_one_reach: "sys_reach one_de demo_keyed [] submitted_one"
proof -
  have "wf_envelope demo_env" using demo_wf(1) by (simp add: wf_write_def demo_write_def seal_fields)
  then have "sys_step one_de demo_keyed [] sys_start (sys_start\<lparr>sy_alice := snd (enqueue no_faults db_empty demo_env),
      sy_submitted := submitted_after (Inr ()) demo_env (sy_submitted sys_start)\<rparr>)"
    by (rule submit [where f = no_faults]) (simp add: sys_start_def enqueue_def)
  then show ?thesis
    using next_sys [OF start] by (simp add: submitted_one_def submitted_after_def sys_start_def)
qed

theorem messages_arrive_once_and_unaltered_witness:
  "\<exists>r. row_of (sy_alice submitted_one) (env_msg_id demo_env) = Some r \<and> row_message r = message_of demo_env"
  using messages_arrive_once_and_unaltered [OF demo_keyed_ok one_ok(1) submitted_one_reach]
  by (auto simp: submitted_one_def sys_start_def message_of_def)

lemma pending_is_due:
  assumes "db_inv d" and "row_of d i = Some r" and "ob_state r = ''pending''" and "length (db_outbox d) < 2 ^ 32"
  shows "\<exists>now ms. due (\<lambda>_. []) (sort_key ob_created_ms) no_faults d now (- 1) = Inr ms \<and> to_pending r \<in> set ms"
proof -
  let ?now = "9223372036854775807 :: u64"
  have now: "u64_as_i64 ?now = i64_max" by (simp add: u64_as_i64_def i64_max_def)
  let ?P = "\<lambda>r. ob_state r = ''pending'' \<and> ob_next_attempt_ms r \<le> i64_max"
  have r: "r \<in> set (db_outbox d)" "row_ok r" using assms(1,2) row_of_iff [OF assms(1)] by (auto simp: db_inv_def)
  have "unat (- 1 :: u32) = 2 ^ 32 - 1" by (simp add: unat_neg1)
  then have "length (filter ?P (db_outbox d)) \<le> unat (- 1 :: u32)"
    using assms(4) length_filter_le [of ?P "db_outbox d"] by linarith
  then have "due (\<lambda>_. []) (sort_key ob_created_ms) no_faults d ?now (- 1)
      = Inr (map to_pending (sort_key ob_created_ms (filter ?P (db_outbox d))))"
    using select_rows_ok [OF assms(1), of "sort_key ob_created_ms" "\<lambda>_. []" ?P "- 1"] by (simp add: due_def now)
  moreover have "to_pending r \<in> set (map to_pending (sort_key ob_created_ms (filter ?P (db_outbox d))))"
    using r assms(3) by (simp add: row_ok_def)
  ultimately show ?thesis by blast
qed

lemma sealed_stream:
  assumes "codec_ok ser de" and "keyed_ok keyed" and "w = seal keyed e secret serial ts nonce"
    and "ser w = Inr cbor" and "length cbor + 4 \<le> READ_LIMIT"
  shows "\<exists>raw v b'. frame cbor = Some raw \<and> length raw \<le> READ_LIMIT \<and> decoded de raw = Some w
    \<and> bob_verdict de keyed secret no_faults raw ts ts b = Some (v, b')
    \<and> v = (if hm_contains (db_inbox_seen b) (env_msg_id e) then Duplicate (env_msg_id e) else Bucketed (env_msg_id e))"
proof -
  obtain raw where raw: "frame cbor = Some raw" "length raw \<le> READ_LIMIT" using assms(5) by (auto simp: frame_def READ_LIMIT_def)
  have "length cbor \<le> MAX_FRAME_SIZE" using assms(5) by (simp add: READ_LIMIT_def MAX_FRAME_SIZE_def)
  then have u: "unframe raw = Inr (Some (cbor, length raw))" unfolding unframe_exact using raw(1) by auto
  have de: "de cbor = Inr w" using assms(1,4) by (simp add: codec_ok_def)
  have "bw_verify keyed w secret ts = Inr ()"
    using assms(2) by (simp add: assms(3) bw_verify_iff seal_fields keyed_ok_def)
  then show ?thesis
    using raw u de assms(3)
    by (auto simp: decoded_def bob_verdict_def bw_from_cbor_def record_seen_get Let_def seal_fields)
qed

text \<open>
  C2. No message is stuck: in every state the system can be in, a message that waits in the outbox is due at some
  time, and the write made from it, when its frame fits what the receiver reads, is accepted: sealing and one
  arrival lead to a state in which exactly this message has been filed, now or before, whichever streams
  the attacker has brought in until then.
\<close>

theorem waiting_message_can_be_delivered:
  assumes "keyed_ok keyed" and "decoder_ok de" and "codec_ok ser de" and "sys_reach de keyed secret s"
    and "row_of (sy_alice s) (env_msg_id e) = Some r" and "ob_state r = ''pending''" and "length (db_outbox (sy_alice s)) < 2 ^ 32"
    and "wf_envelope e" and "message_of e = row_message r" and "length nonce = 16"
    and "ser (seal keyed e secret serial ts nonce) = Inr cbor" and "length cbor + 4 \<le> READ_LIMIT"
  shows "\<exists>now ms raw s1 s2. due (\<lambda>_. []) (sort_key ob_created_ms) no_faults (sy_alice s) now (- 1) = Inr ms
    \<and> to_pending r \<in> set ms \<and> frame cbor = Some raw
    \<and> sys_step de keyed secret s s1 \<and> sy_writes s1 = sy_writes s @ [seal keyed e secret serial ts nonce]
    \<and> sys_step de keyed secret s1 s2 \<and> sy_alice s2 = sy_alice s
    \<and> sy_bob s2 = snd (record_seen no_faults (sy_bob s) (env_msg_id e) ts)
    \<and> sy_filed s2 = (if hm_contains (db_inbox_seen (sy_bob s)) (env_msg_id e) then sy_filed s else sy_filed s @ [e])
    \<and> message_of e \<in> message_of ` set (sy_filed s2)"
proof -
  let ?w = "seal keyed e secret serial ts nonce" and ?i = "env_msg_id e"
  have inv: "sys_inv s" "db_inv (sy_alice s)" using sys_reach_inv [OF assms(1,2,4)] by (simp_all add: sys_inv_def)
  obtain now ms where ms: "due (\<lambda>_. []) (sort_key ob_created_ms) no_faults (sy_alice s) now (- 1) = Inr ms" "to_pending r \<in> set ms"
    using pending_is_due [OF inv(2) assms(5-7)] by blast
  have made: "made_from (to_pending r) e"
    using assms(8,9) by (auto simp: made_from_def to_pending_def message_of_def row_message_def dest: sym)
  define s1 where "s1 = s\<lparr>sy_writes := sy_writes s @ [?w]\<rparr>"
  have step1: "sys_step de keyed secret s s1"
    unfolding s1_def by (rule sealed [OF ms(1) order_sort ms(2) made assms(10)])
  obtain raw v b where raw: "frame cbor = Some raw" "length raw \<le> READ_LIMIT" "decoded de raw = Some ?w"
    "bob_verdict de keyed secret no_faults raw ts ts (sy_bob s) = Some (v, b)"
    "v = (if hm_contains (db_inbox_seen (sy_bob s)) ?i then Duplicate ?i else Bucketed ?i)"
    using sealed_stream [OF assms(3,1) refl assms(11,12)] by blast
  have "unforged de keyed secret (sy_writes s1) raw" using raw(3) by (simp add: unforged_def s1_def)
  then have step2: "sys_step de keyed secret s1 (s1\<lparr>sy_bob := b, sy_filed := filed_after v (decoded de raw) (sy_filed s1)\<rparr>)"
    (is "sys_step _ _ _ _ ?s2") by (rule arrive [OF _ raw(2)]) (use raw(4) in \<open>simp add: s1_def\<close>)
  have bob: "b = snd (record_seen no_faults (sy_bob s) ?i ts)"
    using verdict_fields [OF raw(4)] by (auto simp: raw(5) record_seen_get split: if_splits)
  have filed: "sy_filed ?s2 = (if hm_contains (db_inbox_seen (sy_bob s)) ?i then sy_filed s else sy_filed s @ [e])"
    by (simp add: raw(3,5) s1_def seal_shape)
  have "message_of e \<in> message_of ` set (sy_filed ?s2)"
  proof (cases "hm_contains (db_inbox_seen (sy_bob s)) ?i")
    case True
    then obtain e' where e': "e' \<in> set (sy_filed s)" "env_msg_id e' = ?i" using filed_table [OF inv(1)] by blast
    then have "message_of e' \<in> set (sy_submitted s)" using inv(1) by (auto simp: sys_inv_def)
    then obtain r' where "row_of (sy_alice s) (fst (message_of e')) = Some r'" "row_message r' = message_of e'"
      using message_row [OF inv(1)] by blast
    then have "message_of e' = message_of e" using e'(2) assms(5,9) by (simp add: message_of_def)
    then show ?thesis using e'(1) unfolding filed if_P [OF True] by (metis image_eqI)
  next
    case False
    then show ?thesis unfolding filed by simp
  qed
  moreover have "sy_writes s1 = sy_writes s @ [?w]" "sy_alice ?s2 = sy_alice s" "sy_bob ?s2 = b" by (simp_all add: s1_def)
  ultimately show ?thesis
    using ms raw(1) step1 step2 filed bob by blast
qed

theorem waiting_message_can_be_delivered_witness:
  "\<exists>s1 s2. sys_step one_de demo_keyed [] submitted_one s1 \<and> sys_step one_de demo_keyed [] s1 s2
    \<and> sy_filed s2 = [demo_env]"
proof -
  have outbox: "db_outbox (sy_alice submitted_one) = [env_row demo_env]"
    by (simp add: submitted_one_def enqueue_def insert_or_ignore_def db_empty_def)
  have row: "row_of (sy_alice submitted_one) (env_msg_id demo_env) = Some (env_row demo_env)"
    "ob_state (env_row demo_env) = ''pending''" "message_of demo_env = row_message (env_row demo_env)"
    unfolding outbox by (simp_all add: env_row_def message_of_def row_message_def)
  have env: "wf_envelope demo_env" using demo_wf(1) by (simp add: wf_write_def demo_write_def seal_fields)
  have ser: "one_ser (seal demo_keyed demo_env [] 1 1000 (replicate 16 2)) = Inr [1]"
    by (simp add: one_ser_def demo_write_def)
  have new: "\<not> hm_contains (db_inbox_seen (sy_bob submitted_one)) (env_msg_id demo_env)" "sy_filed submitted_one = []"
    by (simp_all add: submitted_one_def sys_start_def db_empty_def hm_contains_def hm_get_def)
  have "length (db_outbox (sy_alice submitted_one)) < 2 ^ 32" "length [1 :: u8] + 4 \<le> READ_LIMIT" "length (replicate 16 2 :: bytes) = 16"
    by (simp_all add: outbox READ_LIMIT_def)
  with waiting_message_can_be_delivered [OF demo_keyed_ok one_ok submitted_one_reach row(1,2) _ env row(3) _ ser]
  show ?thesis using new by auto
qed

end
