(* ===== verification/Curve.thy ===== *)
theory Curve
  imports Governor
begin

text \<open>
  The battery curve of \<^verbatim>\<open>governor.rs\<close> compared with the polynomial it computes: the rounding errors of its
  seven floating-point operations stay below \<open>10 ^ -13\<close>, so that it has no cliffs and does not rise as
  the battery falls, up to that error.
\<close>

section \<open>The exact curve\<close>

definition exact_step :: "rat \<Rightarrow> rat" where
  "exact_step t = t * t * (3 - 2 * t)"

definition exact_share :: "nat \<Rightarrow> rat" where
  "exact_share b = 3 / 100 + 12 / 100 * exact_step (max 0 (min 1 ((rat_of_nat b - 5) / 35)))"

section \<open>Rounding errors\<close>

lemma fl64_error:
  assumes "\<bar>x\<bar> < 4"
  shows "\<bar>f64 x - x\<bar> \<le> 1 / 10 ^ 15"
proof (cases "x = 0")
  case False
  define u where "u = (2 powi (expo \<bar>x\<bar> - 52) :: rat)"
  have "2 powi expo \<bar>x\<bar> < (2 powi 2 :: rat)" using expo_bounds [of "\<bar>x\<bar>"] False assms by simp
  then have "expo \<bar>x\<bar> < 2" by (simp only: two_powi_less)
  then have "u \<le> 2 powi - 51" unfolding u_def by (intro power_int_increasing) simp_all
  then have u: "u \<le> 1 / 2 ^ 51" "0 < u" by (simp_all add: power_int_minus u_def)
  have "f64 x - x = (of_int (round_half_even (x / u)) - x / u) * u"
    using False u(2) by (simp add: fl_def Let_def u_def [symmetric] left_diff_distrib)
  then have "\<bar>f64 x - x\<bar> = \<bar>of_int (round_half_even (x / u)) - x / u\<bar> * u" using u(2) by (simp add: abs_mult)
  also have "\<dots> \<le> 1 / 2 * u" using rhe_error [of "x / u"] u(2) by (intro mult_right_mono) simp_all
  also have "\<dots> \<le> 1 / 10 ^ 15" using u(1) by simp
  finally show ?thesis .
qed simp

lemma mult_error:
  fixes a b a' b' :: rat
  assumes "\<bar>a' - a\<bar> \<le> e" and "\<bar>b' - b\<bar> \<le> d" and "\<bar>a\<bar> \<le> A" and "\<bar>b'\<bar> \<le> B"
  shows "\<bar>a' * b' - a * b\<bar> \<le> e * B + A * d"
proof -
  have "a' * b' - a * b = (a' - a) * b' + a * (b' - b)" by (simp add: algebra_simps)
  then have "\<bar>a' * b' - a * b\<bar> \<le> \<bar>a' - a\<bar> * \<bar>b'\<bar> + \<bar>a\<bar> * \<bar>b' - b\<bar>" by (simp add: abs_mult [symmetric])
  also have "\<dots> \<le> e * B + A * d" using assms by (intro add_mono mult_mono) (auto intro: order_trans [OF abs_ge_zero])
  finally show ?thesis .
qed

lemma exact_step_bounds:
  assumes "0 \<le> t" and "t \<le> 1"
  shows "0 \<le> exact_step t \<and> exact_step t \<le> 1"
proof -
  have "0 \<le> (1 - t) * (1 - t) * (1 + 2 * t)" using assms by (intro mult_nonneg_nonneg) simp_all
  moreover have "1 - exact_step t = (1 - t) * (1 - t) * (1 + 2 * t)" by (simp add: exact_step_def algebra_simps)
  moreover have "0 \<le> t * t * (3 - 2 * t)" using assms by (intro mult_nonneg_nonneg) simp_all
  ultimately show ?thesis by (simp add: exact_step_def)
qed

lemma smoothstep_error:
  assumes "0 \<le> t" and "t \<le> 1"
  shows "\<bar>smoothstep t - exact_step t\<bar> \<le> 12 / 10 ^ 15"
proof -
  have tt: "0 \<le> t * t" "t * t \<le> 1" using assms by (simp_all add: mult_le_one)
  have sq: "\<bar>f64 (t * t) - t * t\<bar> \<le> 1 / 10 ^ 15" using tt by (intro fl64_error) simp
  have dbl: "\<bar>f64 (2 * t) - 2 * t\<bar> \<le> 1 / 10 ^ 15" using assms by (intro fl64_error) simp
  have "\<bar>3 - f64 (2 * t)\<bar> < 4" using dbl assms by (simp add: abs_if split: if_splits)
  then have "\<bar>f64 (3 - f64 (2 * t)) - (3 - f64 (2 * t))\<bar> \<le> 1 / 10 ^ 15" by (rule fl64_error)
  then have lin: "\<bar>f64 (3 - f64 (2 * t)) - (3 - 2 * t)\<bar> \<le> 2 / 10 ^ 15" using dbl by (simp add: abs_if split: if_splits)
  then have "\<bar>f64 (3 - f64 (2 * t))\<bar> \<le> 4" using assms by (simp add: abs_if split: if_splits)
  then have "\<bar>f64 (t * t) * f64 (3 - f64 (2 * t)) - t * t * (3 - 2 * t)\<bar> \<le> 1 / 10 ^ 15 * 4 + 1 * (2 / 10 ^ 15)"
    using tt by (intro mult_error sq lin) simp_all
  then have prod: "\<bar>f64 (t * t) * f64 (3 - f64 (2 * t)) - exact_step t\<bar> \<le> 6 / 10 ^ 15" by (simp add: exact_step_def)
  have "\<bar>f64 (t * t) * f64 (3 - f64 (2 * t))\<bar> < 4"
    using prod exact_step_bounds [OF assms] by (simp add: abs_if split: if_splits)
  then have "\<bar>f64 (f64 (t * t) * f64 (3 - f64 (2 * t))) - f64 (t * t) * f64 (3 - f64 (2 * t))\<bar> \<le> 1 / 10 ^ 15" by (rule fl64_error)
  then show ?thesis using prod assms by (simp add: smoothstep_def Let_def abs_if split: if_splits)
qed

lemma exact_slope:
  fixes s t :: rat
  assumes "0 \<le> s" and "s \<le> 1" and "0 \<le> t" and "t \<le> 1"
  defines "k \<equiv> 3 * (s + t) - 2 * (s * s + s * t + t * t)"
  shows "exact_step s - exact_step t = (s - t) * k" "0 \<le> k" "k \<le> 3 / 2"
proof -
  show "exact_step s - exact_step t = (s - t) * k" by (simp add: exact_step_def k_def algebra_simps)
  have "s * s \<le> s * 1" "t * t \<le> t * 1" "s * t \<le> s * 1" "s * t \<le> 1 * t" using assms(1-4) by (intro mult_mono; simp)+
  then show "0 \<le> k" unfolding k_def by simp
  have "3 / 2 - k = 3 / 2 * (s + t - 1) ^ 2 + 1 / 2 * (s - t) ^ 2" by (simp add: k_def power2_eq_square field_simps)
  then show "k \<le> 3 / 2" by (metis add_nonneg_nonneg diff_ge_0_iff_ge mult_nonneg_nonneg zero_le_divide_1_iff zero_le_numeral zero_le_power2 divide_nonneg_nonneg)
qed

lemma exact_step_lipschitz:
  assumes "0 \<le> s" and "s \<le> 1" and "0 \<le> t" and "t \<le> 1"
  shows "\<bar>exact_step s - exact_step t\<bar> \<le> \<bar>s - t\<bar> * 6"
  unfolding exact_slope(1) [OF assms] abs_mult
  using exact_slope(2,3) [OF assms] by (intro mult_left_mono) simp_all

lemma on_curve_error:
  assumes "0 \<le> s" and "s \<le> 1" and "0 \<le> t" and "t \<le> 1" and "\<bar>s - t\<bar> \<le> 1 / 10 ^ 15"
  shows "\<bar>on_curve s - (3 / 100 + 12 / 100 * exact_step t)\<bar> \<le> 1 / 10 ^ 13"
proof -
  have near: "\<bar>smoothstep s - exact_step t\<bar> \<le> 18 / 10 ^ 15"
    using smoothstep_error [OF assms(1,2)] exact_step_lipschitz [OF assms(1-4)] assms(5) by (simp add: abs_if split: if_splits)
  then have small: "\<bar>smoothstep s\<bar> \<le> 2" using exact_step_bounds [OF assms(3,4)] by (simp add: abs_if split: if_splits)
  define c where "c = (1080863910568919 / 9007199254740992 :: rat)"
  have c: "\<bar>c - 12 / 100\<bar> \<le> 1 / 10 ^ 15" by (simp add: c_def)
  have prod: "\<bar>c * smoothstep s - 12 / 100 * exact_step t\<bar> \<le> 1 / 10 ^ 15 * 2 + 12 / 100 * (18 / 10 ^ 15)"
    by (intro mult_error c near small) simp
  then have "\<bar>c * smoothstep s\<bar> < 4" using exact_step_bounds [OF assms(3,4)] by (simp add: abs_if split: if_splits)
  then have r1: "\<bar>f64 (c * smoothstep s) - c * smoothstep s\<bar> \<le> 1 / 10 ^ 15" by (rule fl64_error)
  have f: "\<bar>STRANGER_SHARE_FLOOR - 3 / 100\<bar> \<le> 1 / 10 ^ 15" by (simp add: share_constants)
  have "\<bar>STRANGER_SHARE_FLOOR + f64 (c * smoothstep s)\<bar> < 4"
    using r1 prod f exact_step_bounds [OF assms(3,4)] by (simp add: abs_if split: if_splits)
  then have r2: "\<bar>f64 (STRANGER_SHARE_FLOOR + f64 (c * smoothstep s)) - (STRANGER_SHARE_FLOOR + f64 (c * smoothstep s))\<bar> \<le> 1 / 10 ^ 15"
    by (rule fl64_error)
  have "on_curve s = f64 (STRANGER_SHARE_FLOOR + f64 (c * smoothstep s))" by (simp add: on_curve_def share_ends c_def)
  then show ?thesis using r1 r2 prod f by (simp add: abs_if split: if_splits)
qed

section \<open>The share by battery\<close>

lemma rep_small: "n < 2 ^ 53 \<Longrightarrow> rep 53 (rat_of_nat n)"
  by (rule rep_of_nat)

lemma battery_share_error:
  assumes "gv_battery_percent g = Some p" and "\<not> gv_charging g"
  shows "\<bar>battery_share g - exact_share (unat p)\<bar> \<le> 1 / 10 ^ 13"
proof -
  let ?b = "unat p"
  consider "?b \<le> 5" | "40 \<le> ?b" | "5 < ?b" "?b < 40" by linarith
  then show ?thesis
  proof cases
    case 1
    then have "rat_of_nat ?b \<le> 5" by (metis of_nat_le_iff of_nat_numeral)
    then have "battery_share g = STRANGER_SHARE_FLOOR" "exact_share ?b = 3 / 100"
      using assms by (simp_all add: battery_share_def exact_share_def exact_step_def BATTERY_CURVE_START_def BATTERY_CURVE_END_def max_def)
    then show ?thesis by (simp add: share_constants)
  next
    case 2
    then have "40 \<le> rat_of_nat ?b" by (metis of_nat_le_iff of_nat_numeral)
    then have "battery_share g = STRANGER_SHARE_FULL" "exact_share ?b = 15 / 100"
      using assms by (simp_all add: battery_share_def exact_share_def exact_step_def BATTERY_CURVE_START_def min_def max_def)
    then show ?thesis by (simp add: share_constants)
  next
    case 3
    then have b: "5 < rat_of_nat ?b" "rat_of_nat ?b < 40" by (metis of_nat_less_iff of_nat_numeral)+
    define t where "t = (rat_of_nat ?b - 5) / 35"
    have t: "0 \<le> t" "t \<le> 1" using b by (simp_all add: t_def)
    have "rat_of_nat ?b - 5 = rat_of_nat (?b - 5)" using 3 by (simp add: of_nat_diff)
    moreover have "f64 (rat_of_nat (?b - 5)) = rat_of_nat (?b - 5)" using 3 by (intro fl_exact rep_small) simp
    ultimately have e1: "f64 (rat_of_nat ?b - 5) = rat_of_nat ?b - 5" by (simp only:)
    have e2: "f64 35 = 35" using fl_exact [OF rep_small [of 35]] by simp
    define s where "s = f64 t"
    have s: "0 \<le> s" "s \<le> 1" "\<bar>s - t\<bar> \<le> 1 / 10 ^ 15"
      using t fl64_error [of t] fl64_le [of t 1] rep_small [of 1] by (simp_all add: s_def fl64_nonneg)
    have "battery_share g = on_curve s"
      using assms b by (simp add: battery_share_def BATTERY_CURVE_START_def BATTERY_CURVE_END_def Let_def e1 e2 s_def t_def)
    moreover have "exact_share ?b = 3 / 100 + 12 / 100 * exact_step t" using t by (simp add: exact_share_def t_def [symmetric])
    ultimately show ?thesis using on_curve_error [OF s(1,2) t s(3)] by simp
  qed
qed

lemma exact_share_steps: "0 \<le> exact_share (Suc b) - exact_share b \<and> exact_share (Suc b) - exact_share b \<le> 1 / 150"
proof -
  consider "b < 5" | "40 \<le> b" | "b \<in> {5..<40}" by fastforce
  then show ?thesis
  proof cases
    case 1
    then have "rat_of_nat b \<le> 4" by (metis of_nat_le_iff of_nat_numeral Suc_leI less_Suc_eq_le numeral_nat(3) eval_nat_numeral(3))
    then show ?thesis by (simp add: exact_share_def exact_step_def max_def)
  next
    case 2
    then have "40 \<le> rat_of_nat b" by (metis of_nat_le_iff of_nat_numeral)
    then show ?thesis by (simp add: exact_share_def exact_step_def min_def max_def)
  next
    case 3
    then have b: "5 \<le> rat_of_nat b" "rat_of_nat b \<le> 39" by (metis of_nat_le_iff of_nat_numeral atLeastLessThan_iff, simp)
    define t where "t = (rat_of_nat b - 5) / 35"
    have "t * 35 = rat_of_nat b - 5" by (simp add: t_def)
    then have t: "0 \<le> t" "t + 1 / 35 \<le> 1" using b by linarith+
    define k where "k = 3 * (t + 1 / 35 + t) - 2 * ((t + 1 / 35) * (t + 1 / 35) + (t + 1 / 35) * t + t * t)"
    have k: "exact_step (t + 1 / 35) - exact_step t = (t + 1 / 35 - t) * k" "0 \<le> k" "k \<le> 3 / 2"
      unfolding k_def using t by (intro exact_slope; simp)+
    have "exact_share b = 3 / 100 + 12 / 100 * exact_step t" using t by (simp add: exact_share_def t_def [symmetric])
    moreover have "(rat_of_nat (Suc b) - 5) / 35 = t + 1 / 35" by (simp add: t_def field_simps)
    then have "exact_share (Suc b) = 3 / 100 + 12 / 100 * exact_step (t + 1 / 35)" using t by (simp only: exact_share_def) simp
    ultimately show ?thesis using k by simp
  qed
qed

lemma battery_curve_step:
  assumes "unat p' = Suc (unat p)"
  shows "\<bar>share (set_battery g (Some p') c) - share (set_battery g (Some p) c)\<bar> < 7 / 1000
    \<and> share (set_battery g (Some p) c) \<le> share (set_battery g (Some p') c) + 1 / 10 ^ 12"
proof -
  let ?b = "\<lambda>p. battery_share (set_battery g (Some p) c)"
  have "\<bar>?b p' - ?b p\<bar> < 7 / 1000 \<and> ?b p \<le> ?b p' + 1 / 10 ^ 12"
  proof (cases c)
    case True
    then show ?thesis by (simp add: battery_share_def set_battery_def)
  next
    case False
    have "\<bar>?b p' - exact_share (Suc (unat p))\<bar> \<le> 1 / 10 ^ 13" "\<bar>?b p - exact_share (unat p)\<bar> \<le> 1 / 10 ^ 13"
      using battery_share_error [of "set_battery g (Some p') c" p'] battery_share_error [of "set_battery g (Some p) c" p] False assms
      by (simp_all add: set_battery_def)
    then show ?thesis using exact_share_steps [of "unat p"] by (simp add: abs_if split: if_splits)
  qed
  moreover have "load_share (set_battery g (Some q) c) = load_share g" for q by (simp add: load_share_def set_battery_def)
  ultimately show ?thesis by (simp add: share_def min_def abs_if split: if_splits)
qed

text \<open>
  C9. The curve has no cliffs: with one percent less battery the share changes by less than one percentage
  point and does not rise by more than \<open>10 ^ -12\<close>, for every percentage and whatever the load.
\<close>

theorem battery_curve_has_no_cliffs:
  assumes "unat p' = Suc (unat p)"
  shows "\<bar>share (set_battery g (Some p') c) - share (set_battery g (Some p) c)\<bar> < 7 / 1000
    \<and> share (set_battery g (Some p) c) \<le> share (set_battery g (Some p') c) + 1 / 10 ^ 12"
  using assms by (rule battery_curve_step)

theorem battery_curve_has_no_cliffs_witness:
  "\<bar>share (set_battery (gv_new 120) (Some 20) False) - share (set_battery (gv_new 120) (Some 19) False)\<bar> < 7 / 1000"
  using battery_curve_has_no_cliffs [of 20 19 "gv_new 120" False] by simp

end
