(* ===== verification/Clock_Tests.thy ===== *)
theory Clock_Tests
  imports Clock
begin

text \<open>
  The unit tests of \<^verbatim>\<open>crates/core/src/clock.rs\<close>, run on the model: every test is a definition, statement by
  statement, whose value is \<open>None\<close> when an \<^verbatim>\<open>unwrap\<close> or an \<^verbatim>\<open>assert\<close> of it fails.
\<close>

section \<open>Steps the tests share\<close>

text \<open>\<^verbatim>\<open>c.trust_peer(p); c.on_peer_exchange(p, ..).unwrap()\<close>.\<close>

definition meet :: "u8 \<Rightarrow> int \<Rightarrow> int \<Rightarrow> int \<Rightarrow> int \<Rightarrow> clock \<Rightarrow> (int \<times> clock) option" where
  "meet p t1 t2 t3 t4 c =
     (let (r, c') = on_peer_exchange (trust_peer c (replicate 32 p)) (replicate 32 p) t1 t2 t3 t4
      in do { offset \<leftarrow> unwrap r; Some (offset, c') })"

fun meet_all :: "u8 list \<Rightarrow> int \<Rightarrow> int \<Rightarrow> int \<Rightarrow> int \<Rightarrow> clock \<Rightarrow> clock option" where
  "meet_all [] t1 t2 t3 t4 c = Some c"
| "meet_all (p # ps) t1 t2 t3 t4 c = do { (_, c') \<leftarrow> meet p t1 t2 t3 t4 c; meet_all ps t1 t2 t3 t4 c' }"

section \<open>The tests\<close>

definition peer_exchange_offset_math :: "unit option" where
  "peer_exchange_offset_math = do {
     (off, c) \<leftarrow> meet 1 0 5100 5200 300 clock_new;
     require (off = 5000)
   }"

definition absurd_rtt_rejected :: "unit option" where
  "absurd_rtt_rejected = do {
     let p = replicate 32 1;
     let c = trust_peer clock_new p;
     let (r1, c) = on_peer_exchange c p 0 100 200 60000;
     _ \<leftarrow> require (r1 = Inl RttTooLarge);
     let c = trust_peer c p;
     let (r2, c) = on_peer_exchange c p 0 200 100 300;
     require (r2 = Inl RttTooLarge)
   }"

definition quorum_required_before_peer_offset_applies :: "unit option" where
  "quorum_required_before_peer_offset_applies = do {
     let t = 1000000;
     c \<leftarrow> meet_all [1, 2] t (t + 5000) (t + 5300) (t + 300) clock_new;
     s1 \<leftarrow> source c (t + 1000);
     _ \<leftarrow> require (s1 = Unsynced);
     (n1, c) \<leftarrow> now c (t + 1000);
     _ \<leftarrow> require (n1 = t + 1000);
     (_, c) \<leftarrow> meet 3 t (t + 5000) (t + 5300) (t + 300) c;
     s2 \<leftarrow> source c (t + 2000);
     _ \<leftarrow> require (s2 = Peers);
     (n2, c) \<leftarrow> now c (t + 2000);
     require (\<bar>n2 - (t + 2000 + 5000)\<bar> \<le> 1)
   }"

definition poison_peer_cannot_shift_clock :: "unit option" where
  "poison_peer_cannot_shift_clock = do {
     let t = 1700000000000;
     c \<leftarrow> meet_all [1, 2, 3] t (t + 5000) (t + 5300) (t + 300) clock_new;
     (_, c) \<leftarrow> meet 9 t (t + MAX_CORRECTION_MS) (t + MAX_CORRECTION_MS + 100) (t + 400) c;
     (n, c) \<leftarrow> now c (t + 1000);
     require (\<bar>n - (t + 1000 + 5000)\<bar> \<le> 1)
   }"

definition two_poison_clusters_mean_no_quorum :: "unit option" where
  "two_poison_clusters_mean_no_quorum = do {
     let t = 1700000000000;
     c \<leftarrow> meet_all [1, 2] t (t + 5000) (t + 5300) (t + 300) clock_new;
     c \<leftarrow> meet_all [10, 11, 12] t (t + 86400000) (t + 86400100) (t + 300) c;
     s \<leftarrow> source c (t + 1000);
     require (s = Peers)
   }"

definition single_network_source_never_accepted :: "unit option" where
  "single_network_source_never_accepted = do {
     let t = 1700000000000;
     c \<leftarrow> on_network_sync clock_new 1 t (t + 60000);
     s1 \<leftarrow> source c (t + 1000);
     _ \<leftarrow> require (s1 = Unsynced);
     (n1, c) \<leftarrow> now c (t + 1000);
     _ \<leftarrow> require (n1 = t + 1000);
     c \<leftarrow> on_network_sync c 2 (t + 1500) (t + 1500 + 60000);
     s2 \<leftarrow> source c (t + 2000);
     _ \<leftarrow> require (s2 = Network);
     (n2, c) \<leftarrow> now c (t + 2000);
     require (n2 = t + 2000 + 60000)
   }"

definition large_network_shift_requires_peer_quorum :: "unit option" where
  "large_network_shift_requires_peer_quorum = do {
     let t = 1700000000000;
     c \<leftarrow> on_network_sync clock_new 1 t (t - 20 * 60000);
     c \<leftarrow> on_network_sync c 2 t (t - 20 * 60000);
     s \<leftarrow> source c (t + 1000);
     _ \<leftarrow> require (s = Unsynced);
     (n, c) \<leftarrow> now c (t + 1000);
     require (n = t + 1000)
   }"

definition conflicting_network_sources_both_rejected :: "unit option" where
  "conflicting_network_sources_both_rejected = do {
     let t = 1700000000000;
     c \<leftarrow> on_network_sync clock_new 1 t (t + 3600000);
     c \<leftarrow> on_network_sync c 2 t (t + 86400000);
     s \<leftarrow> source c (t + 1000);
     _ \<leftarrow> require (s = Unsynced);
     (n, c) \<leftarrow> now c (t + 1000);
     require (n = t + 1000)
   }"

definition network_overrides_peers_when_fresh :: "unit option" where
  "network_overrides_peers_when_fresh = do {
     let t = 1700000000000;
     c \<leftarrow> meet_all [1, 2, 3] t (t + 60000) (t + 60100) (t + 300) clock_new;
     s1 \<leftarrow> source c (t + 400);
     _ \<leftarrow> require (s1 = Peers);
     c \<leftarrow> on_network_sync c 1 (t + 500) (t + 500 + 60000);
     c \<leftarrow> on_network_sync c 2 (t + 550) (t + 550 + 60000);
     s2 \<leftarrow> source c (t + 600);
     _ \<leftarrow> require (s2 = Network);
     (n, c) \<leftarrow> now c (t + 600);
     require (n = t + 600 + 60000)
   }"

definition network_staleness_falls_back_to_peers :: "unit option" where
  "network_staleness_falls_back_to_peers = do {
     let t = 1700000000000;
     c \<leftarrow> on_network_sync clock_new 1 t (t + 1000);
     c \<leftarrow> on_network_sync c 2 t (t + 1000);
     let late = t + NETWORK_FRESH_MS + 1000;
     c \<leftarrow> meet_all [1, 2, 3] (late - 400) (late - 300) (late - 200) (late - 100) c;
     s \<leftarrow> source c late;
     require (s = Peers)
   }"

definition high_water_never_goes_backwards :: "unit option" where
  "high_water_never_goes_backwards = do {
     let c = restore_high_water clock_new 5000000;
     (n1, c) \<leftarrow> now c 100;
     _ \<leftarrow> require (n1 = 5000000);
     (n2, c) \<leftarrow> now c 200;
     _ \<leftarrow> require (n2 = 5000000);
     (n3, c) \<leftarrow> now c 6000000;
     require (n3 > 5000000)
   }"

definition network_offset_is_clamped :: "unit option" where
  "network_offset_is_clamped = do {
     let t = 1700000000000;
     c \<leftarrow> meet_all [1, 2, 3] t (t + MAX_CORRECTION_MS + 100) (t + MAX_CORRECTION_MS + 150) (t + 250) clock_new;
     (n, c) \<leftarrow> now c (t + 1000);
     require (n = t + 1000 + MAX_CORRECTION_MS)
   }"

definition clock_tests :: "unit option list" where
  "clock_tests = [peer_exchange_offset_math, absurd_rtt_rejected, quorum_required_before_peer_offset_applies,
     poison_peer_cannot_shift_clock, two_poison_clusters_mean_no_quorum, single_network_source_never_accepted,
     large_network_shift_requires_peer_quorum, conflicting_network_sources_both_rejected, network_overrides_peers_when_fresh,
     network_staleness_falls_back_to_peers, high_water_never_goes_backwards, network_offset_is_clamped]"

section \<open>They pass\<close>

lemmas test_eval = clock_eval meet_def on_peer_exchange_def trust_peer_def is_trusted_def hm_contains_def hm_get_def hm_insert_def
  require_def source_def PEER_QUORUM_def MAX_RTT_MS_def signed_divide_int_def

lemma simple_tests: "peer_exchange_offset_math = Some ()" "absurd_rtt_rejected = Some ()"
  by (simp_all add: peer_exchange_offset_math_def absurd_rtt_rejected_def test_eval)

lemma network_tests: "single_network_source_never_accepted = Some ()" "large_network_shift_requires_peer_quorum = Some ()"
  "conflicting_network_sources_both_rejected = Some ()" 
  by (simp_all add: single_network_source_never_accepted_def large_network_shift_requires_peer_quorum_def
     conflicting_network_sources_both_rejected_def test_eval)

lemma peer_tests: "quorum_required_before_peer_offset_applies = Some ()" "poison_peer_cannot_shift_clock = Some ()"
  "two_poison_clusters_mean_no_quorum = Some ()" "network_offset_is_clamped = Some ()"
  by (simp_all add: quorum_required_before_peer_offset_applies_def poison_peer_cannot_shift_clock_def
      two_poison_clusters_mean_no_quorum_def network_offset_is_clamped_def test_eval)

lemma mixed_tests: "network_overrides_peers_when_fresh = Some ()" "network_staleness_falls_back_to_peers = Some ()"
  "high_water_never_goes_backwards = Some ()"
  by (simp_all add: network_overrides_peers_when_fresh_def network_staleness_falls_back_to_peers_def
      high_water_never_goes_backwards_def restore_high_water_def MAX_PLAUSIBLE_MS_def test_eval)

text \<open>All twelve unit tests of the clock pass on the model: no \<^verbatim>\<open>unwrap\<close> or \<^verbatim>\<open>assert\<close> of them fails.\<close>

theorem clock_tests_pass: "clock_tests = replicate 12 (Some ())"
  unfolding clock_tests_def using simple_tests network_tests peer_tests mixed_tests by (simp add: numeral_eq_Suc)

end
