(* ===== verification/Load_Tests.thy ===== *)
theory Load_Tests
  imports Curve Retry
begin

text \<open>
  The unit tests of \<^verbatim>\<open>adaptive.rs\<close>, \<^verbatim>\<open>retry.rs\<close> and \<^verbatim>\<open>governor.rs\<close> on the model, statement by statement;
  \<open>None\<close> is a failed \<^verbatim>\<open>unwrap\<close> or \<^verbatim>\<open>assert\<close>.
\<close>

section \<open>Load tiers\<close>

definition engine :: policy_engine where
  "engine = pe_new th_default"

definition sample :: "u32 \<Rightarrow> rat \<Rightarrow> metrics" where
  "sample group_size rate = \<lparr>mt_group_size = group_size, mt_msg_rate = Fin rate\<rparr>"

text \<open>\<^verbatim>\<open>assert_eq!(e.observe(m), t)\<close>.\<close>

definition expect_tier :: "policy_engine \<Rightarrow> metrics \<Rightarrow> tier \<Rightarrow> policy_engine option" where
  "expect_tier e m t = do { (t', e') \<leftarrow> observe e m; _ \<leftarrow> require (t' = t); Some e' }"

fun expect_tiers :: "nat \<Rightarrow> policy_engine \<Rightarrow> metrics \<Rightarrow> tier \<Rightarrow> policy_engine option" where
  "expect_tiers 0 e m t = Some e"
| "expect_tiers (Suc n) e m t = do { e' \<leftarrow> expect_tier e m t; expect_tiers n e' m t }"

definition light_by_default :: "unit option" where
  "light_by_default = do { _ \<leftarrow> expect_tier engine (sample 10 1) Light; Some () }"

definition promotes_on_group_size_or_rate :: "unit option" where
  "promotes_on_group_size_or_rate = do {
     _ \<leftarrow> expect_tier engine (sample 60 1) Medium;
     _ \<leftarrow> expect_tier engine (sample 10 25) Medium;
     Some ()
   }"

definition promotes_to_heavy_at_4x :: "unit option" where
  "promotes_to_heavy_at_4x = do {
     _ \<leftarrow> expect_tier engine (sample 201 1) Heavy;
     _ \<leftarrow> expect_tier engine (sample 10 100) Heavy;
     Some ()
   }"

definition demotion_requires_sustained_low_per_level :: "unit option" where
  "demotion_requires_sustained_low_per_level = do {
     e \<leftarrow> expect_tier engine (sample 201 1) Heavy;
     e \<leftarrow> expect_tiers 4 e (sample 10 1) Heavy;
     e \<leftarrow> expect_tier e (sample 10 1) Medium;
     e \<leftarrow> expect_tiers 4 e (sample 10 1) Medium;
     e \<leftarrow> expect_tier e (sample 10 1) Light;
     Some ()
   }"

definition bounce_does_not_flicker :: "unit option" where
  "bounce_does_not_flicker = do {
     (_, e) \<leftarrow> observe engine (sample 60 1);
     (_, e) \<leftarrow> observe e (sample 10 1);
     _ \<leftarrow> expect_tier e (sample 60 1) Medium;
     Some ()
   }"

definition manual_lock_overrides_metrics :: "unit option" where
  "manual_lock_overrides_metrics = do {
     e \<leftarrow> expect_tier (engine\<lparr>pe_locked := Some Heavy\<rparr>) (sample 1 0) Heavy;
     _ \<leftarrow> expect_tier (e\<lparr>pe_locked := Some Light\<rparr>) (sample 999 999) Light;
     Some ()
   }"

section \<open>Retries\<close>

text \<open>One turn of the sampling loop, for the random bytes it draws.\<close>

definition delay_in_bounds :: "u32 \<Rightarrow> bytes \<Rightarrow> unit option" where
  "delay_in_bounds attempt buf = do {
     r \<leftarrow> next_delay_ms rp_default attempt (Inr buf);
     d \<leftarrow> unwrap r;
     _ \<leftarrow> require (d \<ge> rp_base_delay_ms rp_default);
     let cap = min (sat_mul (rp_base_delay_ms rp_default) (push_bit (unat (attempt - 1)) 1)) (rp_max_delay_ms rp_default);
     require (d \<le> cap)
   }"

text \<open>\<^verbatim>\<open>for .. { .. }\<close>: the turns one after the other.\<close>

fun in_turn :: "unit option list \<Rightarrow> unit option" where
  "in_turn [] = Some ()"
| "in_turn (t # ts) = do { _ \<leftarrow> t; in_turn ts }"

definition late_delay :: "bytes \<Rightarrow> unit option" where
  "late_delay buf = do {
     r \<leftarrow> next_delay_ms rp_default 7 (Inr buf);
     d \<leftarrow> unwrap r;
     require (d \<ge> rp_base_delay_ms rp_default \<and> d \<le> rp_max_delay_ms rp_default)
   }"

definition delay_grows_exponentially_within_cap :: "(nat \<Rightarrow> nat \<Rightarrow> bytes) \<Rightarrow> unit option" where
  "delay_grows_exponentially_within_cap rnd = do {
     _ \<leftarrow> in_turn (concat (map (\<lambda>a. map (\<lambda>k. delay_in_bounds (word_of_nat a) (rnd a k)) [0..<32]) [1..<7]));
     in_turn (map (\<lambda>k. late_delay (rnd 7 k)) [0..<16])
   }"

definition exhaustion_and_guards :: "string + bytes \<Rightarrow> unit option" where
  "exhaustion_and_guards rng = do {
     let p = rp_default;
     _ \<leftarrow> require (\<not> exhausted p 0);
     _ \<leftarrow> require (\<not> exhausted p 7);
     _ \<leftarrow> require (exhausted p 8);
     r0 \<leftarrow> next_delay_ms p 0 rng;
     _ \<leftarrow> require (isl r0);
     r8 \<leftarrow> next_delay_ms p 8 rng;
     require (isl r8)
   }"

section \<open>The governor\<close>

definition full_share_is_15_percent :: "unit option" where
  "full_share_is_15_percent = do {
     let g = gv_new 120;
     _ \<leftarrow> require (share g = STRANGER_SHARE_FULL);
     require (budget_per_min g = 18)
   }"

text \<open>The loop over falling percentages; \<^verbatim>\<open>prev - share\<close> is a rounded difference, \<^verbatim>\<open>prev + 1e-9\<close> a rounded sum.\<close>

fun battery_loop :: "u8 list \<Rightarrow> rat \<Rightarrow> u8 \<Rightarrow> governor \<Rightarrow> (u8 \<times> governor) option" where
  "battery_loop [] prev prev_batt g = Some (prev_batt, g)"
| "battery_loop (b # bs) prev prev_batt g = do {
     let g = set_battery g (Some b) False;
     let s = share g;
     _ \<leftarrow> require (\<bar>f64 (prev - s)\<bar> < f64 (1 / 100));
     _ \<leftarrow> require (STRANGER_SHARE_FLOOR \<le> s \<and> s \<le> STRANGER_SHARE_FULL);
     _ \<leftarrow> require (s \<le> f64 (prev + f64 (1 / 1000000000)));
     battery_loop bs s b g
   }"

definition battery_curve_is_continuous_and_lands_on_floor :: "unit option" where
  "battery_curve_is_continuous_and_lands_on_floor = do {
     let g = gv_new 120;
     (prev_batt, g) \<leftarrow> battery_loop (map word_of_nat (rev [1..<101])) (share g) 100 g;
     _ \<leftarrow> require (prev_batt = 1);
     require (share g = STRANGER_SHARE_FLOOR)
   }"

definition curve_midpoint_is_between_floor_and_full :: "unit option" where
  "curve_midpoint_is_between_floor_and_full = do {
     let g = set_battery (gv_new 120) (Some 20) False;
     let s = share g;
     _ \<leftarrow> require (s > STRANGER_SHARE_FLOOR \<and> s < STRANGER_SHARE_FULL);
     require (budget_per_min g = round_u32 (f64 (120 * s)))
   }"

definition charging_low_battery_stays_full :: "unit option" where
  "charging_low_battery_stays_full =
     (let g = set_battery (gv_new 120) (Some 10) True in require (share g = STRANGER_SHARE_FULL))"

definition full_load_lands_on_floor :: "unit option" where
  "full_load_lands_on_floor = do {
     let g = set_battery (gv_new 120) (Some 100) False;
     let g = set_load g (Fin 1);
     _ \<leftarrow> require (share g = STRANGER_SHARE_FLOOR);
     let g = set_load g (Fin (1 / 2));
     require (share g = STRANGER_SHARE_FULL)
   }"

fun register_all :: "u8 list \<Rightarrow> governor \<Rightarrow> int \<Rightarrow> governor option" where
  "register_all [] g t = Some g"
| "register_all (i # is) g t = do { g' \<leftarrow> register_sender g (replicate 32 i) t; register_all is g' t }"

definition per_sender_cap_degrades_to_floor_as_crowd_grows :: "unit option" where
  "per_sender_cap_degrades_to_floor_as_crowd_grows = do {
     let g = gv_new 120;
     _ \<leftarrow> require (per_sender_cap g = Some 18);
     g \<leftarrow> register_all (map word_of_nat [0..<6]) g 1000;
     _ \<leftarrow> require (per_sender_cap g = Some 6);
     g \<leftarrow> register_all (map word_of_nat [6..<20]) g 1000;
     require (per_sender_cap g = Some 6)
   }"

text \<open>\<^verbatim>\<open>for _ in 0..n { assert!(g.allow_send(..)) }\<close>.\<close>

fun sends_pass :: "nat \<Rightarrow> governor \<Rightarrow> node_id \<Rightarrow> int \<Rightarrow> governor option" where
  "sends_pass 0 g peer t = Some g"
| "sends_pass (Suc n) g peer t = do { (ok, g') \<leftarrow> allow_send g peer t; _ \<leftarrow> require ok; sends_pass n g' peer t }"

definition send_tokens_refill_per_minute_and_block_bursts :: "unit option" where
  "send_tokens_refill_per_minute_and_block_bursts = do {
     let peer = replicate 32 1;
     g \<leftarrow> register_sender (gv_new 40) peer 0;
     g \<leftarrow> sends_pass 6 g peer 1000;
     (ok, g) \<leftarrow> allow_send g peer 1000;
     _ \<leftarrow> require (\<not> ok);
     g \<leftarrow> sends_pass 6 g peer 61000;
     (ok, g) \<leftarrow> allow_send g peer 61000;
     require (\<not> ok)
   }"

definition send_and_recv_are_independent_buckets :: "unit option" where
  "send_and_recv_are_independent_buckets = do {
     let peer = replicate 32 1;
     g \<leftarrow> register_sender (gv_new 40) peer 0;
     g \<leftarrow> sends_pass 6 g peer 1000;
     (ok, g) \<leftarrow> allow_send g peer 1000;
     _ \<leftarrow> require (\<not> ok);
     (ok, g) \<leftarrow> allow_recv g peer 1000;
     require ok
   }"

definition degradation_clamps_existing_tokens_immediately :: "unit option" where
  "degradation_clamps_existing_tokens_immediately = do {
     let peer = replicate 32 1;
     g \<leftarrow> register_sender (gv_new 40) peer 0;
     g \<leftarrow> sends_pass 6 g peer 1000;
     let g = set_battery g (Some 2) False;
     (ok, g) \<leftarrow> allow_send g peer 1100;
     require (\<not> ok)
   }"

definition load_tests :: "(nat \<Rightarrow> nat \<Rightarrow> bytes) \<Rightarrow> string + bytes \<Rightarrow> unit option list" where
  "load_tests rnd rng = [light_by_default, promotes_on_group_size_or_rate, promotes_to_heavy_at_4x,
     demotion_requires_sustained_low_per_level, bounce_does_not_flicker, manual_lock_overrides_metrics,
     delay_grows_exponentially_within_cap rnd, exhaustion_and_guards rng,
     full_share_is_15_percent, battery_curve_is_continuous_and_lands_on_floor, curve_midpoint_is_between_floor_and_full,
     charging_low_battery_stays_full, full_load_lands_on_floor, per_sender_cap_degrades_to_floor_as_crowd_grows,
     send_tokens_refill_per_minute_and_block_bursts, send_and_recv_are_independent_buckets,
     degradation_clamps_existing_tokens_immediately]"

text \<open>A governor of capacity 40 with one sender.\<close>

definition one_sender :: "rat \<Rightarrow> rat \<Rightarrow> int \<Rightarrow> governor" where
  "one_sender a b t = (gv_new 40)\<lparr>gv_senders := [(replicate 32 1, \<lparr>sq_send_tokens = a, sq_recv_tokens = b, sq_last_refill_ms = t\<rparr>)]\<rparr>"

section \<open>They pass\<close>

lemmas tier_eval = engine_def sample_def expect_tier_def require_def pe_new_def th_default_def DEFAULT_GROUP_MEDIUM_def
  DEFAULT_RATE_MEDIUM_def DEFAULT_DEMOTE_SAMPLES_def observe_def demanded_def Let_def sat_mul_def chk_add_def pe_tier_def
  word_le_nat_alt

lemma expect_four: "expect_tiers 4 e m t = do { e \<leftarrow> expect_tier e m t; e \<leftarrow> expect_tier e m t; e \<leftarrow> expect_tier e m t; expect_tier e m t }"
  by (simp add: numeral_eq_Suc)

lemma tier_tests: "light_by_default = Some ()" "promotes_on_group_size_or_rate = Some ()" "promotes_to_heavy_at_4x = Some ()"
  "demotion_requires_sustained_low_per_level = Some ()" "bounce_does_not_flicker = Some ()" "manual_lock_overrides_metrics = Some ()"
  by (simp_all add: light_by_default_def promotes_on_group_size_or_rate_def promotes_to_heavy_at_4x_def
      demotion_requires_sustained_low_per_level_def bounce_does_not_flicker_def manual_lock_overrides_metrics_def expect_four tier_eval)

lemma in_turn_pass: "(\<And>t. t \<in> set ts \<Longrightarrow> t = Some ()) \<Longrightarrow> in_turn ts = Some ()"
  by (induction ts) (auto simp: bind_eq_Some_conv)

lemma delay_attempt:
  assumes "a \<in> {1..<7}"
  shows "delay_in_bounds (word_of_nat a) buf = Some ()"
proof -
  let ?a = "word_of_nat a :: u32"
  have "a = 1 \<or> a = 2 \<or> a = 3 \<or> a = 4 \<or> a = 5 \<or> a = 6" using assms by (simp, arith)
  then have a: "unat ?a = a" "unat (?a - 1) = a - 1" by auto
  then have "?a \<noteq> 0" "?a < rp_max_attempts rp_default" using assms by (auto simp: rp_default_def word_less_nat_alt)
  then obtain d where d: "next_delay_ms rp_default ?a (Inr buf) = Some (Inr d)" "unat (rp_base_delay_ms rp_default) \<le> unat d"
    "unat d \<le> unat (delay_cap rp_default ?a)"
    using next_delay_value [of ?a rp_default "Inr buf" buf] by blast
  have le: "a - Suc 0 \<le> 20" using assms by auto
  have "unat (push_bit (a - 1) (1 :: u64)) = 2 ^ (a - 1)" using assms by (intro unat_shift20) auto
  then have "unat (min (sat_mul (rp_base_delay_ms rp_default) (push_bit (unat (?a - 1)) 1)) (rp_max_delay_ms rp_default)) = unat (delay_cap rp_default ?a)"
    using a le by (simp add: unat_delay_cap rp_default_def min_def word_le_nat_alt unat_sat_mul)
  then show ?thesis using d by (simp add: delay_in_bounds_def require_def word_le_nat_alt Let_def)
qed

lemma retry_tests: "delay_grows_exponentially_within_cap rnd = Some ()" "exhaustion_and_guards rng = Some ()"
proof -
  have "late_delay buf = Some ()" for buf
  proof -
    obtain d where d: "next_delay_ms rp_default 7 (Inr buf) = Some (Inr d)" "unat (rp_base_delay_ms rp_default) \<le> unat d"
      "unat d \<le> unat (delay_cap rp_default 7)"
      using next_delay_value [of 7 rp_default "Inr buf" buf] by (auto simp: rp_default_def)
    have "unat (delay_cap rp_default 7) \<le> unat (rp_max_delay_ms rp_default)" by (simp add: unat_delay_cap rp_default_def)
    then show ?thesis using d by (simp add: late_delay_def require_def word_le_nat_alt)
  qed
  moreover have "in_turn (concat (map (\<lambda>a. map (\<lambda>k. delay_in_bounds (word_of_nat a) (rnd a k)) [0..<32]) [1..<7])) = Some ()"
    by (rule in_turn_pass) (auto simp: delay_attempt)
  ultimately show "delay_grows_exponentially_within_cap rnd = Some ()"
    by (auto simp: delay_grows_exponentially_within_cap_def intro!: in_turn_pass)
  show "exhaustion_and_guards rng = Some ()"
    by (simp add: exhaustion_and_guards_def require_def exhausted_def rp_default_def next_delay_ms_def Let_def)
qed

section \<open>The governor's tests pass\<close>

lemma budgets: "budget_per_min (gv_new 120) = 18" "budget_per_min (gv_new 40) = 6"
  "budget_per_min (set_battery (gv_new 40) (Some 2) False) = 1"
  by code_simp+

lemma fresh_load: "load_share (set_battery (gv_new n) p c) = STRANGER_SHARE_FULL" "load_share (gv_new n) = STRANGER_SHARE_FULL"
  by (simp_all add: load_share_def set_battery_def gv_new_def LOAD_CURVE_START_def fl32_nonneg)

lemma fresh_full: "share (gv_new n) = STRANGER_SHARE_FULL" "share (set_battery (gv_new n) (Some 10) True) = STRANGER_SHARE_FULL"
  by (simp_all add: share_def fresh_load) (simp_all add: battery_share_def gv_new_def set_battery_def BATTERY_CURVE_START_def)

lemma simple_governor_tests: "full_share_is_15_percent = Some ()" "curve_midpoint_is_between_floor_and_full = Some ()"
  "charging_low_battery_stays_full = Some ()" "full_load_lands_on_floor = Some ()"
proof -
  show "full_share_is_15_percent = Some ()" by (simp add: full_share_is_15_percent_def fresh_full budgets require_def Let_def)
  let ?g = "set_battery (gv_new 120) (Some 20) False"
  have "\<bar>battery_share ?g - exact_share (unat (20 :: u8))\<bar> \<le> 1 / 10 ^ 13"
    by (rule battery_share_error) (simp_all add: set_battery_def)
  then have "STRANGER_SHARE_FLOOR < battery_share ?g" "battery_share ?g < STRANGER_SHARE_FULL"
    by (simp_all add: exact_share_def exact_step_def share_constants abs_if split: if_splits)
  then have "share ?g > STRANGER_SHARE_FLOOR" "share ?g < STRANGER_SHARE_FULL"
    using share_order by (simp_all add: share_def fresh_load)
  then show "curve_midpoint_is_between_floor_and_full = Some ()"
    by (simp add: curve_midpoint_is_between_floor_and_full_def require_def Let_def budget_per_min_def set_battery_def gv_new_def)
  show "charging_low_battery_stays_full = Some ()" by (simp add: charging_low_battery_stays_full_def fresh_full require_def)
  show "full_load_lands_on_floor = Some ()" by code_simp
qed

lemma one_sender_price: "per_sender_cap (one_sender a b t) = Some 6"
  "per_sender_cap (set_battery (one_sender a b t) (Some 2) False) = Some 6"
proof -
  have eq: "set_battery (one_sender a b t) (Some 2) False
      = (set_battery (gv_new 40) (Some 2) False)\<lparr>gv_senders := [(replicate 32 1, \<lparr>sq_send_tokens = a, sq_recv_tokens = b, sq_last_refill_ms = t\<rparr>)]\<rparr>"
    by (simp add: one_sender_def set_battery_def)
  show "per_sender_cap (one_sender a b t) = Some 6"
    unfolding one_sender_def using budgets(2)
    by (simp add: per_sender_cap_def hm_len_def FLOOR_PER_SENDER_def budget_per_min_def share_same)
  show "per_sender_cap (set_battery (one_sender a b t) (Some 2) False) = Some 6"
    unfolding eq using budgets(3)
    by (simp add: per_sender_cap_def hm_len_def FLOOR_PER_SENDER_def budget_per_min_def share_same)
qed

lemma cap_six: "f64 (6 * BUCKET_CAPACITY_FACTOR) = 6"
  using cap_exact [of 6] by simp

lemma exact_nat: "n < 2 ^ 53 \<Longrightarrow> f64 (rat_of_nat n) = rat_of_nat n"
  by (intro fl_exact rep_of_nat)

lemma small_exact: "f64 5 = 5" "f64 4 = 4" "f64 3 = 3" "f64 2 = 2" "f64 1 = 1" "f64 6 = 6" "f64 60000 = 60000" "f64 100 = 100"
  using exact_nat [of 5] exact_nat [of 4] exact_nat [of 3] exact_nat [of 2] exact_nat [of 1] exact_nat [of 6] exact_nat [of 60000]
    exact_nat [of 100] by simp_all

text \<open>What a refill does to the one bucket, for a price of six.\<close>

lemma refill_one_sender:
  assumes "per_sender_cap g = Some 6" and "gv_senders g = [(k, q)]" and "in_i64 (t - sq_last_refill_ms q)"
  shows "refill_all g t = Some (g\<lparr>gv_senders := [(k, shrink_one 6 (refill_one 6 (f64 (6 / 60000)) t q))]\<rparr>)"
  using assms by (simp add: refill_all_def cap_six REFILL_INTERVAL_MS_def hm_values_def i64_chk_def Let_def)

lemma refill_same: "a \<le> 6 \<Longrightarrow> b \<le> 6 \<Longrightarrow> refill_all (one_sender a b t) t = Some (one_sender a b t)"
  using refill_one_sender [OF one_sender_price(1), of a b t "replicate 32 1" _ t]
  by (simp add: one_sender_def in_i64_def i64_min_def i64_max_def refill_one_stays shrink_one_stays)

lemma allow_send_same:
  "a \<le> 6 \<Longrightarrow> b \<le> 6 \<Longrightarrow> allow_send (one_sender a b t) (replicate 32 1) t
    = Some (1 \<le> a, one_sender (if 1 \<le> a then f64 (a - 1) else a) b t)"
  by (simp add: allow_send_def take_token_def refill_same) (simp add: one_sender_def hm_get_def hm_insert_def Let_def)

lemma allow_recv_same:
  "a \<le> 6 \<Longrightarrow> 1 \<le> b \<Longrightarrow> b \<le> 6 \<Longrightarrow> \<exists>g. allow_recv (one_sender a b t) (replicate 32 1) t = Some (True, g)"
  by (simp add: allow_recv_def take_token_def refill_same) (simp add: one_sender_def hm_get_def hm_insert_def Let_def)

text \<open>After a refill to six tokens, six messages pass and the seventh does not.\<close>

lemma take_refilled: "refill_all g t = Some g' \<Longrightarrow> refill_all g' t = Some g' \<Longrightarrow> take_token g peer t b = take_token g' peer t b"
  by (simp add: take_token_def)

lemma six_pass:
  assumes "refill_all g t = Some (one_sender 6 b t)" and "b \<le> 6"
  shows "sends_pass 6 g (replicate 32 1) t = Some (one_sender 0 b t)"
proof -
  have "allow_send g (replicate 32 1) t = allow_send (one_sender 6 b t) (replicate 32 1) t"
    unfolding allow_send_def using assms by (intro take_refilled refill_same) simp_all
  moreover have six: "(6 :: nat) = Suc (Suc (Suc (Suc (Suc (Suc 0)))))" by simp
  ultimately show ?thesis
    unfolding six using assms(2) by (simp add: allow_send_same small_exact require_def)
qed

lemma registered: "register_sender (gv_new 40) (replicate 32 1) 0 = Some (one_sender 6 6 0)"
proof -
  have "per_sender_cap (gv_new 40) = Some 6"
    using budgets(2) by (simp add: per_sender_cap_def gv_new_def hm_len_def FLOOR_PER_SENDER_def)
  then show ?thesis
    by (simp add: register_sender_def one_sender_def) (simp add: gv_new_def hm_contains_def hm_get_def hm_insert_def)
qed

lemma first_refill: "refill_all (one_sender 6 6 0) 1000 = Some (one_sender 6 6 1000)"
proof -
  have "6 \<le> f64 (6 + f64 (f64 1000 * f64 (6 / 60000)))"
    using rep_of_nat [of 6 53] by (intro fl64_ge) (simp_all add: fl64_nonneg)
  moreover have "0 < f64 1000" by (rule fl64_pos) simp
  ultimately show ?thesis
    using refill_one_sender [OF one_sender_price(1), of 6 6 0 "replicate 32 1" _ 1000]
    by (simp add: one_sender_def in_i64_def i64_min_def i64_max_def refill_one_def shrink_one_def Let_def min_def)
qed

lemma minute_refill: "refill_all (one_sender 0 6 1000) 61000 = Some (one_sender 6 6 61000)"
proof -
  have "f64 (60000 * f64 (1 / 10000)) = 6" using six_per_minute by simp
  moreover have "6 \<le> f64 (6 + 6 :: rat)" using rep_of_nat [of 6 53] by (intro fl64_ge) simp_all
  ultimately show ?thesis
    using refill_one_sender [OF one_sender_price(1), of 0 6 1000 "replicate 32 1" _ 61000]
    by (simp add: one_sender_def in_i64_def i64_min_def i64_max_def refill_one_def shrink_one_def Let_def min_def small_exact)
qed

lemma bucket_tests: "send_tokens_refill_per_minute_and_block_bursts = Some ()" "send_and_recv_are_independent_buckets = Some ()"
proof -
  show "send_tokens_refill_per_minute_and_block_bursts = Some ()"
    by (simp add: send_tokens_refill_per_minute_and_block_bursts_def registered six_pass [OF first_refill] six_pass [OF minute_refill]
        allow_send_same require_def Let_def)
  obtain g where "allow_recv (one_sender 0 6 1000) (replicate 32 1) 1000 = Some (True, g)"
    using allow_recv_same [of 0 6 1000] by auto
  then show "send_and_recv_are_independent_buckets = Some ()"
    by (simp add: send_and_recv_are_independent_buckets_def registered six_pass [OF first_refill] allow_send_same require_def Let_def)
qed

lemma degradation_test: "degradation_clamps_existing_tokens_immediately = Some ()"
proof -
  let ?g = "set_battery (one_sender 0 6 1000) (Some 2) False"
  have "\<not> 1 \<le> min (f64 (f64 (100 * f64 (1 / 10000)))) 6" by code_simp
  moreover have "gv_senders ?g = [(replicate 32 1, \<lparr>sq_send_tokens = 0, sq_recv_tokens = 6, sq_last_refill_ms = 1000\<rparr>)]"
    by (simp add: one_sender_def set_battery_def)
  ultimately have "\<exists>g. allow_send ?g (replicate 32 1) 1100 = Some (False, g)"
    using refill_one_sender [OF one_sender_price(2), of 0 6 1000 "replicate 32 1" _ 1100]
    by (simp add: allow_send_def take_token_def in_i64_def i64_min_def i64_max_def refill_one_def shrink_one_def Let_def small_exact hm_get_def)
  then show ?thesis
    by (auto simp: degradation_clamps_existing_tokens_immediately_def registered six_pass [OF first_refill] require_def Let_def)
qed

lemma share_bounds: "STRANGER_SHARE_FLOOR \<le> share g" "share g \<le> STRANGER_SHARE_FULL"
  using battery_share_bounds [of g] load_share_bounds [of g] by (auto simp: share_def)

lemma battery_turn:
  assumes "\<bar>prev - s\<bar> < 7 / 1000" and "s \<le> prev + 1 / 10 ^ 12" and "0 \<le> prev" and "prev \<le> 1"
  shows "\<bar>f64 (prev - s)\<bar> < f64 (1 / 100) \<and> s \<le> f64 (prev + f64 (1 / 1000000000))"
proof -
  have e: "\<bar>f64 (prev - s) - (prev - s)\<bar> \<le> 1 / 10 ^ 15" "\<bar>f64 (1 / 100) - 1 / 100\<bar> \<le> 1 / 10 ^ 15"
    "\<bar>f64 (1 / 1000000000) - 1 / 1000000000\<bar> \<le> 1 / 10 ^ 15"
    using assms(1) by (intro fl64_error; simp)+
  then have "\<bar>prev + f64 (1 / 1000000000)\<bar> < 4" using assms(3,4) by (simp add: abs_if split: if_splits)
  then have "\<bar>f64 (prev + f64 (1 / 1000000000)) - (prev + f64 (1 / 1000000000))\<bar> \<le> 1 / 10 ^ 15" by (rule fl64_error)
  then show ?thesis using e assms(1,2) by (simp add: abs_if split: if_splits)
qed

lemma battery_loop_passes:
  assumes "m \<le> 100" and "unat q = m \<or> unat q = Suc m"
  shows "battery_loop (map word_of_nat (rev [1..<Suc m])) (share (set_battery g (Some q) False)) p (set_battery g (Some p) False)
    = Some (if m = 0 then p else 1, set_battery g (Some (if m = 0 then p else 1)) False)"
  using assms
proof (induction m arbitrary: p q)
  case (Suc m)
  define b where "b = (word_of_nat (Suc m) :: u8)"
  have b: "unat b = Suc m" unfolding b_def unat_of_nat using Suc.prems(1) by simp
  let ?sh = "\<lambda>p. share (set_battery g (Some p) False)"
  have "\<bar>?sh q - ?sh b\<bar> < 7 / 1000 \<and> ?sh b \<le> ?sh q + 1 / 10 ^ 12"
  proof (cases "q = b")
    case False
    then have "unat q = Suc (unat b)" using Suc.prems(2) b by (auto simp: word_unat_eq_iff)
    then show ?thesis by (rule battery_curve_step)
  qed simp
  moreover have "0 \<le> ?sh q" "?sh q \<le> 1" using share_bounds [of "set_battery g (Some q) False"] by (simp_all add: share_constants)
  ultimately have turn: "\<bar>f64 (?sh q - ?sh b)\<bar> < f64 (1 / 100) \<and> ?sh b \<le> f64 (?sh q + f64 (1 / 1000000000))"
    by (intro battery_turn) simp_all
  have again: "set_battery (set_battery g x c) y c' = set_battery g y c'" for x y c c' by (simp add: set_battery_def)
  have "rev [1..<Suc (Suc m)] = Suc m # rev [1..<Suc m]" by simp
  then have "battery_loop (map word_of_nat (rev [1..<Suc (Suc m)])) (?sh q) p (set_battery g (Some p) False)
      = battery_loop (map word_of_nat (rev [1..<Suc m])) (?sh b) b (set_battery g (Some b) False)"
    using turn share_bounds [of "set_battery g (Some b) False"]
    by (simp only: list.map battery_loop.simps b_def [symmetric] Let_def again require_def) simp
  also have "\<dots> = Some (if m = 0 then b else 1, set_battery g (Some (if m = 0 then b else 1)) False)"
    using Suc.prems(1) b by (intro Suc.IH) simp_all
  also have "(if m = 0 then b else 1) = 1" by (simp add: b_def)
  finally show ?case by simp
qed simp

lemma battery_test: "battery_curve_is_continuous_and_lands_on_floor = Some ()"
proof -
  have g: "gv_new 120 = set_battery (gv_new 120) (Some 100) False" by (simp add: gv_new_def set_battery_def)
  have "[1..<101] = [1..<Suc 100]" by simp
  then have "battery_loop (map word_of_nat (rev [1..<101])) (share (gv_new 120)) 100 (gv_new 120)
      = Some (1, set_battery (gv_new 120) (Some 1) False)"
    using battery_loop_passes [of 100 100 "gv_new 120" 100] g by (simp del: upt_Suc)
  moreover have "share (set_battery (gv_new 120) (Some 1) False) = STRANGER_SHARE_FLOOR"
    using share_order by (simp add: share_def fresh_load)
      (simp add: battery_share_def set_battery_def BATTERY_CURVE_START_def BATTERY_CURVE_END_def)
  ultimately show ?thesis
    by (simp add: battery_curve_is_continuous_and_lands_on_floor_def require_def Let_def)
qed

lemma crowd_price:
  assumes "0 < hm_len s" and "hm_len s < 2 ^ 32"
  shows "per_sender_cap ((gv_new 120)\<lparr>gv_senders := s\<rparr>) = Some (max (18 div word_of_nat (hm_len s)) 6)"
proof -
  have "(word_of_nat (hm_len s) :: u32) \<noteq> 0"
    using assms by (simp add: word_unat_eq_iff unat_of_nat take_bit_nat_eq_self)
  then show ?thesis using assms(1) budgets(1) by (simp add: per_sender_cap_def FLOOR_PER_SENDER_def budget_per_min_def share_same Let_def)
qed

lemma register_all_len:
  assumes "distinct ids" and "\<forall>i \<in> set ids. \<not> hm_contains s (replicate 32 i)" and "hm_len s + length ids < 2 ^ 32"
  shows "\<exists>s'. register_all ids ((gv_new 120)\<lparr>gv_senders := s\<rparr>) t = Some ((gv_new 120)\<lparr>gv_senders := s'\<rparr>)
    \<and> hm_len s' = hm_len s + length ids
    \<and> (\<forall>i. hm_contains s' (replicate 32 i) \<longleftrightarrow> hm_contains s (replicate 32 i) \<or> i \<in> set ids)"
  using assms
proof (induction ids arbitrary: s)
  case Nil
  show ?case by (intro exI [of _ s]) simp
next
  case (Cons i ids)
  let ?g = "(gv_new 120)\<lparr>gv_senders := s\<rparr>"
  obtain c where c: "per_sender_cap ?g = Some c"
  proof (cases "hm_len s = 0")
    case True
    then show ?thesis using that by (simp add: per_sender_cap_def)
  next
    case False
    then show ?thesis using that crowd_price [of s] Cons.prems(3) by simp
  qed
  define q where "q = \<lparr>sq_send_tokens = rat_of_nat (unat c), sq_recv_tokens = rat_of_nat (unat c), sq_last_refill_ms = t\<rparr>"
  have new: "\<not> hm_contains s (replicate 32 i)" using Cons.prems(2) by simp
  define s1 where "s1 = s @ [(replicate 32 i, q)]"
  have ins: "hm_insert (replicate 32 i) q s = s1" using hm_insert_new [OF new] by (simp add: s1_def)
  have reg: "register_sender ?g (replicate 32 i) t = Some ((gv_new 120)\<lparr>gv_senders := s1\<rparr>)"
    using c new ins [unfolded q_def] by (simp add: register_sender_def Let_def)
  have has: "hm_contains s1 (replicate 32 j) \<longleftrightarrow> hm_contains s (replicate 32 j) \<or> j = i" for j
    by (simp add: ins [symmetric] hm_contains_def hm.get_ins)
  have len: "hm_len s1 = Suc (hm_len s)" by (simp add: s1_def hm_len_def)
  obtain s' where "register_all ids ((gv_new 120)\<lparr>gv_senders := s1\<rparr>) t = Some ((gv_new 120)\<lparr>gv_senders := s'\<rparr>)"
    "hm_len s' = hm_len s1 + length ids" "\<forall>i. hm_contains s' (replicate 32 i) \<longleftrightarrow> hm_contains s1 (replicate 32 i) \<or> i \<in> set ids"
    using Cons.IH [of s1] Cons.prems has len by auto
  then show ?case using reg has len by auto
qed

lemma crowd_test: "per_sender_cap_degrades_to_floor_as_crowd_grows = Some ()"
proof -
  have g: "gv_new 120 = (gv_new 120)\<lparr>gv_senders := []\<rparr>" by (simp add: gv_new_def)
  have empty: "per_sender_cap (gv_new 120) = Some 18" using budgets(1)
    by (simp add: per_sender_cap_def hm_len_def FLOOR_PER_SENDER_def gv_new_def)
  have ids: "distinct (map word_of_nat [0..<6] :: u8 list)" "distinct (map word_of_nat [6..<20] :: u8 list)"
    "set (map word_of_nat [0..<6]) \<inter> set (map word_of_nat [6..<20] :: u8 list) = {}" by code_simp+
  obtain s1 where s1: "register_all (map word_of_nat [0..<6]) (gv_new 120) 1000 = Some ((gv_new 120)\<lparr>gv_senders := s1\<rparr>)"
    "hm_len s1 = 6" "\<forall>i :: u8. hm_contains s1 (replicate 32 i) \<longleftrightarrow> i \<in> set (map word_of_nat [0..<6])"
    using register_all_len [OF ids(1), of "[]" 1000] g by (auto simp: hm_contains_def hm_get_def hm_len_def)
  obtain s2 where s2: "register_all (map word_of_nat [6..<20]) ((gv_new 120)\<lparr>gv_senders := s1\<rparr>) 1000 = Some ((gv_new 120)\<lparr>gv_senders := s2\<rparr>)"
    "hm_len s2 = 20"
    using register_all_len [OF ids(2), of s1 1000] s1(2,3) ids(3) by auto
  have "per_sender_cap ((gv_new 120)\<lparr>gv_senders := s1\<rparr>) = Some 6" "per_sender_cap ((gv_new 120)\<lparr>gv_senders := s2\<rparr>) = Some 6"
    using s1(2) s2(2) crowd_price [of s1] crowd_price [of s2] by simp_all
  then show ?thesis
    unfolding per_sender_cap_degrades_to_floor_as_crowd_grows_def Let_def empty s1(1) bind.bind_lunit s2(1) require_def by simp
qed

text \<open>
  All tests of the load tiers and the governor and the deterministic tests of the retry policy pass on the
  model, for every sequence of random bytes. (The one left out asserts that random delays differ.)
\<close>

theorem load_tests_pass: "load_tests rnd rng = replicate 17 (Some ())"
  unfolding load_tests_def tier_tests retry_tests simple_governor_tests battery_test crowd_test bucket_tests degradation_test
  by (simp add: numeral_eq_Suc)

end
