(* ===== verification/Message_Tests.thy ===== *)
theory Message_Tests
  imports Queue_Db Mailbox
begin

text \<open>
  The unit tests of \<^verbatim>\<open>envelope.rs\<close>, \<^verbatim>\<open>queue.rs\<close> and \<^verbatim>\<open>mailbox.rs\<close> on the model, statement by statement; \<open>None\<close> is
  a failed \<^verbatim>\<open>unwrap\<close> or \<^verbatim>\<open>assert\<close>. The coders, the order of equal rows, the random bytes and the hash are
  parameters. The test of the compression library is left out: it measures that library.
\<close>

section \<open>Envelopes and frames\<close>

definition test_envelope :: "node_id \<Rightarrow> envelope" where
  "test_envelope sender = \<lparr>env_msg_id = replicate 16 7, env_sender = sender, env_recipient = Some (replicate 32 9),
     env_group = None, env_kind = Text, env_body = [1, 2, 3, 4, 5], env_sent_at_ms = 1724000000000, env_ttl_hops = 6\<rparr>"

definition test_cbor_roundtrip :: "(envelope \<Rightarrow> string + bytes) \<Rightarrow> (bytes \<Rightarrow> string + envelope) \<Rightarrow> node_id \<Rightarrow> unit option" where
  "test_cbor_roundtrip ser de sender = do {
     let e = test_envelope sender;
     bytes \<leftarrow> unwrap (to_cbor ser e);
     back \<leftarrow> unwrap (from_cbor de bytes);
     require (e = back)
   }"

text \<open>A slice \<^verbatim>\<open>&f[..n]\<close> panics beyond the end.\<close>

definition slice_to :: "nat \<Rightarrow> bytes \<Rightarrow> bytes option" where
  "slice_to n f = (if n \<le> length f then Some (take n f) else None)"

definition frame_roundtrip_partial_feed :: "(envelope \<Rightarrow> string + bytes) \<Rightarrow> (bytes \<Rightarrow> string + envelope) \<Rightarrow> node_id \<Rightarrow> unit option" where
  "frame_roundtrip_partial_feed ser de sender = do {
     let e = test_envelope sender;
     cbor \<leftarrow> unwrap (to_cbor ser e);
     f \<leftarrow> frame cbor;
     f1 \<leftarrow> slice_to (length f - 1) f;
     r1 \<leftarrow> unwrap (unframe f1);
     _ \<leftarrow> require (r1 = None);
     f2 \<leftarrow> slice_to 3 f;
     r2 \<leftarrow> unwrap (unframe f2);
     _ \<leftarrow> require (r2 = None);
     r \<leftarrow> unwrap (unframe f);
     (payload, consumed) \<leftarrow> r;
     _ \<leftarrow> require (consumed = length f);
     back \<leftarrow> unwrap (from_cbor de payload);
     require (back = e)
   }"

definition frame_back_to_back :: "(envelope \<Rightarrow> string + bytes) \<Rightarrow> (bytes \<Rightarrow> string + envelope) \<Rightarrow> node_id \<Rightarrow> unit option" where
  "frame_back_to_back ser de sender = do {
     let e = test_envelope sender;
     cbor \<leftarrow> unwrap (to_cbor ser e);
     f1 \<leftarrow> frame cbor;
     f2 \<leftarrow> frame cbor;
     let both = f1 @ f2;
     r1 \<leftarrow> unwrap (unframe both);
     (p1, c1) \<leftarrow> r1;
     r2 \<leftarrow> unwrap (unframe (drop c1 both));
     (p2, c2) \<leftarrow> r2;
     b1 \<leftarrow> unwrap (from_cbor de p1);
     _ \<leftarrow> require (b1 = e);
     b2 \<leftarrow> unwrap (from_cbor de p2);
     _ \<leftarrow> require (b2 = e);
     require (c1 + c2 = length both)
   }"

definition unframe_rejects_oversized_declared_length :: "unit option" where
  "unframe_rejects_oversized_declared_length = do {
     let head1 = be_bytes 4 (2 ^ 32 - 1) @ ascii ''junk'';
     _ \<leftarrow> require (isl (unframe head1));
     let head2 = be_bytes 4 (MAX_FRAME_SIZE + 1) @ replicate 16 0;
     require (isl (unframe head2))
   }"

text \<open>\<^verbatim>\<open>assert!(d.check_and_insert(i))\<close> or its negation.\<close>

definition expect_insert :: "dedup \<Rightarrow> u8 \<Rightarrow> bool \<Rightarrow> dedup option" where
  "expect_insert d i fresh = (let (r, d') = check_and_insert d (replicate 16 i) in do { _ \<leftarrow> require (r = fresh); Some d' })"

definition dedup_insert_once_and_evict_fifo :: "unit option" where
  "dedup_insert_once_and_evict_fifo = do {
     d \<leftarrow> expect_insert (dedup_new 3) 1 True;
     d \<leftarrow> expect_insert d 1 False;
     d \<leftarrow> expect_insert d 2 True;
     d \<leftarrow> expect_insert d 3 True;
     d \<leftarrow> expect_insert d 4 True;
     _ \<leftarrow> require (dedup_len d = 3);
     _ \<leftarrow> expect_insert d 1 True;
     Some ()
   }"

section \<open>The queue\<close>

abbreviation calm :: faults where "calm \<equiv> \<lambda>_. None"

definition open_memory :: "string option \<Rightarrow> db option" where
  "open_memory key = unwrap (db_open None (\<lambda>_. None) db_empty '':memory:'' key)"

definition queue_env :: "node_id \<Rightarrow> u8 \<Rightarrow> node_id option \<Rightarrow> envelope" where
  "queue_env sender i recipient = \<lparr>env_msg_id = replicate 16 i, env_sender = sender, env_recipient = recipient,
     env_group = None, env_kind = Text, env_body = [1, 2, 3], env_sent_at_ms = 1000, env_ttl_hops = 6\<rparr>"

definition enqueue_ok :: "envelope \<Rightarrow> db \<Rightarrow> db option" where
  "enqueue_ok e d = (let (r, d') = enqueue calm d e in do { _ \<leftarrow> unwrap r; Some d' })"

definition enqueue_pending_mark_sent :: "(col_error \<Rightarrow> string) \<Rightarrow> (out_row list \<Rightarrow> out_row list) \<Rightarrow> node_id \<Rightarrow> node_id \<Rightarrow> unit option" where
  "enqueue_pending_mark_sent shw ord sender1 sender2 = do {
     d \<leftarrow> open_memory (Some ''test1234'');
     let e1 = queue_env sender1 1 (Some (replicate 32 5));
     let e2 = queue_env sender2 2 None;
     d \<leftarrow> enqueue_ok e1 d;
     d \<leftarrow> enqueue_ok e2 d;
     d \<leftarrow> enqueue_ok e1 d;
     ms \<leftarrow> unwrap (pending shw ord calm d 10);
     _ \<leftarrow> require (length ms = 2);
     let (r, d) = mark_sent calm d (replicate 16 1);
     _ \<leftarrow> unwrap r;
     left \<leftarrow> unwrap (pending shw ord calm d 10);
     _ \<leftarrow> require (length left = 1);
     _ \<leftarrow> require (pr_msg_id (left ! 0) = replicate 16 2);
     s \<leftarrow> unwrap (stats calm d);
     require (s = (1, 0, 0))
   }"

definition dedup_persists :: "unit option" where
  "dedup_persists = do {
     d \<leftarrow> open_memory None;
     let (r1, d) = record_seen calm d (replicate 16 9) 111;
     a \<leftarrow> unwrap r1;
     _ \<leftarrow> require a;
     let (r2, d) = record_seen calm d (replicate 16 9) 222;
     b \<leftarrow> unwrap r2;
     _ \<leftarrow> require (\<not> b);
     (p, q, s) \<leftarrow> unwrap (stats calm d);
     require (s = 1)
   }"

definition order_by_created :: "(col_error \<Rightarrow> string) \<Rightarrow> (out_row list \<Rightarrow> out_row list) \<Rightarrow> node_id \<Rightarrow> node_id \<Rightarrow> unit option" where
  "order_by_created shw ord sender1 sender2 = do {
     d \<leftarrow> open_memory None;
     let late = (queue_env sender1 1 None)\<lparr>env_sent_at_ms := 5000\<rparr>;
     let early = (queue_env sender2 2 None)\<lparr>env_sent_at_ms := 1000\<rparr>;
     d \<leftarrow> enqueue_ok late d;
     d \<leftarrow> enqueue_ok early d;
     rows \<leftarrow> unwrap (pending shw ord calm d 2);
     _ \<leftarrow> require (rows \<noteq> []);
     require (pr_msg_id (rows ! 0) = replicate 16 2)
   }"

definition due_count :: "(col_error \<Rightarrow> string) \<Rightarrow> (out_row list \<Rightarrow> out_row list) \<Rightarrow> db \<Rightarrow> u64 \<Rightarrow> nat \<Rightarrow> unit option" where
  "due_count shw ord d now n = do { ms \<leftarrow> unwrap (due shw ord calm d now 10); require (length ms = n) }"

text \<open>\<^verbatim>\<open>assert_eq!(db.fail_and_reschedule(..).unwrap(), dead)\<close>, for the random bytes it draws.\<close>

definition fail_once :: "bytes \<Rightarrow> retry_policy \<Rightarrow> u64 \<Rightarrow> bool \<Rightarrow> db \<Rightarrow> db option" where
  "fail_once rnd p now dead d = do {
     (r, d') \<leftarrow> fail_and_reschedule calm (Inr rnd) d (replicate 16 1) p now;
     x \<leftarrow> unwrap r;
     _ \<leftarrow> require (x = dead);
     Some d'
   }"

definition retry_schedule_due_dead_and_revive :: "(col_error \<Rightarrow> string) \<Rightarrow> (out_row list \<Rightarrow> out_row list) \<Rightarrow> (nat \<Rightarrow> bytes)
    \<Rightarrow> node_id \<Rightarrow> unit option" where
  "retry_schedule_due_dead_and_revive shw ord rnd sender = do {
     d \<leftarrow> open_memory None;
     let policy = \<lparr>rp_max_attempts = 3, rp_base_delay_ms = 100, rp_max_delay_ms = 400\<rparr>;
     d \<leftarrow> enqueue_ok (queue_env sender 1 None) d;
     _ \<leftarrow> due_count shw ord d 1000 1;
     d \<leftarrow> fail_once (rnd 0) policy 1000 False d;
     _ \<leftarrow> due_count shw ord d 1000 0;
     _ \<leftarrow> due_count shw ord d 2000 1;
     d \<leftarrow> fail_once (rnd 1) policy 2000 False d;
     d \<leftarrow> fail_once (rnd 2) policy 3000 True d;
     _ \<leftarrow> due_count shw ord d 99999 0;
     s1 \<leftarrow> unwrap (stats calm d);
     _ \<leftarrow> require (s1 = (0, 1, 0));
     let (r, d) = revive calm d (replicate 16 1);
     _ \<leftarrow> unwrap r;
     _ \<leftarrow> due_count shw ord d 99999 1;
     s2 \<leftarrow> unwrap (stats calm d);
     require (s2 = (1, 0, 0))
   }"

section \<open>The mailbox\<close>

definition mailbox_envelope :: "node_id \<Rightarrow> envelope" where
  "mailbox_envelope sender = \<lparr>env_msg_id = replicate 16 1, env_sender = sender, env_recipient = Some (replicate 32 9),
     env_group = None, env_kind = Text, env_body = replicate 64 7, env_sent_at_ms = 0, env_ttl_hops = 6\<rparr>"

text \<open>\<^verbatim>\<open>w.verify(&secret, now).unwrap()\<close> and \<^verbatim>\<open>assert!(w.verify(&secret, now).is_err())\<close>.\<close>

definition verifies :: "(bytes \<Rightarrow> bytes \<Rightarrow> bytes) \<Rightarrow> bytes \<Rightarrow> u64 \<Rightarrow> bucket_write \<Rightarrow> unit option" where
  "verifies keyed secret now w = unwrap (bw_verify keyed w secret now)"

definition refused :: "(bytes \<Rightarrow> bytes \<Rightarrow> bytes) \<Rightarrow> bytes \<Rightarrow> u64 \<Rightarrow> bucket_write \<Rightarrow> unit option" where
  "refused keyed secret now w = require (isl (bw_verify keyed w secret now))"

definition cbor_roundtrip_preserves_mac where
  "cbor_roundtrip_preserves_mac ser de derive keyed sender bucket = do {
     let secret = derive_mailbox_secret derive (ascii ''hs'') bucket 1;
     let w = seal keyed (mailbox_envelope sender) secret 1 1000 (replicate 16 6);
     bytes \<leftarrow> unwrap (bw_to_cbor ser w);
     back \<leftarrow> unwrap (bw_from_cbor de bytes);
     _ \<leftarrow> require (w = back);
     verifies keyed secret 1000 back
   }"

definition seal_verify_roundtrip where
  "seal_verify_roundtrip derive keyed sender bucket = do {
     let secret = derive_mailbox_secret derive (ascii ''handshake-abc'') bucket 1;
     let w = seal keyed (mailbox_envelope sender) secret 1 1000 (replicate 16 2);
     _ \<leftarrow> verifies keyed secret (1000 + REPLAY_WINDOW_MS - 1) w;
     verifies keyed secret 1000 w
   }"

definition wrong_key_or_tamper_rejected where
  "wrong_key_or_tamper_rejected derive keyed sender bucket = do {
     let secret = derive_mailbox_secret derive (ascii ''hs'') bucket 1;
     let w = seal keyed (mailbox_envelope sender) secret 1 1000 (replicate 16 3);
     let other = derive_mailbox_secret derive (ascii ''hs'') bucket 2;
     _ \<leftarrow> refused keyed other 1000 w;
     let w = w\<lparr>bw_envelope := (bw_envelope w)\<lparr>env_body := env_body (bw_envelope w) @ [1]\<rparr>\<rparr>;
     _ \<leftarrow> refused keyed secret 1000 w;
     let w2 = seal keyed (mailbox_envelope sender) secret 1 1000 (replicate 16 4);
     refused keyed secret 1000 (w2\<lparr>bw_serial := 9\<rparr>)
   }"

definition replay_window_enforced where
  "replay_window_enforced derive keyed sender bucket = do {
     let secret = derive_mailbox_secret derive (ascii ''hs'') bucket 1;
     let ts = 10000000;
     let w = seal keyed (mailbox_envelope sender) secret 1 ts (replicate 16 5);
     _ \<leftarrow> verifies keyed secret ts w;
     _ \<leftarrow> refused keyed secret (ts + REPLAY_WINDOW_MS + 1) w;
     refused keyed secret (ts - REPLAY_WINDOW_MS - 1) w
   }"

text \<open>\<^verbatim>\<open>assert!(c.check_and_insert(..))\<close> or its negation.\<close>

definition expect_check :: "nonce_cache \<Rightarrow> u8 \<Rightarrow> u64 \<Rightarrow> u64 \<Rightarrow> bool \<Rightarrow> nonce_cache option" where
  "expect_check c i ts now fresh = do { (r, c') \<leftarrow> nc_check_and_insert c (replicate 16 i) ts now; _ \<leftarrow> require (r = fresh); Some c' }"

definition nonce_cache_detects_replay_across_serial_space :: "unit option" where
  "nonce_cache_detects_replay_across_serial_space = do {
     c \<leftarrow> expect_check (nc_new 1000) 9 1000 1000 True;
     c \<leftarrow> expect_check c 9 1000 1000 False;
     c \<leftarrow> expect_check c 9 2000 2000 False;
     _ \<leftarrow> expect_check c 8 1000 1000 True;
     Some ()
   }"

definition mac_binds_every_envelope_field where
  "mac_binds_every_envelope_field derive keyed sender bucket = do {
     let secret = derive_mailbox_secret derive (ascii ''hs'') bucket 1;
     let e = (mailbox_envelope sender)\<lparr>env_group := Some (replicate 32 4)\<rparr>;
     let w = seal keyed e secret 1 1000 (replicate 16 1);
     _ \<leftarrow> verifies keyed secret 1000 w;
     _ \<leftarrow> refused keyed secret 1000 (w\<lparr>bw_envelope := e\<lparr>env_kind := SessionMgmt\<rparr>\<rparr>);
     _ \<leftarrow> refused keyed secret 1000 (w\<lparr>bw_envelope := e\<lparr>env_sent_at_ms := env_sent_at_ms e + 1\<rparr>\<rparr>);
     _ \<leftarrow> refused keyed secret 1000 (w\<lparr>bw_envelope := e\<lparr>env_ttl_hops := env_ttl_hops e - 1\<rparr>\<rparr>);
     refused keyed secret 1000 (w\<lparr>bw_envelope := e\<lparr>env_group := None\<rparr>\<rparr>)
   }"

definition derive_binds_bucket_and_serial where
  "derive_binds_bucket_and_serial derive b1 b2 = do {
     _ \<leftarrow> require (b1 \<noteq> b2);
     let s = derive_mailbox_secret derive;
     _ \<leftarrow> require (s (ascii ''k'') b1 1 \<noteq> s (ascii ''k'') b2 1);
     _ \<leftarrow> require (s (ascii ''k'') b1 1 \<noteq> s (ascii ''k'') b1 2);
     require (s (ascii ''k'') b1 1 \<noteq> s (ascii ''j'') b1 1)
   }"

definition verify_inbound_enforces_order_and_replay where
  "verify_inbound_enforces_order_and_replay derive keyed sender bucket = do {
     let secret = derive_mailbox_secret derive (ascii ''hs'') bucket 1;
     let w = seal keyed (mailbox_envelope sender) secret 1 1000 (replicate 16 3);
     (r1, nonces) \<leftarrow> verify_inbound keyed w secret (nc_new 100) 1000;
     _ \<leftarrow> unwrap r1;
     (r2, nonces) \<leftarrow> verify_inbound keyed w secret nonces 1000;
     _ \<leftarrow> require (isl r2);
     let bad = w\<lparr>bw_envelope := (bw_envelope w)\<lparr>env_body := env_body (bw_envelope w) @ [1]\<rparr>, bw_nonce := replicate 16 9\<rparr>;
     (r3, nonces) \<leftarrow> verify_inbound keyed bad secret nonces 1000;
     require (isl r3)
   }"

section \<open>What the tests assume of the hash\<close>

text \<open>The sealed writes of the mailbox tests, each with an altered copy.\<close>

definition alterations :: "(bytes \<Rightarrow> bytes \<Rightarrow> bytes) \<Rightarrow> bytes \<Rightarrow> node_id \<Rightarrow> (bucket_write \<times> bucket_write) list" where
  "alterations keyed secret sender =
     (let e = mailbox_envelope sender;
          g = e\<lparr>env_group := Some (replicate 32 4)\<rparr>;
          w = seal keyed e secret 1 1000 (replicate 16 3);
          w2 = seal keyed e secret 1 1000 (replicate 16 4);
          wg = seal keyed g secret 1 1000 (replicate 16 1)
      in [(w, w\<lparr>bw_envelope := e\<lparr>env_body := env_body e @ [1]\<rparr>\<rparr>),
          (w2, w2\<lparr>bw_serial := 9\<rparr>),
          (wg, wg\<lparr>bw_envelope := g\<lparr>env_kind := SessionMgmt\<rparr>\<rparr>),
          (wg, wg\<lparr>bw_envelope := g\<lparr>env_sent_at_ms := env_sent_at_ms g + 1\<rparr>\<rparr>),
          (wg, wg\<lparr>bw_envelope := g\<lparr>env_ttl_hops := env_ttl_hops g - 1\<rparr>\<rparr>),
          (wg, wg\<lparr>bw_envelope := g\<lparr>env_group := None\<rparr>\<rparr>),
          (w, w\<lparr>bw_envelope := e\<lparr>env_body := env_body e @ [1]\<rparr>, bw_nonce := replicate 16 9\<rparr>)])"

definition no_collision :: "(bytes \<Rightarrow> bytes \<Rightarrow> bytes) \<Rightarrow> bytes \<Rightarrow> node_id \<Rightarrow> bool" where
  "no_collision keyed secret sender \<longleftrightarrow> (\<forall>(w, w') \<in> set (alterations keyed secret sender).
     mac_input w \<noteq> mac_input w' \<longrightarrow> keyed secret (mac_input w) \<noteq> keyed secret (mac_input w'))"

definition test_secret :: "(string \<Rightarrow> bytes \<Rightarrow> bytes) \<Rightarrow> node_id \<Rightarrow> u32 \<Rightarrow> bytes" where
  "test_secret derive bucket serial = derive_mailbox_secret derive (ascii ''hs'') bucket serial"

text \<open>Functions that are easy to compute and keep the values of the tests apart.\<close>

definition sum_keyed :: "bytes \<Rightarrow> bytes \<Rightarrow> bytes" where
  "sum_keyed k m = replicate 32 (sum_list k + sum_list m)"

definition sum_derive :: "string \<Rightarrow> bytes \<Rightarrow> bytes" where
  "sum_derive c m = [sum_list m]"

definition single_ser :: "'a \<Rightarrow> 'a \<Rightarrow> string + bytes" where
  "single_ser x y = (if y = x then Inr [1] else Inl [])"

definition single_de :: "'a \<Rightarrow> bytes \<Rightarrow> string + 'a" where
  "single_de x b = Inr x"

section \<open>The suite\<close>

text \<open>The generated identities and bucket addresses are arguments.\<close>

definition envelope_tests where
  "envelope_tests ser de sender = [test_cbor_roundtrip ser de sender, frame_roundtrip_partial_feed ser de sender,
     frame_back_to_back ser de sender, unframe_rejects_oversized_declared_length, dedup_insert_once_and_evict_fifo]"

definition queue_tests where
  "queue_tests shw ord rnd sender1 sender2 = [enqueue_pending_mark_sent shw ord sender1 sender2, dedup_persists,
     order_by_created shw ord sender1 sender2, retry_schedule_due_dead_and_revive shw ord rnd sender1]"

definition mailbox_tests where
  "mailbox_tests ser de derive keyed sender bucket bucket2 = [cbor_roundtrip_preserves_mac ser de derive keyed sender bucket,
     seal_verify_roundtrip derive keyed sender bucket, wrong_key_or_tamper_rejected derive keyed sender bucket,
     replay_window_enforced derive keyed sender bucket, nonce_cache_detects_replay_across_serial_space,
     mac_binds_every_envelope_field derive keyed sender bucket, derive_binds_bucket_and_serial derive bucket bucket2,
     verify_inbound_enforces_order_and_replay derive keyed sender bucket]"

section \<open>They pass\<close>

lemma frame_tests:
  assumes "codec_ok ser de" and "ser (test_envelope sender) = Inr cbor" and "length cbor \<le> MAX_FRAME_SIZE"
  shows "test_cbor_roundtrip ser de sender = Some ()" "frame_roundtrip_partial_feed ser de sender = Some ()"
    "frame_back_to_back ser de sender = Some ()"
proof -
  have de: "from_cbor de cbor = Inr (test_envelope sender)"
    using assms(1,2) by (intro from_cbor_decoded) (simp_all add: codec_ok_def env_routable_def test_envelope_def)
  have ser: "to_cbor ser (test_envelope sender) = Inr cbor" using assms(2) by (simp add: to_cbor_def)
  obtain f where f: "frame cbor = Some f" using assms(3) by (simp add: frame_def MAX_FRAME_SIZE_def)
  have len: "length f = 4 + length cbor" using length_frame [OF f] .
  have whole: "unframe (f @ rest) = Inr (Some (cbor, length f))" for rest
    unfolding unframe_exact using f assms(3) by auto
  have part: "unframe (take n f) = Inr None" if "n < length f" for n
  proof -
    have "from_be (take 4 (take n f)) = length cbor" if "4 \<le> n"
      using f assms(3) that take_4_frame [of cbor] by (auto simp: frame_def MAX_FRAME_SIZE_def min_def split: if_splits)
    then show ?thesis using that len assms(3) by (auto simp: unframe_def Let_def)
  qed
  show "test_cbor_roundtrip ser de sender = Some ()" by (simp add: test_cbor_roundtrip_def ser de require_def Let_def)
  show "frame_roundtrip_partial_feed ser de sender = Some ()"
    using whole [of "[]"] len by (simp add: frame_roundtrip_partial_feed_def ser de f slice_to_def part require_def Let_def)
  show "frame_back_to_back ser de sender = Some ()"
    using whole [of f] whole [of "[]"] by (simp add: frame_back_to_back_def ser de f require_def Let_def)
qed

lemma filter_tests: "unframe_rejects_oversized_declared_length = Some ()" "dedup_insert_once_and_evict_fifo = Some ()"
proof -
  show "unframe_rejects_oversized_declared_length = Some ()"
    by (simp add: unframe_rejects_oversized_declared_length_def unframe_def require_def Let_def MAX_FRAME_SIZE_def from_be_be_bytes)
  show "dedup_insert_once_and_evict_fifo = Some ()"
    by (simp add: dedup_insert_once_and_evict_fifo_def expect_insert_def check_and_insert_def dedup_new_def require_def Let_def
       hm_contains_def hm_get_def hm_insert_def hm_remove_def dedup_len_def hm_len_def)
qed

lemma opened: "open_memory key = Some db_empty"
  by (cases key) (simp_all add: open_memory_def db_open_def)

lemma order_two:
  assumes "order_by_ok ob_created_ms ord"
  shows "ord [] = []" "ord [x] = [x]" "length (ord rows) = length rows" "ob_created_ms y < ob_created_ms x \<Longrightarrow> ord [x, y] = [y, x]"
proof -
  show "ord [] = []" "length (ord rows) = length rows" using order_by_length [OF assms] by (metis length_0_conv)+
  have "mset (ord [x]) = {#x#}" using assms by (simp add: order_by_ok_def)
  then show "ord [x] = [x]" by (metis mset_single_iff)
  assume less: "ob_created_ms y < ob_created_ms x"
  have len: "length (ord [x, y]) = 2" using order_by_length [OF assms] by simp
  then obtain a b where ab: "ord [x, y] = [a, b]" by (auto simp: length_Suc_conv numeral_2_eq_2)
  moreover have "mset (ord [x, y]) = {#x, y#}" "sorted (map ob_created_ms (ord [x, y]))" using assms by (simp_all add: order_by_ok_def)
  ultimately show "ord [x, y] = [y, x]" using less by (auto simp: add_eq_conv_ex)
qed

text \<open>Databases with these rows and an empty table of seen ids.\<close>

lemma rows_inv:
  assumes "distinct (map ob_msg_id rows)" and "\<forall>r \<in> set rows. row_ok r"
  shows "db_inv (db_empty\<lparr>db_outbox := rows\<rparr>)"
  using assms by (simp add: db_inv_def db_empty_def hm_values_def)

lemma queue_row_ok: "opt_len 32 recipient \<Longrightarrow> row_ok (env_row ((queue_env sender i recipient)\<lparr>env_sent_at_ms := t\<rparr>))"
  "opt_len 32 recipient \<Longrightarrow> row_ok (env_row (queue_env sender i recipient))"
  by (simp_all add: row_ok_def env_row_def queue_env_def opt_len_def) (simp_all add: i64_max_def)

lemma queue_test_one:
  assumes "order_by_ok ob_created_ms ord"
  shows "enqueue_pending_mark_sent shw ord sender1 sender2 = Some ()"
proof -
  let ?r1 = "env_row (queue_env sender1 1 (Some (replicate 32 5)))" and ?r2 = "env_row (queue_env sender2 2 None)"
  let ?d = "db_empty\<lparr>db_outbox := [?r1, ?r2]\<rparr>" and ?d' = "db_empty\<lparr>db_outbox := [?r1\<lparr>ob_state := ''sent''\<rparr>, ?r2]\<rparr>"
  have sets: "set (ord rows) = set rows" for rows using order_by_set [OF assms] .
  have ok: "row_ok ?r1" "row_ok ?r2" by (simp_all add: queue_row_ok opt_len_def)
  then have ok': "row_ok (?r1\<lparr>ob_state := ''sent''\<rparr>)" by (simp add: row_ok_def)
  have ids: "ob_msg_id ?r1 = replicate 16 1" "ob_msg_id ?r2 = replicate 16 2" "ob_state ?r1 = ''pending''" "ob_state ?r2 = ''pending''"
    by (simp_all add: env_row_def queue_env_def)
  have inv: "db_inv ?d" "db_inv ?d'" using ok ok' ids by (auto intro!: rows_inv)
  have "pending shw ord calm ?d 10 = Inr (map to_pending (take 10 (ord [?r1, ?r2])))"
    using select_rows_ok [OF inv(1) sets, of shw "\<lambda>r. ob_state r = ''pending''" 10] ids by (simp add: pending_def)
  moreover have "pending shw ord calm ?d' 10 = Inr [to_pending ?r2]"
    using select_rows_ok [OF inv(2) sets, of shw "\<lambda>r. ob_state r = ''pending''" 10] ids order_two(2) [OF assms] by (simp add: pending_def)
  moreover have "enqueue_ok (queue_env sender1 1 (Some (replicate 32 5))) db_empty = Some (db_empty\<lparr>db_outbox := [?r1]\<rparr>)"
    "enqueue_ok (queue_env sender2 2 None) (db_empty\<lparr>db_outbox := [?r1]\<rparr>) = Some ?d"
    "enqueue_ok (queue_env sender1 1 (Some (replicate 32 5))) ?d = Some ?d"
    using ids by (simp_all add: enqueue_ok_def enqueue_def insert_or_ignore_def) (simp_all add: db_empty_def)
  moreover have "mark_sent calm ?d (replicate 16 1) = (Inr (), ?d')" using ids by (simp add: mark_sent_def update_where_def)
  moreover have "stats calm ?d' = Inr (1, 0, 0)" using ids by (simp add: stats_def db_empty_def hm_len_def)
  moreover have "pr_msg_id (to_pending ?r2) = replicate 16 2" using ids by (simp add: to_pending_def)
  ultimately show ?thesis
    using order_two(3) [OF assms] by (simp add: enqueue_pending_mark_sent_def opened require_def Let_def)
qed

lemma queue_test_two: "dedup_persists = Some ()"
  by (simp add: dedup_persists_def opened record_seen_def stats_def db_empty_def require_def hm_contains_def hm_get_def hm_insert_def
      hm_len_def Let_def)

lemma queue_test_three:
  assumes "order_by_ok ob_created_ms ord"
  shows "order_by_created shw ord sender1 sender2 = Some ()"
proof -
  let ?e1 = "(queue_env sender1 1 None)\<lparr>env_sent_at_ms := 5000\<rparr>" and ?e2 = "(queue_env sender2 2 None)\<lparr>env_sent_at_ms := 1000\<rparr>"
  let ?d = "db_empty\<lparr>db_outbox := [env_row ?e1, env_row ?e2]\<rparr>"
  have sets: "set (ord rows) = set rows" for rows using order_by_set [OF assms] .
  have ids: "ob_msg_id (env_row ?e1) = replicate 16 1" "ob_msg_id (env_row ?e2) = replicate 16 2"
    "ob_state (env_row ?e1) = ''pending''" "ob_state (env_row ?e2) = ''pending''" "ob_created_ms (env_row ?e2) < ob_created_ms (env_row ?e1)"
    by (simp_all add: env_row_def queue_env_def clamp_ms_def i64_max_def)
  have inv: "db_inv ?d" using ids by (auto intro!: rows_inv queue_row_ok simp: opt_len_def)
  have "pending shw ord calm ?d 2 = Inr (map to_pending [env_row ?e2, env_row ?e1])"
    using select_rows_ok [OF inv sets, of shw "\<lambda>r. ob_state r = ''pending''" 2] ids order_two(4) [OF assms ids(5)]
    by (simp add: pending_def)
  moreover have "enqueue_ok ?e1 db_empty = Some (db_empty\<lparr>db_outbox := [env_row ?e1]\<rparr>)"
    "enqueue_ok ?e2 (db_empty\<lparr>db_outbox := [env_row ?e1]\<rparr>) = Some ?d"
    using ids by (simp_all add: enqueue_ok_def enqueue_def insert_or_ignore_def) (simp_all add: db_empty_def)
  ultimately show ?thesis
    using ids by (simp add: order_by_created_def opened require_def Let_def to_pending_def)
qed

text \<open>The database of the last test has one row throughout.\<close>

lemma fail_single:
  assumes "ob_msg_id r = replicate 16 1" and "ob_attempts r = int k" and "Suc k < 2 ^ 32" and "row_ok r"
  shows "\<exists>r'. fail_once rnd p now (unat (rp_max_attempts p) \<le> Suc k) (db_empty\<lparr>db_outbox := [r]\<rparr>) = Some (db_empty\<lparr>db_outbox := [r']\<rparr>)
    \<and> ob_msg_id r' = replicate 16 1 \<and> ob_attempts r' = int (Suc k) \<and> row_ok r'
    \<and> (if unat (rp_max_attempts p) \<le> Suc k then ob_state r' = ''dead''
       else ob_state r' = ob_state r
         \<and> min (int (unat now + unat (rp_base_delay_ms p))) i64_max \<le> ob_next_attempt_ms r'
         \<and> ob_next_attempt_ms r' \<le> int (unat now + unat (delay_cap p (word_of_nat (Suc k)))))"
proof -
  let ?d = "db_empty\<lparr>db_outbox := [r]\<rparr>" and ?i = "replicate 16 1 :: msg_id"
  have "find (\<lambda>r. ob_msg_id r = ?i) (db_outbox ?d) = Some r" using assms(1) by simp
  from fail_step [OF this assms(2,3), of rnd p now] obtain d' r' where
    d': "fail_and_reschedule calm (Inr rnd) ?d ?i p now = Some (Inr (unat (rp_max_attempts p) \<le> Suc k), d')"
    and find: "\<forall>j. find (\<lambda>r. ob_msg_id r = j) (db_outbox d') = (if j = ?i then Some r' else find (\<lambda>r. ob_msg_id r = j) (db_outbox ?d))"
    and r': "ob_attempts r' = int (Suc k)" "if unat (rp_max_attempts p) \<le> Suc k then ob_state r' = ''dead''
       else ob_state r' = ob_state r
         \<and> min (int (unat now + unat (rp_base_delay_ms p))) i64_max \<le> ob_next_attempt_ms r'
         \<and> ob_next_attempt_ms r' \<le> int (unat now + unat (delay_cap p (word_of_nat (Suc k))))"
    by blast
  have "\<exists>x. d' = ?d\<lparr>db_outbox := [x]\<rparr>" using d' by (rule fail_cases) (auto simp: update_where_def split: if_splits)
  then obtain x where x: "d' = db_empty\<lparr>db_outbox := [x]\<rparr>" by auto
  have "x = r'" "ob_msg_id r' = ?i" using find [rule_format, of ?i] by (auto simp: x split: if_splits)
  moreover have "db_inv ?d" using assms(4) by (intro rows_inv) simp_all
  then have "db_inv d'" using db_apply_inv [of ?d "Fail ?i p now (Inr rnd)" calm] d' by simp
  ultimately show ?thesis
    using d' r' by (intro exI [of _ r']) (simp add: fail_once_def x require_def db_inv_def)
qed

lemma due_single:
  assumes "order_by_ok ob_created_ms ord" and "row_ok r" and "unat now < 2 ^ 63"
  shows "due_count shw ord (db_empty\<lparr>db_outbox := [r]\<rparr>) now (if ob_state r = ''pending'' \<and> ob_next_attempt_ms r \<le> uint now then 1 else 0)
    = Some ()"
proof -
  have sets: "set (ord rows) = set rows" for rows using order_by_set [OF assms(1)] .
  have inv: "db_inv (db_empty\<lparr>db_outbox := [r]\<rparr>)" using assms(2) by (intro rows_inv) simp_all
  have "uint now < 2 ^ 63" using assms(3) by (metis of_nat_less_iff of_nat_numeral of_nat_power uint_nat)
  then have now: "u64_as_i64 now = uint now" by (simp add: u64_as_i64_def)
  show ?thesis
    using select_rows_ok [OF inv sets, of shw "\<lambda>r. ob_state r = ''pending'' \<and> ob_next_attempt_ms r \<le> uint now" 10]
      order_two(1,2) [OF assms(1)]
    by (simp add: due_count_def due_def now require_def)
qed

lemma queue_test_four:
  assumes "order_by_ok ob_created_ms ord"
  shows "retry_schedule_due_dead_and_revive shw ord rnd sender = Some ()"
proof -
  let ?p = "\<lparr>rp_max_attempts = 3, rp_base_delay_ms = 100, rp_max_delay_ms = 400\<rparr> :: retry_policy"
  let ?single = "\<lambda>r. db_empty\<lparr>db_outbox := [r]\<rparr>"
  define r0 where "r0 = env_row (queue_env sender 1 None)"
  have r0: "row_ok r0" "ob_msg_id r0 = replicate 16 1" "ob_attempts r0 = int 0" "ob_state r0 = ''pending''" "ob_next_attempt_ms r0 = 0"
    unfolding r0_def by (simp_all add: queue_row_ok opt_len_def) (simp_all add: env_row_def queue_env_def)
  have enq: "enqueue_ok (queue_env sender 1 None) db_empty = Some (?single r0)"
    by (simp add: enqueue_ok_def enqueue_def insert_or_ignore_def r0_def) (simp add: db_empty_def)
  have cap: "uint (delay_cap ?p (word_of_nat (Suc 0))) \<le> 400" unfolding uint_nat by (simp add: unat_delay_cap del: of_nat_unat)
  obtain r1 where r1: "fail_once (rnd 0) ?p 1000 False (?single r0) = Some (?single r1)" "ob_msg_id r1 = replicate 16 1"
    "ob_attempts r1 = int 1" "row_ok r1" "ob_state r1 = ''pending''" "1100 \<le> ob_next_attempt_ms r1" "ob_next_attempt_ms r1 \<le> 1400"
    using fail_single [OF r0(2,3) _ r0(1), of "rnd 0" ?p 1000] r0(4) cap by (auto simp: i64_max_def)
  obtain r2 where r2: "fail_once (rnd 1) ?p 2000 False (?single r1) = Some (?single r2)" "ob_msg_id r2 = replicate 16 1"
    "ob_attempts r2 = int 2" "row_ok r2"
    using fail_single [OF r1(2,3) _ r1(4), of "rnd 1" ?p 2000] by auto
  obtain r3 where r3: "fail_once (rnd 2) ?p 3000 True (?single r2) = Some (?single r3)" "ob_msg_id r3 = replicate 16 1"
    "row_ok r3" "ob_state r3 = ''dead''"
    using fail_single [OF r2(2,3) _ r2(4), of "rnd 2" ?p 3000] by auto
  let ?r4 = "r3\<lparr>ob_state := ''pending'', ob_attempts := 0, ob_next_attempt_ms := 0\<rparr>"
  have r4: "row_ok ?r4" "revive calm (?single r3) (replicate 16 1) = (Inr (), ?single ?r4)"
    using r3 by (simp_all add: row_ok_def revive_def update_where_def i64_max_def)
  have due: "due_count shw ord (?single r0) 1000 1 = Some ()" "due_count shw ord (?single r1) 1000 0 = Some ()"
    "due_count shw ord (?single r1) 2000 1 = Some ()" "due_count shw ord (?single r3) 99999 0 = Some ()"
    "due_count shw ord (?single ?r4) 99999 1 = Some ()"
    using due_single [OF assms r0(1), of 1000 shw] due_single [OF assms r1(4), of 1000 shw] due_single [OF assms r1(4), of 2000 shw]
      due_single [OF assms r3(3), of 99999 shw] due_single [OF assms r4(1), of 99999 shw] r0 r1 r3 by simp_all
  have "stats calm (?single r3) = Inr (0, 1, 0)" "stats calm (?single ?r4) = Inr (1, 0, 0)"
    using r3(4) by (simp_all add: stats_def db_empty_def hm_len_def)
  then show ?thesis
    by (simp add: retry_schedule_due_dead_and_revive_def opened enq due r1(1) r2(1) r3(1) r4(2) require_def Let_def
        del: One_nat_def)
qed

lemma sealed_verifies:
  assumes "keyed_ok keyed" and "unat ts \<le> unat now + 300000" and "unat now \<le> unat ts + 300000"
  shows "verifies keyed secret now (seal keyed e secret serial ts nonce) = Some ()"
  using bw_verify_iff [of "seal keyed e secret serial ts nonce" keyed secret now] assms
  by (simp add: verifies_def seal_fields keyed_ok_def)

lemma outside_refused:
  assumes "keyed_ok keyed" and "unat now + 300000 < unat ts \<or> unat ts + 300000 < unat now"
  shows "refused keyed secret now (seal keyed e secret serial ts nonce) = Some ()"
proof -
  have "bw_verify keyed (seal keyed e secret serial ts nonce) secret now \<noteq> Inr ()"
    using bw_verify_iff [of "seal keyed e secret serial ts nonce" keyed secret now] assms
    by (auto simp: seal_fields keyed_ok_def)
  then show ?thesis by (cases "bw_verify keyed (seal keyed e secret serial ts nonce) secret now") (simp_all add: refused_def require_def)
qed

lemma other_tag_refused:
  assumes "keyed_ok keyed" and "length (bw_mac w) = 32" and "bw_mac w \<noteq> keyed secret (mac_input w)"
  shows "refused keyed secret now w = Some ()" "isl (bw_verify keyed w secret now)"
proof -
  have "bw_verify keyed w secret now \<noteq> Inr ()"
    using bw_verify_iff [of w keyed secret now] assms by (simp add: keyed_ok_def)
  then show "isl (bw_verify keyed w secret now)" by (cases "bw_verify keyed w secret now") simp_all
  then show "refused keyed secret now w = Some ()" by (simp add: refused_def require_def)
qed

lemma alterations_wf:
  assumes "keyed_ok keyed" and "length sender = 32" and "(w, w') \<in> set (alterations keyed secret sender)"
  shows "wf_write w" "wf_write w'" "bw_mac w = keyed secret (mac_input w)" "bw_mac w' = bw_mac w" "w' \<noteq> w"
  using assms
  by (auto simp: alterations_def Let_def seal_fields, auto simp: seal_def compute_mac_def wf_write_def wf_envelope_def mailbox_envelope_def opt_len_def
      keyed_ok_def Let_def)

lemma alteration_refused:
  assumes "keyed_ok keyed" and "length sender = 32" and "no_collision keyed secret sender"
    and "(w, w') \<in> set (alterations keyed secret sender)"
  shows "refused keyed secret now w' = Some ()" "isl (bw_verify keyed w' secret now)"
proof -
  note wf = alterations_wf [OF assms(1,2,4)]
  have "mac_input w \<noteq> mac_input w'"
  proof
    assume "mac_input w = mac_input w'"
    then have "w\<lparr>bw_mac := bw_mac w\<rparr> = w'\<lparr>bw_mac := bw_mac w\<rparr>" using mac_input_inj [OF wf(1,2)] by blast
    then show False using wf(4,5) by (cases w; cases w') simp
  qed
  then have "keyed secret (mac_input w) \<noteq> keyed secret (mac_input w')" using assms(3,4) by (auto simp: no_collision_def)
  then have "bw_mac w' \<noteq> keyed secret (mac_input w')" "length (bw_mac w') = 32" using wf by (simp_all add: wf_write_def)
  then show "refused keyed secret now w' = Some ()" "isl (bw_verify keyed w' secret now)"
    using other_tag_refused [OF assms(1)] by blast+
qed

lemmas ledger_test_simps = nc_retain_def hm_values_def hm_contains_def hm_get_def hm_insert_def hm_retain_def hm_len_def REPLAY_WINDOW_MS_def
  SKEW_MS_def sat_add_def chk_add_def require_def Let_def

lemma mailbox_window_tests:
  assumes "keyed_ok keyed"
  shows "seal_verify_roundtrip derive keyed sender bucket = Some ()" "replay_window_enforced derive keyed sender bucket = Some ()"
    "nonce_cache_detects_replay_across_serial_space = Some ()"
    "codec_ok ser de \<Longrightarrow> ser (seal keyed (mailbox_envelope sender) (test_secret derive bucket 1) 1 1000 (replicate 16 6)) = Inr cbor
      \<Longrightarrow> cbor_roundtrip_preserves_mac ser de derive keyed sender bucket = Some ()"
proof -
  show "seal_verify_roundtrip derive keyed sender bucket = Some ()" "replay_window_enforced derive keyed sender bucket = Some ()"
    by (simp_all add: seal_verify_roundtrip_def replay_window_enforced_def Let_def sealed_verifies [OF assms] outside_refused [OF assms]
        REPLAY_WINDOW_MS_def)
  show "nonce_cache_detects_replay_across_serial_space = Some ()"
    by (simp add: nonce_cache_detects_replay_across_serial_space_def expect_check_def nc_check_and_insert_def nc_new_def ledger_test_simps)
  assume "codec_ok ser de" and "ser (seal keyed (mailbox_envelope sender) (test_secret derive bucket 1) 1 1000 (replicate 16 6)) = Inr cbor"
  then show "cbor_roundtrip_preserves_mac ser de derive keyed sender bucket = Some ()"
    by (simp add: cbor_roundtrip_preserves_mac_def Let_def test_secret_def bw_to_cbor_def bw_from_cbor_def codec_ok_def require_def
        sealed_verifies [OF assms])
qed

lemma mailbox_alteration_tests:
  assumes "keyed_ok keyed" and "length sender = 32" and "no_collision keyed (test_secret derive bucket 1) sender"
  defines "w \<equiv> seal keyed (mailbox_envelope sender) (test_secret derive bucket 1) 1 1000 (replicate 16 3)"
  assumes "keyed (test_secret derive bucket 2) (mac_input w) \<noteq> keyed (test_secret derive bucket 1) (mac_input w)"
  shows "wrong_key_or_tamper_rejected derive keyed sender bucket = Some ()" "mac_binds_every_envelope_field derive keyed sender bucket = Some ()"
    "verify_inbound_enforces_order_and_replay derive keyed sender bucket = Some ()"
proof -
  let ?s = "test_secret derive bucket 1"
  note no = alteration_refused [OF assms(1-3)]
  have "length (bw_mac w) = 32" "bw_mac w \<noteq> keyed (test_secret derive bucket 2) (mac_input w)"
    using assms(1,5) by (simp_all add: w_def seal_fields keyed_ok_def)
  then have other: "refused keyed (test_secret derive bucket 2) 1000 w = Some ()" by (rule other_tag_refused [OF assms(1)])
  have w: "bw_envelope w = mailbox_envelope sender" by (simp add: w_def seal_fields)
  show "wrong_key_or_tamper_rejected derive keyed sender bucket = Some ()"
    using other
    by (simp add: wrong_key_or_tamper_rejected_def Let_def test_secret_def [symmetric] w_def [symmetric] w no [where w = w]
        no [where w = "seal keyed (mailbox_envelope sender) ?s 1 1000 (replicate 16 4)"] alterations_def)
  show "mac_binds_every_envelope_field derive keyed sender bucket = Some ()"
    by (simp add: mac_binds_every_envelope_field_def Let_def test_secret_def [symmetric] sealed_verifies [OF assms(1)]
        no [where w = "seal keyed ((mailbox_envelope sender)\<lparr>env_group := Some (replicate 32 4)\<rparr>) ?s 1 1000 (replicate 16 1)"] alterations_def)
  let ?bad = "w\<lparr>bw_envelope := (mailbox_envelope sender)\<lparr>env_body := env_body (mailbox_envelope sender) @ [1]\<rparr>, bw_nonce := replicate 16 9\<rparr>"
  let ?c = "\<lparr>nc_entries = [(replicate 16 1, 421000)], nc_hard_cap = 4096\<rparr>"
  have bad: "isl (bw_verify keyed ?bad ?s 1000)" by (rule no(2) [where w = w]) (simp add: alterations_def w_def Let_def)
  have good: "bw_verify keyed w ?s 1000 = Inr ()"
    using sealed_verifies [OF assms(1), of 1000 1000 ?s "mailbox_envelope sender" 1 "replicate 16 3"]
    by (cases "bw_verify keyed w ?s 1000") (simp_all add: verifies_def w_def)
  have "nc_check_and_insert (nc_new 100) (replicate 16 1) 1000 1000 = Some (True, ?c)"
    "nc_check_and_insert ?c (replicate 16 1) 1000 1000 = Some (False, ?c)"
    by (simp_all add: nc_check_and_insert_def nc_new_def ledger_test_simps)
  moreover have "env_msg_id (bw_envelope w) = replicate 16 1" "bw_ts_ms w = 1000"
    by (simp_all add: w_def seal_fields mailbox_envelope_def)
  ultimately have "verify_inbound keyed w ?s (nc_new 100) 1000 = Some (Inr (), ?c)"
    "verify_inbound keyed w ?s ?c 1000 = Some (Inl (Crypto ''replayed write''), ?c)"
    by (simp_all add: verify_inbound_def good)
  moreover obtain e where "verify_inbound keyed ?bad ?s ?c 1000 = Some (Inl e, ?c)"
    using bad by (auto simp: verify_inbound_def isl_def)
  ultimately show "verify_inbound_enforces_order_and_replay derive keyed sender bucket = Some ()"
    by (simp add: verify_inbound_enforces_order_and_replay_def Let_def test_secret_def [symmetric] w_def [symmetric] w require_def)
qed

lemma derive_test:
  assumes "length b1 = 32" and "length b2 = 32" and "b1 \<noteq> b2"
    and "inj_on (derive ''dc-mailbox-v1'') {mailbox_material (ascii ''k'') b1 1, mailbox_material (ascii ''k'') b2 1,
      mailbox_material (ascii ''k'') b1 2, mailbox_material (ascii ''j'') b1 1}"
  shows "derive_binds_bucket_and_serial derive b1 b2 = Some ()"
proof -
  have "mailbox_material (ascii ''k'') b1 1 \<noteq> mailbox_material (ascii ''k'') b2 1"
    "mailbox_material (ascii ''k'') b1 1 \<noteq> mailbox_material (ascii ''k'') b1 2"
    "mailbox_material (ascii ''k'') b1 1 \<noteq> mailbox_material (ascii ''j'') b1 1"
    using assms(1-3) by (simp_all add: mailbox_material_def ascii_def)
  then show ?thesis
    using assms(3,4) by (simp add: derive_binds_bucket_and_serial_def derive_mailbox_secret_def require_def Let_def inj_on_eq_iff)
qed

text \<open>
  The tests of the three files pass: those of the frames for coders that read back what they write, those of the queue for every
  order of equal rows and all random bytes, those of the mailbox for a hash that keeps the values the tests compare apart.
\<close>

theorem envelope_tests_pass:
  assumes "codec_ok ser de" and "ser (test_envelope sender) = Inr cbor" and "length cbor \<le> MAX_FRAME_SIZE"
  shows "envelope_tests ser de sender = replicate 5 (Some ())"
  using frame_tests [OF assms] filter_tests by (simp add: envelope_tests_def numeral_eq_Suc)

theorem queue_tests_pass:
  assumes "order_by_ok ob_created_ms ord"
  shows "queue_tests shw ord rnd sender1 sender2 = replicate 4 (Some ())"
  using queue_test_one [OF assms] queue_test_two queue_test_three [OF assms] queue_test_four [OF assms]
  by (simp add: queue_tests_def numeral_eq_Suc)

theorem mailbox_tests_pass:
  assumes "keyed_ok keyed" and "length sender = 32" and "length bucket = 32" and "length bucket2 = 32" and "bucket \<noteq> bucket2"
    and "codec_ok ser de" and "ser (seal keyed (mailbox_envelope sender) (test_secret derive bucket 1) 1 1000 (replicate 16 6)) = Inr cbor"
    and "no_collision keyed (test_secret derive bucket 1) sender"
    and "w = seal keyed (mailbox_envelope sender) (test_secret derive bucket 1) 1 1000 (replicate 16 3)"
    and "keyed (test_secret derive bucket 2) (mac_input w) \<noteq> keyed (test_secret derive bucket 1) (mac_input w)"
    and "inj_on (derive ''dc-mailbox-v1'') {mailbox_material (ascii ''k'') bucket 1, mailbox_material (ascii ''k'') bucket2 1,
      mailbox_material (ascii ''k'') bucket 2, mailbox_material (ascii ''j'') bucket 1}"
  shows "mailbox_tests ser de derive keyed sender bucket bucket2 = replicate 8 (Some ())"
  using mailbox_window_tests(1-3) [OF assms(1)] mailbox_window_tests(4) [OF assms(1,6,7)]
    mailbox_alteration_tests [OF assms(1,2,8) assms(10) [unfolded assms(9)]] derive_test [of bucket bucket2 derive, OF assms(3-5,11)]
  by (simp add: mailbox_tests_def numeral_eq_Suc)

section \<open>What they assume can be met\<close>

lemma be_bytes_add4: "be_bytes (k + 4) n = of_nat (n div 256 ^ (k + 3)) # of_nat (n div 256 ^ (k + 2)) # of_nat (n div 256 ^ (k + 1))
    # of_nat (n div 256 ^ k) # be_bytes k n"
proof -
  have "k + 4 = Suc (Suc (Suc (Suc k)))" "Suc (Suc (Suc k)) = k + 3" "Suc (Suc k) = k + 2" "Suc k = k + 1" by simp_all
  then show ?thesis by (metis be_bytes.simps(2))
qed

lemma be_bytes_4: "be_bytes 4 n = [of_nat (n div 256 ^ 3), of_nat (n div 256 ^ 2), of_nat (n div 256), of_nat n]"
  using be_bytes_add4 [of 0 n] by simp

lemma be_sums:
  "sum_list (u32_be x) = of_nat (unat x div 256 ^ 3) + of_nat (unat x div 256 ^ 2) + of_nat (unat x div 256) + of_nat (unat x)"
  "sum_list (u64_be t) = of_nat (unat t div 256 ^ 7) + of_nat (unat t div 256 ^ 6) + of_nat (unat t div 256 ^ 5)
     + of_nat (unat t div 256 ^ 4) + of_nat (unat t div 256 ^ 3) + of_nat (unat t div 256 ^ 2) + of_nat (unat t div 256) + of_nat (unat t)"
  using be_bytes_add4 [of 4 "unat t"] unfolding u32_be_def u64_be_def be_bytes_4
  by (simp_all add: add.assoc be_bytes_4 del: of_nat_unat)

lemma sums_apart:
  "inj_on (sum_derive ''dc-mailbox-v1'') {mailbox_material (ascii ''k'') (replicate 32 0) 1, mailbox_material (ascii ''k'') (replicate 32 1) 1,
     mailbox_material (ascii ''k'') (replicate 32 0) 2, mailbox_material (ascii ''j'') (replicate 32 0) 1}"
  "no_collision sum_keyed (test_secret sum_derive (replicate 32 0) 1) (replicate 32 0)"
  "sum_keyed (test_secret sum_derive (replicate 32 0) 2) m \<noteq> sum_keyed (test_secret sum_derive (replicate 32 0) 1) m"
proof -
  show "inj_on (sum_derive ''dc-mailbox-v1'') {mailbox_material (ascii ''k'') (replicate 32 0) 1,
      mailbox_material (ascii ''k'') (replicate 32 1) 1, mailbox_material (ascii ''k'') (replicate 32 0) 2,
      mailbox_material (ascii ''j'') (replicate 32 0) 1}"
    by (simp add: sum_derive_def mailbox_material_def ascii_def sum_list_replicate be_sums)
  show "no_collision sum_keyed (test_secret sum_derive (replicate 32 0) 1) (replicate 32 0)"
    by (simp add: no_collision_def alterations_def Let_def sum_keyed_def)
      (simp add: seal_def Let_def mac_input_def mailbox_envelope_def sum_list_replicate be_sums opt_field_def)
  show "sum_keyed (test_secret sum_derive (replicate 32 0) 2) m \<noteq> sum_keyed (test_secret sum_derive (replicate 32 0) 1) m"
    by (simp add: sum_keyed_def)
      (simp add: sum_derive_def derive_mailbox_secret_def test_secret_def mailbox_material_def sum_list_replicate be_sums)
qed

lemma single_codec: "codec_ok (single_ser x) (single_de x)" "single_ser x x = Inr [1]"
  by (simp_all add: codec_ok_def single_ser_def single_de_def)

theorem message_tests_run:
  defines "w \<equiv> seal sum_keyed (mailbox_envelope (replicate 32 0)) (test_secret sum_derive (replicate 32 0) 1) 1 1000 (replicate 16 6)"
    and "e \<equiv> test_envelope (replicate 32 0)"
  shows "mailbox_tests (single_ser w) (single_de w) sum_derive sum_keyed (replicate 32 0) (replicate 32 0) (replicate 32 1)
      = replicate 8 (Some ())
    \<and> envelope_tests (single_ser e) (single_de e) (replicate 32 0) = replicate 5 (Some ())"
proof
  show "mailbox_tests (single_ser w) (single_de w) sum_derive sum_keyed (replicate 32 0) (replicate 32 0) (replicate 32 1)
    = replicate 8 (Some ())"
    by (rule mailbox_tests_pass [OF _ _ _ _ _ single_codec(1) _ sums_apart(2) refl sums_apart(3,1)])
      (simp_all add: keyed_ok_def sum_keyed_def single_codec(2) w_def [symmetric] w_def [unfolded sum_keyed_def, symmetric])
  show "envelope_tests (single_ser e) (single_de e) (replicate 32 0) = replicate 5 (Some ())"
    using envelope_tests_pass [OF single_codec(1), where sender = "replicate 32 0" and cbor = "[1]"]
    by (simp add: e_def single_codec(2) MAX_FRAME_SIZE_def)
qed

end
