(* ===== verification/Key_Tests.thy ===== *)
theory Key_Tests
  imports Relay Nodekey
begin

text \<open>
  The unit tests of \<^verbatim>\<open>identity.rs\<close>, \<^verbatim>\<open>nodekey.rs\<close> and \<^verbatim>\<open>relay.rs\<close> on the model, statement by statement; \<open>None\<close> is a failed
  \<^verbatim>\<open>unwrap\<close> or \<^verbatim>\<open>assert\<close>. The identities the tests generate are arguments.
\<close>

section \<open>Identities\<close>

definition clone_seed :: "identity \<Rightarrow> bytes" where
  "clone_seed i = id_seed i"

definition node_id_is_public_key :: "ed25519 \<Rightarrow> identity \<Rightarrow> unit option" where
  "node_id_is_public_key ed i = do {
     _ \<leftarrow> require (length (node_id_of ed i) = 32);
     let i2 = from_seed (clone_seed i);
     require (node_id_of ed i = node_id_of ed i2)
   }"

definition hello :: bytes where "hello = ascii ''hello decentralized world''"

definition bad_hello :: bytes where "bad_hello = ascii ''hello decentralized worlD''"

definition identity_sign_verify_roundtrip :: "ed25519 \<Rightarrow> identity \<Rightarrow> unit option" where
  "identity_sign_verify_roundtrip ed i = do {
     let sig = sign ed i hello;
     _ \<leftarrow> unwrap (verify_sig ed (node_id_of ed i) hello sig);
     require (isl (verify_sig ed (node_id_of ed i) bad_hello sig))
   }"

definition fingerprint_is_1024bit_and_deterministic :: "ed25519 \<Rightarrow> (bytes \<Rightarrow> nat \<Rightarrow> bytes) \<Rightarrow> identity \<Rightarrow> identity \<Rightarrow> unit option" where
  "fingerprint_is_1024bit_and_deterministic ed xof i j = do {
     let f1 = identity_fingerprint xof (node_id_of ed i);
     let f2 = identity_fingerprint xof (node_id_of ed i);
     _ \<leftarrow> require (length f1 = 128);
     _ \<leftarrow> require (f1 = f2);
     let other = identity_fingerprint xof (node_id_of ed j);
     require (f1 \<noteq> other)
   }"

definition fingerprint_domain_separated :: "(bytes \<Rightarrow> nat \<Rightarrow> bytes) \<Rightarrow> unit option" where
  "fingerprint_domain_separated xof = do {
     let a = fingerprint1024 xof [ascii ''identity'', replicate 32 1];
     let b = fingerprint1024 xof [replicate 32 1, ascii ''identity''];
     require (a \<noteq> b)
   }"

definition format_groups :: "unit option" where
  "format_groups = do {
     let fp = replicate 128 171;
     let s = format_fingerprint fp;
     _ \<leftarrow> require (length s = 128 * 2 + 31);
     _ \<leftarrow> require (strip_prefix ''abababab abababab'' s \<noteq> None);
     require (safety_groups fp 4 = ''abababab abababab abababab abababab'')
   }"

section \<open>Announcements\<close>

definition make_ann :: "ed25519 \<Rightarrow> identity \<Rightarrow> identity \<Rightarrow> u64 \<Rightarrow> u64 \<Rightarrow> announcement option" where
  "make_ann ed i node serial now =
     unwrap (nk_sign ed i (nk_new (node_id_of ed i) (node_id_of ed node) serial now DEFAULT_OVERLAP_MS))"

definition announcement_sign_verify_roundtrip :: "ed25519 \<Rightarrow> identity \<Rightarrow> identity \<Rightarrow> unit option" where
  "announcement_sign_verify_roundtrip ed i node = do { ann \<leftarrow> make_ann ed i node 1 1000; unwrap (nk_verify ed ann) }"

definition tamper_rejected :: "ed25519 \<Rightarrow> identity \<Rightarrow> identity \<Rightarrow> unit option" where
  "tamper_rejected ed i node = do {
     ann \<leftarrow> make_ann ed i node 1 1000;
     let ann = ann\<lparr>nk_node_key := replicate 32 9\<rparr>;
     _ \<leftarrow> require (isl (nk_verify ed ann));
     ann2 \<leftarrow> make_ann ed i node 1 1000;
     let ann2 = ann2\<lparr>nk_not_after_ms := nk_not_before_ms ann2\<rparr>;
     _ \<leftarrow> require (isl (nk_verify ed ann2));
     ann3 \<leftarrow> make_ann ed i node 0 1000;
     let ann3 = ann3\<lparr>nk_serial := 0\<rparr>;
     require (isl (nk_verify ed ann3))
   }"

text \<open>\<^verbatim>\<open>ring.upsert(..).unwrap()\<close>.\<close>

definition ring_upsert :: "ed25519 \<Rightarrow> announcement \<Rightarrow> u64 \<Rightarrow> key_ring \<Rightarrow> key_ring option" where
  "ring_upsert ed ann now r = (let (res, r') = upsert ed r ann now in do { _ \<leftarrow> unwrap res; Some r' })"

definition ring_picks_highest_serial_and_overlaps :: "ed25519 \<Rightarrow> identity \<Rightarrow> identity \<Rightarrow> identity \<Rightarrow> unit option" where
  "ring_picks_highest_serial_and_overlaps ed i node other = do {
     ann1 \<leftarrow> make_ann ed i node 1 1000;
     let node1 = nk_node_key ann1;
     let node_key2 = node_id_of ed other;
     ann2 \<leftarrow> unwrap (nk_sign ed i (nk_new (node_id_of ed i) node_key2 2 2000 DEFAULT_OVERLAP_MS));
     ring \<leftarrow> ring_upsert ed ann1 1500 nr_new;
     _ \<leftarrow> require (current ring (node_id_of ed i) 1500 = Some node1);
     ring \<leftarrow> ring_upsert ed ann2 2500 ring;
     _ \<leftarrow> require (current ring (node_id_of ed i) 2500 = Some node_key2);
     _ \<leftarrow> require (accepts ring (node_id_of ed i) node1 2500);
     ring \<leftarrow> ring_upsert ed ann1 2600 ring;
     _ \<leftarrow> require (current ring (node_id_of ed i) 2600 = Some node_key2);
     end_ms \<leftarrow> chk_add 2000 DEFAULT_OVERLAP_MS;
     end_ms \<leftarrow> chk_add end_ms 1;
     require (\<not> accepts ring (node_id_of ed i) node1 end_ms)
   }"

definition expired_announcement_rejected :: "ed25519 \<Rightarrow> identity \<Rightarrow> identity \<Rightarrow> unit option" where
  "expired_announcement_rejected ed i node = do {
     ann \<leftarrow> make_ann ed i node 1 1000;
     end_ms \<leftarrow> chk_add 1000 DEFAULT_OVERLAP_MS;
     end_ms \<leftarrow> chk_add end_ms 1;
     require (isl (fst (upsert ed nr_new ann end_ms)))
   }"

section \<open>Tickets\<close>

definition ticket :: "ed25519 \<Rightarrow> identity \<Rightarrow> identity \<Rightarrow> u64 \<Rightarrow> bytes \<Rightarrow> bytes \<Rightarrow> relay_ticket option" where
  "ticket ed origin dest now challenge nonce = do {
     expiry \<leftarrow> chk_add now 3600000;
     unwrap (rt_sign ed origin (rt_new (node_id_of ed dest) (node_id_of ed origin) now expiry nonce challenge))
   }"

text \<open>\<^verbatim>\<open>t.verify(..)\<close> with \<^verbatim>\<open>is_ok\<close> or \<^verbatim>\<open>is_err\<close>, and \<^verbatim>\<open>guard.accept(..)\<close> or its negation.\<close>

definition ticket_verdict :: "ed25519 \<Rightarrow> relay_ticket \<Rightarrow> u64 \<Rightarrow> bytes \<Rightarrow> bool \<Rightarrow> unit option" where
  "ticket_verdict ed t now challenge ok = do { r \<leftarrow> rt_verify ed t now challenge; require (isl r \<noteq> ok) }"

definition expect_accept where
  "expect_accept iter ed xof t now challenge ok g = do {
     (r, g') \<leftarrow> rg_accept iter ed xof g t now challenge;
     _ \<leftarrow> require (r = ok);
     Some g'
   }"

abbreviation salt :: "u8 \<Rightarrow> bytes" where "salt c \<equiv> replicate 32 c"

abbreviation nonce16 :: "u8 \<Rightarrow> bytes" where "nonce16 n \<equiv> replicate 16 n"

definition sign_verify_and_accept where
  "sign_verify_and_accept iter ed xof origin dest = do {
     t \<leftarrow> ticket ed origin dest 1000 (salt 1) (nonce16 2);
     r \<leftarrow> rt_verify ed t 1000 (salt 1);
     _ \<leftarrow> unwrap r;
     _ \<leftarrow> expect_accept iter ed xof t 1000 (salt 1) True (rg_new 1000);
     Some ()
   }"

definition challenge_binding_rejects_stale_ticket where
  "challenge_binding_rejects_stale_ticket iter ed xof origin dest = do {
     t \<leftarrow> ticket ed origin dest 1000 (salt 1) (nonce16 3);
     _ \<leftarrow> ticket_verdict ed t 2000 (salt 9) False;
     _ \<leftarrow> expect_accept iter ed xof t 2000 (salt 9) False (rg_new 1000);
     Some ()
   }"

definition replay_same_ticket_rejected where
  "replay_same_ticket_rejected iter ed xof origin dest = do {
     t \<leftarrow> ticket ed origin dest 1000 (salt 1) (nonce16 4);
     g \<leftarrow> expect_accept iter ed xof t 1000 (salt 1) True (rg_new 1000);
     g \<leftarrow> expect_accept iter ed xof t 5000 (salt 1) False g;
     _ \<leftarrow> expect_accept iter ed xof t 500000 (salt 1) False g;
     Some ()
   }"

fun flood where
  "flood iter ed xof dest [] g = Some g"
| "flood iter ed xof dest ((i, origin) # rest) g = do {
     expiry \<leftarrow> chk_add 1000 3600000;
     junk \<leftarrow> unwrap (rt_sign ed origin (rt_new (node_id_of ed dest) (node_id_of ed origin) 1000 expiry (nonce16 i) (salt 1)));
     now \<leftarrow> chk_add 1000 (ucast i);
     (_, g') \<leftarrow> rg_accept iter ed xof g junk now (salt 1);
     flood iter ed xof dest rest g'
   }"

definition cache_flood_cannot_evict_live_ticket where
  "cache_flood_cannot_evict_live_ticket iter ed xof origin dest dest2 others = do {
     live \<leftarrow> ticket ed origin dest 1000 (salt 1) (nonce16 4);
     g \<leftarrow> expect_accept iter ed xof live 1000 (salt 1) True (rg_new 8);
     g \<leftarrow> flood iter ed xof dest2 (map (\<lambda>i. (word_of_nat i, others i)) [0..<64]) g;
     _ \<leftarrow> expect_accept iter ed xof live (1000 + 64) (salt 1) False g;
     Some ()
   }"

definition new_challenge_requires_new_signature where
  "new_challenge_requires_new_signature ed origin dest = do {
     t \<leftarrow> ticket ed origin dest 1000 (salt 1) (nonce16 5);
     _ \<leftarrow> ticket_verdict ed (t\<lparr>rt_challenge_hash := salt 5\<rparr>) 1000 (salt 5) False;
     t2 \<leftarrow> ticket ed origin dest 1000 (salt 1) (nonce16 7);
     ticket_verdict ed (t2\<lparr>rt_nonce := nonce16 8\<rparr>) 1000 (salt 1) False
   }"

definition expired_ticket_rejected_with_skew_tolerance where
  "expired_ticket_rejected_with_skew_tolerance ed origin dest = do {
     t \<leftarrow> ticket ed origin dest 1000 (salt 1) (nonce16 9);
     let skew = 2 * 60 * 1000;
     _ \<leftarrow> ticket_verdict ed t (1000 + 3600000) (salt 1) True;
     _ \<leftarrow> ticket_verdict ed t (1000 + 3600000 + skew) (salt 1) True;
     ticket_verdict ed t (1000 + 3600000 + skew + 1) (salt 1) False
   }"

definition ttl_cap_enforced where
  "ttl_cap_enforced ed origin dest = do {
     t \<leftarrow> unwrap (rt_sign ed origin (rt_new (node_id_of ed dest) (node_id_of ed origin) 1000 (1000 + MAX_TICKET_TTL_MS + 1)
       (nonce16 1) (salt 1)));
     ticket_verdict ed t 1000 (salt 1) False
   }"

definition wrong_signer_rejected where
  "wrong_signer_rejected ed origin mallory dest = do {
     let t = rt_new (node_id_of ed dest) (node_id_of ed origin) 10000 (10000 + 3600000) (nonce16 9) (salt 1);
     let t = t\<lparr>rt_sig := sign ed mallory (rt_signing_payload t)\<rparr>;
     ticket_verdict ed t 10000 (salt 1) False
   }"

section \<open>What the tests assume of the libraries\<close>

text \<open>A signature on one of these messages is not one on another of them.\<close>

definition binds :: "ed25519 \<Rightarrow> identity \<Rightarrow> bytes set \<Rightarrow> bool" where
  "binds ed i ms \<longleftrightarrow> (\<forall>m \<in> ms. \<forall>m' \<in> ms. m \<noteq> m' \<longrightarrow> ed_verify_err ed (node_id_of ed i) m' (sign ed i m) \<noteq> None)"

definition test_ticket :: "ed25519 \<Rightarrow> identity \<Rightarrow> identity \<Rightarrow> u8 \<Rightarrow> u8 \<Rightarrow> relay_ticket" where
  "test_ticket ed origin dest c n = rt_new (node_id_of ed dest) (node_id_of ed origin) 1000 3601000 (nonce16 n) (salt c)"

definition test_ann :: "ed25519 \<Rightarrow> identity \<Rightarrow> node_id \<Rightarrow> u64 \<Rightarrow> u64 \<Rightarrow> announcement" where
  "test_ann ed i key serial now = nk_new (node_id_of ed i) key serial now DEFAULT_OVERLAP_MS"

definition tested_messages :: "ed25519 \<Rightarrow> identity \<Rightarrow> identity \<Rightarrow> bytes set" where
  "tested_messages ed i j = {hello, bad_hello}
     \<union> (\<lambda>(c, n). rt_signing_payload (test_ticket ed i j c n)) ` {(1, 5), (5, 5), (1, 7), (1, 8)}
     \<union> {nk_signing_payload (test_ann ed i (node_id_of ed j) 1 1000), nk_signing_payload (test_ann ed i (replicate 32 9) 1 1000)}"

definition key_len_ok :: "ed25519 \<Rightarrow> bool" where
  "key_len_ok ed \<longleftrightarrow> (\<forall>seed. length (ed_pub ed seed) = 32)"

definition xof_len_ok :: "(bytes \<Rightarrow> nat \<Rightarrow> bytes) \<Rightarrow> bool" where
  "xof_len_ok xof \<longleftrightarrow> (\<forall>m n. length (xof m n) = n)"

definition hashed_messages :: "ed25519 \<Rightarrow> identity \<Rightarrow> identity \<Rightarrow> bytes set" where
  "hashed_messages ed i j = fingerprint_input ` {[ascii ''identity'', node_id_of ed i], [ascii ''identity'', node_id_of ed j],
     [ascii ''identity'', replicate 32 1], [replicate 32 1, ascii ''identity'']}"

text \<open>A library that is easy to compute and keeps the values of the tests apart.\<close>

definition sum_sign :: "bytes \<Rightarrow> bytes \<Rightarrow> bytes" where
  "sum_sign pk m = replicate 32 (sum_list pk + sum_list m) @ replicate 32 (word_of_nat (length m))"

definition sum_ed :: ed25519 where
  "sum_ed = \<lparr>ed_pub = (\<lambda>s. take 32 (s @ replicate 32 0)), ed_sign = (\<lambda>s. sum_sign (take 32 (s @ replicate 32 0))),
     ed_key_err = (\<lambda>_. None), ed_verify_err = (\<lambda>pk m sig. if sig = sum_sign pk m then None else Some [])\<rparr>"

definition pad_xof :: "bytes \<Rightarrow> nat \<Rightarrow> bytes" where
  "pad_xof m n = take n (m @ replicate n 0)"

abbreviation ident :: "u8 \<Rightarrow> identity" where "ident b \<equiv> \<lparr>id_seed = replicate 32 b\<rparr>"

section \<open>The suites\<close>

definition identity_tests where
  "identity_tests ed xof i j = [node_id_is_public_key ed i, identity_sign_verify_roundtrip ed i,
     fingerprint_is_1024bit_and_deterministic ed xof i j, fingerprint_domain_separated xof, format_groups]"

definition nodekey_tests where
  "nodekey_tests ed i node other = [announcement_sign_verify_roundtrip ed i node, tamper_rejected ed i node,
     ring_picks_highest_serial_and_overlaps ed i node other, expired_announcement_rejected ed i node]"

definition relay_tests where
  "relay_tests iter ed xof origin dest dest2 mallory others = [sign_verify_and_accept iter ed xof origin dest,
     challenge_binding_rejects_stale_ticket iter ed xof origin dest, replay_same_ticket_rejected iter ed xof origin dest,
     cache_flood_cannot_evict_live_ticket iter ed xof origin dest dest2 others, new_challenge_requires_new_signature ed origin dest,
     expired_ticket_rejected_with_skew_tolerance ed origin dest, ttl_cap_enforced ed origin dest,
     wrong_signer_rejected ed origin mallory dest]"

section \<open>The tests of identities\<close>

lemma binds_refused:
  assumes "binds ed i ms" and "m \<in> ms" and "m' \<in> ms" and "m \<noteq> m'"
  shows "isl (verify_sig ed (node_id_of ed i) m' (sign ed i m))"
proof -
  have "verify_sig ed (node_id_of ed i) m' (sign ed i m) \<noteq> Inr ()" using assms by (auto simp: binds_def verify_sig_ok_iff)
  then show ?thesis by (cases "verify_sig ed (node_id_of ed i) m' (sign ed i m)") simp_all
qed

lemma chunks_same: "chunks 8 (hex (replicate (4 * k) 171)) = replicate k ''abababab''"
proof (induction k)
  case (Suc k)
  have "hex_byte 171 = ''ab''" by code_simp
  moreover have "4 * Suc k = Suc (Suc (Suc (Suc (4 * k))))" by simp
  ultimately have "hex (replicate (4 * Suc k) 171) = ''abababab'' @ hex (replicate (4 * k) 171)"
    by (simp only: replicate_Suc hex_simps) simp
  then show ?case using Suc by (simp add: chunks_step)
qed simp

lemma format_test: "format_groups = Some ()"
proof -
  have c: "chunks 8 (hex (replicate 128 171)) = replicate 32 ''abababab''" using chunks_same [of 32] by simp
  have f: "format_fingerprint (replicate 128 171) = join_with '' '' (replicate 32 ''abababab'')"
    by (simp add: format_fingerprint_def c)
  have "length (format_fingerprint (replicate 128 171)) = 287"
    unfolding f using length_join_equal [of "replicate 32 ''abababab''" 8 "CHR '' ''"] by simp
  moreover have "replicate 32 ''abababab'' = ''abababab'' # ''abababab'' # ''abababab'' # replicate 29 ''abababab''"
    by (simp add: numeral_eq_Suc)
  then have "format_fingerprint (replicate 128 171) = ''abababab abababab'' @ '' '' @ join_with '' '' (''abababab'' # replicate 29 ''abababab'')"
    unfolding f by simp
  moreover have "safety_groups (replicate 128 171) 4 = ''abababab abababab abababab abababab''"
    using format_fingerprint_groups [of "replicate 128 171" 32] by (simp add: safety_groups_def c) (simp add: numeral_eq_Suc)
  ultimately show ?thesis by (simp add: format_groups_def require_def Let_def)
qed

lemma identity_key_tests:
  assumes "ed25519_ok ed" and "key_len_ok ed" and "binds ed i ms" and "{hello, bad_hello} \<subseteq> ms"
  shows "node_id_is_public_key ed i = Some ()" "identity_sign_verify_roundtrip ed i = Some ()"
proof -
  show "node_id_is_public_key ed i = Some ()"
    using assms(2) by (simp add: node_id_is_public_key_def key_len_ok_def node_id_of_def from_seed_def clone_seed_def require_def Let_def)
  have "hello \<noteq> bad_hello" by (simp add: hello_def bad_hello_def ascii_def)
  then have "isl (verify_sig ed (node_id_of ed i) bad_hello (sign ed i hello))"
    using assms(4) by (intro binds_refused [OF assms(3)]) auto
  then show "identity_sign_verify_roundtrip ed i = Some ()"
    using verify_sig_honest [OF assms(1)] by (simp add: identity_sign_verify_roundtrip_def require_def Let_def)
qed

lemma identity_hash_tests:
  assumes "key_len_ok ed" and "xof_len_ok xof" and "inj_on (\<lambda>m. xof m 128) (hashed_messages ed i j)" and "node_id_of ed i \<noteq> node_id_of ed j"
  shows "fingerprint_is_1024bit_and_deterministic ed xof i j = Some ()" "fingerprint_domain_separated xof = Some ()"
proof -
  have len: "length (node_id_of ed k) = 32" for k using assms(1) by (simp add: key_len_ok_def node_id_of_def)
  have "length (ascii ''identity'') \<noteq> length (replicate 32 (1 :: u8))" by (simp add: ascii_def)
  then have "ascii ''identity'' \<noteq> replicate 32 1" by metis
  then have "fingerprint_input [ascii ''identity'', node_id_of ed i] \<noteq> fingerprint_input [ascii ''identity'', node_id_of ed j]"
    "fingerprint_input [ascii ''identity'', replicate 32 1] \<noteq> fingerprint_input [replicate 32 1, ascii ''identity'']"
    using assms(4) len by (simp_all add: fingerprint_input_unambiguous)
  then have "fingerprint1024 xof [ascii ''identity'', node_id_of ed i] \<noteq> fingerprint1024 xof [ascii ''identity'', node_id_of ed j]"
    "fingerprint1024 xof [ascii ''identity'', replicate 32 1] \<noteq> fingerprint1024 xof [replicate 32 1, ascii ''identity'']"
    using assms(3) unfolding fingerprint1024_def FINGERPRINT_LEN_def hashed_messages_def by (auto dest: inj_onD)
  then show "fingerprint_is_1024bit_and_deterministic ed xof i j = Some ()" "fingerprint_domain_separated xof = Some ()"
    using assms(2) by (simp_all add: fingerprint_is_1024bit_and_deterministic_def fingerprint_domain_separated_def identity_fingerprint_def
        require_def Let_def, simp add: fingerprint1024_def FINGERPRINT_LEN_def xof_len_ok_def)
qed

section \<open>The tests of announcements\<close>

lemma overlap: "unat DEFAULT_OVERLAP_MS = 604800000" "sat_add 1000 DEFAULT_OVERLAP_MS = 604801000" "sat_add 2000 DEFAULT_OVERLAP_MS = 604802000"
  by (simp_all add: DEFAULT_OVERLAP_MS_def sat_add_def)

lemma make_ann_eq: "make_ann ed i node serial now = Some ((test_ann ed i (node_id_of ed node) serial now)\<lparr>nk_sig :=
    sign ed i (nk_signing_payload (test_ann ed i (node_id_of ed node) serial now))\<rparr>)"
  by (simp add: make_ann_def nk_sign_def test_ann_def nk_new_def)

abbreviation signed_ann where
  "signed_ann ed i a \<equiv> a\<lparr>nk_sig := sign ed i (nk_signing_payload a)\<rparr>"

lemma ann_payload [simp]: "nk_signing_payload (a\<lparr>nk_sig := s\<rparr>) = nk_signing_payload a"
  by (simp add: nk_signing_payload_def)

lemma test_ann_sel [simp]:
  "nk_identity (test_ann ed i key serial now) = node_id_of ed i" "nk_node_key (test_ann ed i key serial now) = key"
  "nk_serial (test_ann ed i key serial now) = serial" "nk_not_before_ms (test_ann ed i key serial now) = now"
  "nk_not_after_ms (test_ann ed i key serial now) = sat_add now DEFAULT_OVERLAP_MS"
  by (simp_all add: test_ann_def nk_new_def)

lemma ann_verifies:
  assumes "ed25519_ok ed" and "serial \<noteq> 0" and "unat now + 604800000 < 2 ^ 64"
  shows "nk_verify ed (signed_ann ed i (test_ann ed i key serial now)) = Inr ()"
  using assms(2,3) verify_sig_honest [OF assms(1)] by (simp add: nk_verify_ok_iff unat_sat_add overlap)

lemma tamper_test:
  assumes "key_len_ok ed" and "binds ed i ms" and "node_id_of ed node \<noteq> replicate 32 9"
    and "{nk_signing_payload (test_ann ed i (node_id_of ed node) 1 1000), nk_signing_payload (test_ann ed i (replicate 32 9) 1 1000)} \<subseteq> ms"
  shows "tamper_rejected ed i node = Some ()"
proof -
  let ?a = "test_ann ed i (node_id_of ed node) 1 1000" and ?b = "test_ann ed i (replicate 32 9) 1 1000"
  have isl_iff: "isl (nk_verify ed a) \<longleftrightarrow> nk_verify ed a \<noteq> Inr ()" for a by (cases "nk_verify ed a") simp_all
  have "nk_signing_payload ?a \<noteq> nk_signing_payload ?b"
    using assms(1,3) by (simp add: nk_signing_payload_def key_len_ok_def node_id_of_def)
  then have "isl (verify_sig ed (node_id_of ed i) (nk_signing_payload ?b) (sign ed i (nk_signing_payload ?a)))"
    using assms(4) by (intro binds_refused [OF assms(2)]) auto
  moreover have "nk_signing_payload ((signed_ann ed i ?a)\<lparr>nk_node_key := replicate 32 9\<rparr>) = nk_signing_payload ?b"
    by (simp add: nk_signing_payload_def)
  ultimately have "isl (nk_verify ed ((signed_ann ed i ?a)\<lparr>nk_node_key := replicate 32 9\<rparr>))"
    unfolding isl_iff nk_verify_ok_iff by auto
  moreover have "isl (nk_verify ed (a\<lparr>nk_not_after_ms := nk_not_before_ms a\<rparr>))" "isl (nk_verify ed (a\<lparr>nk_serial := 0\<rparr>))" for a
    unfolding isl_iff nk_verify_ok_iff by simp_all
  ultimately show ?thesis by (simp add: tamper_rejected_def make_ann_eq require_def Let_def)
qed

lemma ring_test:
  assumes "ed25519_ok ed"
  shows "ring_picks_highest_serial_and_overlaps ed i node other = Some ()"
proof -
  let ?a1 = "signed_ann ed i (test_ann ed i (node_id_of ed node) 1 1000)" and ?a2 = "signed_ann ed i (test_ann ed i (node_id_of ed other) 2 2000)"
  let ?r = "\<lambda>slot. \<lparr>nr_entries = [(node_id_of ed i, slot)]\<rparr>"
  have v: "nk_verify ed ?a1 = Inr ()" "nk_verify ed ?a2 = Inr ()" by (simp_all add: ann_verifies [OF assms])
  have t: "trim_slot n [x] = [x]" "trim_slot n [x, y] = [x, y]" for n x y
    by (simp_all add: trim_slot.simps MAX_ANNOUNCEMENTS_PER_IDENTITY_def)
  have "ring_upsert ed ?a1 1500 nr_new = Some (?r [?a1])" "ring_upsert ed ?a2 2500 (?r [?a1]) = Some (?r [?a1, ?a2])"
    "ring_upsert ed ?a1 2600 (?r [?a1, ?a2]) = Some (?r [?a1, ?a2])"
    by (simp_all add: ring_upsert_def upsert_def v nr_new_def slot_of_def hm_get_def hm_insert_def t overlap)
  moreover have "current (?r [?a1]) (node_id_of ed i) 1500 = Some (node_id_of ed node)"
    "current (?r [?a1, ?a2]) (node_id_of ed i) 2500 = Some (node_id_of ed other)"
    "current (?r [?a1, ?a2]) (node_id_of ed i) 2600 = Some (node_id_of ed other)"
    by (simp_all add: current_def hm_get_def valid_at_def overlap)
  moreover have "accepts (?r [?a1, ?a2]) (node_id_of ed i) (node_id_of ed node) 2500"
    "\<not> accepts (?r [?a1, ?a2]) (node_id_of ed i) (node_id_of ed node) 604802001"
    by (simp_all add: accepts_def hm_get_def valid_at_def overlap)
  moreover have "unwrap (nk_sign ed i (nk_new (node_id_of ed i) (node_id_of ed other) 2 2000 DEFAULT_OVERLAP_MS)) = Some ?a2"
    by (simp add: nk_sign_def test_ann_def nk_new_def)
  moreover have "chk_add 2000 DEFAULT_OVERLAP_MS = Some 604802000" "chk_add (604802000 :: u64) 1 = Some 604802001"
    by (simp_all add: chk_add_def DEFAULT_OVERLAP_MS_def)
  ultimately show ?thesis
    by (simp add: ring_picks_highest_serial_and_overlaps_def make_ann_eq require_def Let_def)
qed

lemma small_announcement_tests:
  assumes "ed25519_ok ed"
  shows "announcement_sign_verify_roundtrip ed i node = Some ()" "expired_announcement_rejected ed i node = Some ()"
proof -
  let ?a = "signed_ann ed i (test_ann ed i (node_id_of ed node) 1 1000)"
  have v: "nk_verify ed ?a = Inr ()" by (simp add: ann_verifies [OF assms])
  have "chk_add 1000 DEFAULT_OVERLAP_MS = Some 604801000" "chk_add (604801000 :: u64) 1 = Some 604801001"
    by (simp_all add: chk_add_def DEFAULT_OVERLAP_MS_def)
  then show "announcement_sign_verify_roundtrip ed i node = Some ()" "expired_announcement_rejected ed i node = Some ()"
    by (simp_all add: announcement_sign_verify_roundtrip_def expired_announcement_rejected_def make_ann_eq v upsert_def overlap require_def)
qed

section \<open>The tests of tickets\<close>

abbreviation signed_ticket where
  "signed_ticket ed i t \<equiv> t\<lparr>rt_sig := sign ed i (rt_signing_payload t)\<rparr>"

lemma test_ticket_sel [simp]:
  "rt_dest_node_key (test_ticket ed i j c n) = node_id_of ed j" "rt_origin_node_key (test_ticket ed i j c n) = node_id_of ed i"
  "rt_expiry_ms (test_ticket ed i j c n) = 3601000" "rt_issued_at_ms (test_ticket ed i j c n) = 1000"
  "rt_nonce (test_ticket ed i j c n) = nonce16 n" "rt_challenge_hash (test_ticket ed i j c n) = salt c"
  by (simp_all add: test_ticket_def rt_new_def)

lemma ticket_payload [simp]: "rt_signing_payload (t\<lparr>rt_sig := s\<rparr>) = rt_signing_payload t"
  by (simp add: rt_signing_payload_def)

lemma ticket_eq: "ticket ed i j 1000 (salt c) (nonce16 n) = Some (signed_ticket ed i (test_ticket ed i j c n))"
  by (simp add: ticket_def rt_sign_def test_ticket_def rt_new_def chk_add_def)

lemma ticket_verdict_eq:
  assumes "unat now + 7440000 < 2 ^ 64" and "rt_verify ed t now ch = Some (Inr ()) \<longleftrightarrow> ok"
  shows "ticket_verdict ed t now ch ok = Some ()"
proof -
  obtain r where r: "rt_verify ed t now ch = Some r" using rt_verify_returns [OF assms(1), of ed t ch] by auto
  then show ?thesis using assms(2) by (cases r) (auto simp: ticket_verdict_def require_def)
qed

lemma ticket_verifies:
  assumes "ed25519_ok ed" and "n \<noteq> 0" and "unat now + 120000 < 2 ^ 64"
  shows "rt_verify ed (signed_ticket ed i (test_ticket ed i j c n)) now ch = Some (Inr ())
    \<longleftrightarrow> ch = salt c \<and> 1000 \<le> unat now + 120000 \<and> unat now \<le> 3721000"
  using assms(2,3) verify_sig_honest [OF assms(1)] by (auto simp: rt_verify_ok_iff replicate_eq_replicate)

lemma ticket_altered:
  assumes "binds ed i ms" and "{rt_signing_payload t, rt_signing_payload t'} \<subseteq> ms" and "rt_signing_payload t \<noteq> rt_signing_payload t'"
    and "rt_origin_node_key t' = node_id_of ed i" and "rt_sig t' = sign ed i (rt_signing_payload t)"
  shows "rt_verify ed t' now ch \<noteq> Some (Inr ())"
  using binds_refused [OF assms(1), of "rt_signing_payload t" "rt_signing_payload t'"] assms(2-5) unfolding rt_verify_ok_iff by auto

lemma ticket_check_tests:
  assumes "ed25519_ok ed" and "binds ed i ms" and "(\<lambda>(c, n). rt_signing_payload (test_ticket ed i j c n)) ` {(1, 5), (5, 5), (1, 7), (1, 8)} \<subseteq> ms"
  shows "new_challenge_requires_new_signature ed i j = Some ()" "expired_ticket_rejected_with_skew_tolerance ed i j = Some ()"
    "ttl_cap_enforced ed i j = Some ()"
proof -
  have p: "rt_signing_payload ((signed_ticket ed i (test_ticket ed i j 1 5))\<lparr>rt_challenge_hash := salt 5\<rparr>) = rt_signing_payload (test_ticket ed i j 5 5)"
    "rt_signing_payload ((signed_ticket ed i (test_ticket ed i j 1 7))\<lparr>rt_nonce := nonce16 8\<rparr>) = rt_signing_payload (test_ticket ed i j 1 8)"
    by (simp_all add: rt_signing_payload_def)
  have n: "rt_signing_payload (test_ticket ed i j 1 5) \<noteq> rt_signing_payload (test_ticket ed i j 5 5)"
    "rt_signing_payload (test_ticket ed i j 1 7) \<noteq> rt_signing_payload (test_ticket ed i j 1 8)"
    by (simp_all add: rt_signing_payload_def)
  have "rt_verify ed ((signed_ticket ed i (test_ticket ed i j 1 5))\<lparr>rt_challenge_hash := salt 5\<rparr>) 1000 (salt 5) \<noteq> Some (Inr ())"
    by (rule ticket_altered [OF assms(2), of "test_ticket ed i j 1 5"]) (use assms(3) n p in auto)
  moreover have "rt_verify ed ((signed_ticket ed i (test_ticket ed i j 1 7))\<lparr>rt_nonce := nonce16 8\<rparr>) 1000 (salt 1) \<noteq> Some (Inr ())"
    by (rule ticket_altered [OF assms(2), of "test_ticket ed i j 1 7"]) (use assms(3) n p in auto)
  ultimately show "new_challenge_requires_new_signature ed i j = Some ()"
    by (simp add: new_challenge_requires_new_signature_def ticket_eq ticket_verdict_eq)
  show "expired_ticket_rejected_with_skew_tolerance ed i j = Some ()"
    by (simp add: expired_ticket_rejected_with_skew_tolerance_def ticket_eq ticket_verdict_eq ticket_verifies [OF assms(1)] Let_def)
  show "ttl_cap_enforced ed i j = Some ()"
    by (simp add: ttl_cap_enforced_def rt_sign_def rt_new_def ticket_verdict_eq rt_verify_ok_iff MAX_TICKET_TTL_MS_def)
qed

lemma wrong_signer_test:
  assumes "t = rt_new (node_id_of ed j) (node_id_of ed i) 10000 3610000 (nonce16 9) (salt 1)"
    and "ed_verify_err ed (node_id_of ed i) (rt_signing_payload t) (sign ed k (rt_signing_payload t)) \<noteq> None"
  shows "wrong_signer_rejected ed i k j = Some ()"
proof -
  have origin: "rt_origin_node_key t = node_id_of ed i" by (simp add: assms(1) rt_new_def)
  have "rt_verify ed (t\<lparr>rt_sig := sign ed k (rt_signing_payload t)\<rparr>) 10000 (salt 1) \<noteq> Some (Inr ())"
    using assms(2) origin by (auto simp: rt_verify_ok_iff verify_sig_ok_iff)
  then show ?thesis by (simp add: wrong_signer_rejected_def assms(1) [symmetric] ticket_verdict_eq Let_def)
qed

section \<open>The tests of the guard\<close>

lemma accept_first:
  assumes "rt_verify ed t now ch = Some (Inr ())" and "iter_ok iter"
  shows "expect_accept iter ed xof t now ch True (rg_new n)
    = Some \<lparr>rg_seen = [(rt_fingerprint xof t, rt_expiry_ms t, rt_origin_node_key t, ch)], rg_max_entries = max n 1\<rparr>"
proof -
  have "iter [] = []" using assms(2) by (metis iter_ok_def mset_zero_iff)
  then show ?thesis
    using assms(1)
    by (simp add: expect_accept_def rg_accept_def rg_new_def hm_contains_def hm_get_def hm_values_def retain_unexpired_def hm_retain_def
        evict_origin.simps evict_dead.simps origin_count_def MAX_SLOTS_PER_ORIGIN_def hm_insert_def require_def Let_def)
qed

lemma accept_known:
  assumes "unat now + 7440000 < 2 ^ 64" and "hm_contains (rg_seen g) (rt_fingerprint xof t)"
  shows "expect_accept iter ed xof t now ch False g = Some g"
proof -
  obtain r where "rt_verify ed t now ch = Some r" using rt_verify_returns [OF assms(1), of ed t ch] by auto
  then show ?thesis using assms(2) by (simp add: expect_accept_def rg_accept_def require_def Let_def)
qed

lemma guard_tests:
  assumes "ed25519_ok ed" and "iter_ok iter"
  shows "sign_verify_and_accept iter ed xof i j = Some ()" "challenge_binding_rejects_stale_ticket iter ed xof i j = Some ()"
    "replay_same_ticket_rejected iter ed xof i j = Some ()"
proof -
  note v = ticket_verifies [OF assms(1)] and first = accept_first [OF _ assms(2)]
  have "rt_verify ed (signed_ticket ed i (test_ticket ed i j 1 2)) 1000 (salt 1) = Some (Inr ())" by (simp add: v)
  then show "sign_verify_and_accept iter ed xof i j = Some ()"
    by (simp add: sign_verify_and_accept_def ticket_eq first)
  let ?t = "signed_ticket ed i (test_ticket ed i j 1 3)"
  obtain r where r: "rt_verify ed ?t 2000 (salt 9) = Some r" "r \<noteq> Inr ()"
    using rt_verify_returns [of 2000 ed ?t "salt 9"] v [of 3 2000 i j 1 "salt 9"] by fastforce
  then have "isl r" by (cases r) simp_all
  then show "challenge_binding_rejects_stale_ticket iter ed xof i j = Some ()"
    by (simp add: challenge_binding_rejects_stale_ticket_def ticket_eq ticket_verdict_def expect_accept_def rg_accept_def r require_def)
  show "replay_same_ticket_rejected iter ed xof i j = Some ()"
    by (simp add: replay_same_ticket_rejected_def ticket_eq v first accept_known hm_contains_def hm_get_def)
qed

lemma flood_ends:
  assumes "ed25519_ok ed" and "iter_ok iter" and "rg_inv g" and "rg_bounded 7330000 g"
    and "hm_get (rg_seen g) k = Some (3601000, origin, salt 1)" and "\<forall>(i, other) \<in> set js. node_id_of ed other \<noteq> origin"
  shows "\<exists>g'. flood iter ed xof dest js g = Some g' \<and> hm_get (rg_seen g') k = Some (3601000, origin, salt 1)"
  using assms(3-6)
proof (induction js arbitrary: g)
  case (Cons j js)
  obtain i other where j: "j = (i, other)" by (cases j)
  let ?t = "signed_ticket ed other (test_ticket ed other dest 1 i)" and ?now = "1000 + ucast i :: u64"
  have "unat (ucast i :: u64) < 256" using unsigned_less [of i, where 'a = nat] by (simp add: unsigned_ucast_eq take_bit_nat_eq_self)
  then have now: "chk_add 1000 (ucast i :: u64) = Some ?now" "unat ?now < 1256"
    by (simp_all add: chk_add_def unat_word_ariths)
  have "rg_accept iter ed xof g ?t ?now (salt 1) \<noteq> None"
    using now(2) Cons.prems(2) by (intro rg_accept_returns [of _ 10000] assms(2)) simp_all
  then obtain b g' where acc: "rg_accept iter ed xof g ?t ?now (salt 1) = Some (b, g')" by auto
  have "rg_inv g'" using rg_accept_inv [OF acc Cons.prems(1) assms(2)] by simp
  moreover have "rg_bounded 7330000 g'"
    using rg_bounded_step [of ?now 10000 g iter ed xof ?t "salt 1"] now(2) Cons.prems(1,2) assms(2) acc by (simp add: rg_step_def)
  moreover have "rg_keeps xof g (?t, ?now, salt 1) k"
    using Cons.prems(3,4) now(2) by (auto simp: rg_keeps_def j)
  then have "hm_get (rg_seen g') k = Some (3601000, origin, salt 1)"
    using rg_accept_keeps [OF acc Cons.prems(1) assms(2) _ Cons.prems(3)] by simp
  ultimately have "\<exists>g''. flood iter ed xof dest js g' = Some g'' \<and> hm_get (rg_seen g'') k = Some (3601000, origin, salt 1)"
    using Cons.prems(4) by (intro Cons.IH) simp_all
  moreover have "chk_add 1000 (3600000 :: u64) = Some 3601000" by (simp add: chk_add_def)
  moreover have "rt_sign ed other (rt_new (node_id_of ed dest) (node_id_of ed other) 1000 3601000 (nonce16 i) (salt 1)) = Inr ?t"
    by (simp add: rt_sign_def test_ticket_def rt_new_def)
  ultimately show ?case by (simp add: j now(1) acc)
qed simp

lemma flood_test:
  assumes "ed25519_ok ed" and "iter_ok iter" and "\<forall>k < 64. node_id_of ed (others k) \<noteq> node_id_of ed i"
  shows "cache_flood_cannot_evict_live_ticket iter ed xof i j dest others = Some ()"
proof -
  let ?t = "signed_ticket ed i (test_ticket ed i j 1 4)"
  let ?g = "\<lparr>rg_seen = [(rt_fingerprint xof ?t, 3601000, node_id_of ed i, salt 1)], rg_max_entries = 8\<rparr>"
  have first: "expect_accept iter ed xof ?t 1000 (salt 1) True (rg_new 8) = Some ?g"
    using accept_first [OF _ assms(2), of ed ?t 1000 "salt 1" xof 8] ticket_verifies [OF assms(1)] by simp
  have "rg_inv ?g" "rg_bounded 7330000 ?g" "hm_get (rg_seen ?g) (rt_fingerprint xof ?t) = Some (3601000, node_id_of ed i, salt 1)"
    by (simp_all add: rg_inv_def rg_bounded_def hm_wf_def hm_get_def hm_values_def origin_count_def MAX_SLOTS_PER_ORIGIN_def)
  from flood_ends [OF assms(1,2) this, of "map (\<lambda>i. (word_of_nat i, others i)) [0..<64]" xof dest] assms(3)
  obtain g where g: "flood iter ed xof dest (map (\<lambda>i. (word_of_nat i, others i)) [0..<64]) ?g = Some g"
    "hm_get (rg_seen g) (rt_fingerprint xof ?t) = Some (3601000, node_id_of ed i, salt 1)"
    by fastforce
  have "expect_accept iter ed xof ?t 1064 (salt 1) False g = Some g"
    by (rule accept_known) (simp_all add: hm_contains_def g(2))
  then show ?thesis by (simp add: cache_flood_cannot_evict_live_ticket_def ticket_eq first g(1) del: upt_rec_numeral)
qed

text \<open>
  The tests of the three files pass, for every signature library that accepts what was signed and keeps the
  signatures of the tested messages apart, every hash that keeps the tested identities apart, and every
  iteration order of the table.
\<close>

theorem identity_tests_pass:
  assumes "ed25519_ok ed" and "key_len_ok ed" and "binds ed i (tested_messages ed i j)" and "xof_len_ok xof"
    and "inj_on (\<lambda>m. xof m 128) (hashed_messages ed i j)" and "node_id_of ed i \<noteq> node_id_of ed j"
  shows "identity_tests ed xof i j = replicate 5 (Some ())"
  using identity_key_tests [OF assms(1-3)] identity_hash_tests [OF assms(2,4-6)] format_test
  by (simp add: identity_tests_def tested_messages_def numeral_eq_Suc)

theorem nodekey_tests_pass:
  assumes "ed25519_ok ed" and "key_len_ok ed" and "binds ed i (tested_messages ed i node)" and "node_id_of ed node \<noteq> replicate 32 9"
  shows "nodekey_tests ed i node other = replicate 4 (Some ())"
  using small_announcement_tests [OF assms(1)] tamper_test [OF assms(2-4)] ring_test [OF assms(1)]
  by (simp add: nodekey_tests_def tested_messages_def numeral_eq_Suc)

theorem relay_tests_pass:
  assumes "ed25519_ok ed" and "binds ed i (tested_messages ed i j)" and "iter_ok iter"
    and "\<forall>k < 64. node_id_of ed (others k) \<noteq> node_id_of ed i"
    and "t = rt_new (node_id_of ed j) (node_id_of ed i) 10000 3610000 (nonce16 9) (salt 1)"
    and "ed_verify_err ed (node_id_of ed i) (rt_signing_payload t) (sign ed mallory (rt_signing_payload t)) \<noteq> None"
  shows "relay_tests iter ed xof i j dest mallory others = replicate 8 (Some ())"
proof -
  have "(\<lambda>(c, n). rt_signing_payload (test_ticket ed i j c n)) ` {(1, 5), (5, 5), (1, 7), (1, 8)} \<subseteq> tested_messages ed i j"
    unfolding tested_messages_def by blast
  then show ?thesis
    using ticket_check_tests [OF assms(1,2)] guard_tests [OF assms(1,3)] flood_test [OF assms(1,3,4)] wrong_signer_test [OF assms(5,6)]
    by (simp add: relay_tests_def numeral_eq_Suc)
qed

section \<open>What they assume can be met\<close>

lemma sum_ed_laws: "ed25519_ok sum_ed" "key_len_ok sum_ed" "xof_len_ok pad_xof" "node_id_of sum_ed (ident b) = replicate 32 b"
  by (simp_all add: ed25519_ok_def key_len_ok_def xof_len_ok_def sum_ed_def sum_sign_def pad_xof_def node_id_of_def min_def)

lemma sum_sign_eq: "sum_sign pk m = sum_sign pk' m' \<longleftrightarrow> sum_list pk + sum_list m = sum_list pk' + sum_list m'
    \<and> (word_of_nat (length m) :: u8) = word_of_nat (length m')"
  by (auto simp: sum_sign_def replicate_eq_replicate)

lemma sum_ed_binds: "binds sum_ed i ms \<longleftrightarrow> (\<forall>m \<in> ms. \<forall>m' \<in> ms. m \<noteq> m' \<longrightarrow>
    sum_list m \<noteq> sum_list m' \<or> (word_of_nat (length m) :: u8) \<noteq> word_of_nat (length m'))"
  by (auto simp: binds_def sum_ed_def sign_def node_id_of_def sum_sign_eq split: if_splits)

lemma sum_ed_tested: "binds sum_ed (ident 0) (tested_messages sum_ed (ident 0) (ident 2))"
  unfolding sum_ed_binds tested_messages_def
  by (simp add: hello_def bad_hello_def ascii_def rt_signing_payload_def nk_signing_payload_def sum_ed_laws sum_list_replicate u64_be_def)

lemma pad_xof_apart: "inj_on (\<lambda>m. pad_xof m 128) (hashed_messages sum_ed (ident 0) (ident 2))"
proof -
  have "length m = 77" if "m \<in> hashed_messages sum_ed (ident 0) (ident 2)" for m
    using that by (auto simp: hashed_messages_def fingerprint_input_def sum_ed_laws ascii_def)
  then show ?thesis by (auto simp: inj_on_def pad_xof_def)
qed

theorem key_tests_run: "identity_tests sum_ed pad_xof (ident 0) (ident 2) = replicate 5 (Some ())
  \<and> nodekey_tests sum_ed (ident 0) (ident 2) (ident 3) = replicate 4 (Some ())
  \<and> relay_tests (\<lambda>m. m) sum_ed pad_xof (ident 0) (ident 2) (ident 3) (ident 4) (\<lambda>k. ident (word_of_nat (k + 1))) = replicate 8 (Some ())"
proof (intro conjI)
  show "identity_tests sum_ed pad_xof (ident 0) (ident 2) = replicate 5 (Some ())"
    by (rule identity_tests_pass [OF sum_ed_laws(1,2) sum_ed_tested sum_ed_laws(3) pad_xof_apart]) (simp add: sum_ed_laws replicate_eq_replicate)
  show "nodekey_tests sum_ed (ident 0) (ident 2) (ident 3) = replicate 4 (Some ())"
    by (rule nodekey_tests_pass [OF sum_ed_laws(1,2) sum_ed_tested]) (simp add: sum_ed_laws replicate_eq_replicate)
  have "unat (word_of_nat (k + 1) :: u8) = k + 1" if "k < 64" for k unfolding unat_of_nat using that by simp
  then have "(word_of_nat (k + 1) :: u8) \<noteq> 0" if "k < 64" for k using that by (metis add_is_0 unsigned_0 zero_neq_one)
  then show "relay_tests (\<lambda>m. m) sum_ed pad_xof (ident 0) (ident 2) (ident 3) (ident 4) (\<lambda>k. ident (word_of_nat (k + 1)))
      = replicate 8 (Some ())"
    by (intro relay_tests_pass [OF sum_ed_laws(1) sum_ed_tested _ _ refl])
      (simp_all add: sum_ed_laws replicate_eq_replicate iter_ok_def, simp add: sum_ed_def sign_def node_id_of_def sum_sign_eq sum_list_replicate)
qed

end
