(* ===== verification/Store_Tests.thy ===== *)
theory Store_Tests
  imports Contacts Settings
begin

text \<open>
  The unit tests of \<^verbatim>\<open>contacts.rs\<close> and \<^verbatim>\<open>settings.rs\<close> on the model, statement by statement; \<open>None\<close> is a failed \<^verbatim>\<open>unwrap\<close>
  or \<^verbatim>\<open>assert\<close>. The clock readings of the calls, the order of equal rows and the JSON coder are arguments. Left out: the
  tests of a wrong key and of unknown fields in the file, which test SQLCipher and the JSON library.
\<close>

section \<open>Contacts\<close>

abbreviation steady_db :: faults where "steady_db \<equiv> \<lambda>_. None"

definition open_contacts :: "contact_db \<Rightarrow> string \<Rightarrow> string option \<Rightarrow> contact_db result" where
  "open_contacts disk path key = contacts_open None (\<lambda>_. None) None disk path key"

text \<open>\<^verbatim>\<open>s.upsert(..).unwrap()\<close>, and the same with \<^verbatim>\<open>is_ok\<close> or \<^verbatim>\<open>is_err\<close>.\<close>

definition upsert_unwrap where
  "upsert_unwrap now name ident bucket verified note link node naddr d =
     (let (r, d') = upsert_contact steady_db now d name ident bucket verified note link node naddr in do { _ \<leftarrow> unwrap r; Some d' })"

definition upsert_expect where
  "upsert_expect ok now name ident bucket verified note link node naddr d =
     (let (r, d') = upsert_contact steady_db now d name ident bucket verified note link node naddr in do { _ \<leftarrow> require (isl r \<noteq> ok); Some d' })"

definition find_contact where
  "find_contact ord name d = do { cs \<leftarrow> unwrap (list_contacts ord steady_db d); find (\<lambda>c. ci_name c = name) cs }"

text \<open>The note of the second contact is the two characters of the source, as their six bytes.\<close>

definition a_note :: string where
  "a_note = map char_of [229 :: nat, 164, 135, 230, 179, 168]"

definition upsert_list_verify_delete :: "(contact_row list \<Rightarrow> contact_row list) \<Rightarrow> (nat \<Rightarrow> int) \<Rightarrow> unit option" where
  "upsert_list_verify_delete ord now = do {
     s \<leftarrow> unwrap (open_contacts cd_empty '':memory:'' None);
     s \<leftarrow> upsert_unwrap (now 0) ''bob'' (replicate 33 1) (replicate 32 2) False [] (replicate 32 9) [] [] s;
     s \<leftarrow> upsert_unwrap (now 1) ''alice'' (replicate 33 3) (replicate 32 4) True a_note (replicate 32 9) ''aa'' ''dc://node?v=1&id=aa'' s;
     l \<leftarrow> unwrap (list_contacts ord steady_db s);
     _ \<leftarrow> require (length l = 2);
     s \<leftarrow> upsert_unwrap (now 2) ''bob'' (replicate 33 5) (replicate 32 6) True [] (replicate 32 8) ''bb'' [] s;
     l \<leftarrow> unwrap (list_contacts ord steady_db s);
     _ \<leftarrow> require (length l = 2);
     bob \<leftarrow> find_contact ord ''bob'' s;
     _ \<leftarrow> require (ci_identity bob = replicate 33 5);
     _ \<leftarrow> require (ci_link_secret bob = replicate 32 8);
     _ \<leftarrow> require (ci_node_id bob = ''bb'');
     _ \<leftarrow> require (ci_verified bob);
     alice \<leftarrow> find_contact ord ''alice'' s;
     _ \<leftarrow> require (ci_node_naddr alice = ''dc://node?v=1&id=aa'');
     let (r, s) = delete_contact steady_db s ''alice'';
     _ \<leftarrow> unwrap r;
     l \<leftarrow> unwrap (list_contacts ord steady_db s);
     require (length l = 1)
   }"

definition identity_33_roundtrip :: "(contact_row list \<Rightarrow> contact_row list) \<Rightarrow> (nat \<Rightarrow> int) \<Rightarrow> unit option" where
  "identity_33_roundtrip ord now = do {
     s \<leftarrow> unwrap (open_contacts cd_empty '':memory:'' None);
     let i = [5] @ replicate 32 7;
     _ \<leftarrow> require (length i = 33);
     s \<leftarrow> upsert_unwrap (now 0) ''bob'' i (replicate 32 2) True [] (replicate 32 9) ''bb'' ''dc://node?v=1&id=bb'' s;
     bob \<leftarrow> find_contact ord ''bob'' s;
     _ \<leftarrow> require (ci_identity bob = i);
     require (ci_node_naddr bob = ''dc://node?v=1&id=bb'')
   }"

definition rejects_wrong_sizes :: "(nat \<Rightarrow> int) \<Rightarrow> unit option" where
  "rejects_wrong_sizes now = do {
     let try = (\<lambda>k ok i b l. upsert_expect ok (now k) ''x'' (replicate i 0) (replicate b 0) False [] (replicate l 0) [] []);
     s \<leftarrow> unwrap (open_contacts cd_empty '':memory:'' None);
     s \<leftarrow> try 0 False 31 32 32 s;
     s \<leftarrow> try 1 False 34 32 32 s;
     s \<leftarrow> try 2 True 32 32 32 s;
     s \<leftarrow> try 3 True 33 32 32 s;
     s \<leftarrow> try 4 False 32 33 32 s;
     _ \<leftarrow> try 5 False 32 32 31 s;
     Some ()
   }"

definition append_unwrap :: "int \<Rightarrow> string \<Rightarrow> bool \<Rightarrow> string \<Rightarrow> contact_db \<Rightarrow> contact_db option" where
  "append_unwrap now peer outgoing txt d = (let (r, d') = append_message steady_db now d peer outgoing txt in do { _ \<leftarrow> unwrap r; Some d' })"

text \<open>The second \<^verbatim>\<open>open\<close> finds in the file what the first connection left.\<close>

definition contacts_and_chat_persist_reopen :: "(contact_row list \<Rightarrow> contact_row list) \<Rightarrow> string \<Rightarrow> (nat \<Rightarrow> int) \<Rightarrow> unit option" where
  "contacts_and_chat_persist_reopen ord path now = do {
     s \<leftarrow> unwrap (open_contacts cd_empty path (Some ''kk''));
     s \<leftarrow> upsert_unwrap (now 0) ''bob'' (replicate 33 7) (replicate 32 8) True [] (replicate 32 1) ''aa'' ''dc://node?v=1&id=aa'' s;
     s \<leftarrow> append_unwrap (now 1) ''bob'' True ''hi'' s;
     file \<leftarrow> append_unwrap (now 2) ''bob'' False ''yo'' s;
     s \<leftarrow> unwrap (open_contacts file path (Some ''kk''));
     l \<leftarrow> unwrap (list_contacts ord steady_db s);
     _ \<leftarrow> require (length l = 1);
     _ \<leftarrow> require (ci_link_secret (l ! 0) = replicate 32 1);
     _ \<leftarrow> require (ci_node_naddr (l ! 0) = ''dc://node?v=1&id=aa'');
     msgs \<leftarrow> unwrap (messages steady_db s ''bob'' 10);
     _ \<leftarrow> require (length msgs = 2);
     _ \<leftarrow> require (cm_text (msgs ! 0) = ''hi'');
     _ \<leftarrow> require (cm_text (msgs ! 1) = ''yo'');
     require (cm_outgoing (msgs ! 0) \<and> \<not> cm_outgoing (msgs ! 1))
   }"

definition last_messages_latest_per_peer_desc :: "(chat_row list \<Rightarrow> chat_row list) \<Rightarrow> (nat \<Rightarrow> int) \<Rightarrow> unit option" where
  "last_messages_latest_per_peer_desc ord now = do {
     s \<leftarrow> unwrap (open_contacts cd_empty '':memory:'' None);
     s \<leftarrow> append_unwrap (now 0) ''bob'' True ''b1'' s;
     s \<leftarrow> append_unwrap (now 1) ''alice'' True ''a1'' s;
     s \<leftarrow> append_unwrap (now 2) ''bob'' False ''b2'' s;
     s \<leftarrow> append_unwrap (now 3) ''alice'' True ''a2'' s;
     last \<leftarrow> unwrap (last_messages ord steady_db s);
     _ \<leftarrow> require (length last = 2);
     _ \<leftarrow> require (cm_peer (last ! 0) = ''alice'');
     _ \<leftarrow> require (cm_text (last ! 0) = ''a2'');
     _ \<leftarrow> require (cm_peer (last ! 1) = ''bob'');
     _ \<leftarrow> require (cm_text (last ! 1) = ''b2'');
     require (\<not> cm_outgoing (last ! 1))
   }"

definition contact_file_requires_key :: "string \<Rightarrow> unit option" where
  "contact_file_requires_key path = require (isl (open_contacts cd_empty path None))"

section \<open>Settings\<close>

text \<open>\<^verbatim>\<open>s.save(&dir).unwrap()\<close>.\<close>

definition save_unwrap :: "(settings \<Rightarrow> string + bytes) \<Rightarrow> settings \<Rightarrow> string \<Rightarrow> fs \<Rightarrow> fs option" where
  "save_unwrap to_json s dir m = (let (r, m') = save_settings to_json None None s dir m in do { _ \<leftarrow> unwrap r; Some m' })"

definition default_roundtrip_via_json where
  "default_roundtrip_via_json to_json from_json dir m = do {
     let s = settings_default;
     m \<leftarrow> save_unwrap to_json s dir m;
     let back = load_or_default from_json None dir m;
     require (s = back)
   }"

definition edited_settings :: settings where
  "edited_settings = settings_default\<lparr>
     st_appearance := (st_appearance settings_default)\<lparr>ap_theme := DarkTheme, ap_reduced_motion := True\<rparr>,
     st_privacy := (st_privacy settings_default)\<lparr>pv_link_preview := False\<rparr>,
     st_node_service := (st_node_service settings_default)\<lparr>ns_enabled := False\<rparr>,
     st_proxy := \<lparr>px_mode = Socks, px_host = ''127.0.0.1'', px_port = 9050, px_bypass = [Bluetooth, Lan]\<rparr>\<rparr>"

definition edited_fields_persist where
  "edited_fields_persist to_json from_json dir m = do {
     let s = edited_settings;
     m \<leftarrow> save_unwrap to_json s dir m;
     let back = load_or_default from_json None dir m;
     require (back = s)
   }"

definition corrupt_file_falls_back_to_default :: "(bytes \<Rightarrow> settings option) \<Rightarrow> string \<Rightarrow> fs \<Rightarrow> unit option" where
  "corrupt_file_falls_back_to_default from_json dir m = do {
     let m = m(settings_file dir \<mapsto> ascii ''{not json'');
     let s = load_or_default from_json None dir m;
     require (s = settings_default)
   }"

section \<open>The suites\<close>

definition contact_tests where
  "contact_tests ord ord_last path now = [upsert_list_verify_delete ord now, identity_33_roundtrip ord now, rejects_wrong_sizes now,
     contacts_and_chat_persist_reopen ord path now, last_messages_latest_per_peer_desc ord_last now, contact_file_requires_key path]"

definition settings_tests where
  "settings_tests to_json from_json dir m = [default_roundtrip_via_json to_json from_json dir m,
     edited_fields_persist to_json from_json dir m, corrupt_file_falls_back_to_default from_json dir m]"

section \<open>They pass\<close>

lemma listed: "list_contacts ord steady_db d = Inr (map to_info (ord (cd_contacts d)))"
  by (simp add: list_contacts_def read_calls_def)

lemma find_info:
  "distinct (map ct_name l) \<Longrightarrow> r \<in> set l \<Longrightarrow> find (\<lambda>c. ci_name c = ct_name r) (map to_info l) = Some (to_info r)"
  by (induction l) (auto simp: to_info_def)

lemma found:
  assumes "order_by_ok ct_added_ms ord" and "distinct (map ct_name (cd_contacts d))" and "r \<in> set (cd_contacts d)"
  shows "find_contact ord (ct_name r) d = Some (to_info r)"
proof -
  let ?l = "ord (cd_contacts d)"
  have "mset ?l = mset (cd_contacts d)" using assms(1) by (simp add: order_by_ok_def)
  then have "distinct (map ct_name ?l)" using assms(2) by (metis mset_map mset_eq_imp_distinct_iff)
  then show ?thesis using assms(3) by (simp add: find_contact_def listed find_info order_by_set [OF assms(1)])
qed

lemma contacts_opened: "open_contacts disk '':memory:'' None = Inr cd_empty" "path \<noteq> '':memory:'' \<Longrightarrow> open_contacts disk path (Some k) = Inr disk"
  "path \<noteq> '':memory:'' \<Longrightarrow> isl (open_contacts disk path None)"
  by (simp_all add: open_contacts_def contacts_open_def)

lemma upserted:
  assumes "length i \<in> {32, 33}" and "length b = 32" and "length l = 32" and "name \<notin> ct_name ` set rows"
  shows "upsert_unwrap now name i b v t l n a (cd_empty\<lparr>cd_contacts := rows\<rparr>) = Some (cd_empty\<lparr>cd_contacts := rows
    @ [\<lparr>ct_name = name, ct_identity = i, ct_bucket = b, ct_verified = bool_i64 v, ct_note = t, ct_added_ms = now,
        ct_link_secret = l, ct_node_id = n, ct_node_naddr = a\<rparr>]\<rparr>)"
  using assms by (auto simp: upsert_unwrap_def upsert_contact_def)

lemma first_contact_test:
  assumes "order_by_ok ct_added_ms ord"
  shows "upsert_list_verify_delete ord now = Some ()"
proof -
  let ?bob = "\<lambda>i b v l n. \<lparr>ct_name = ''bob'', ct_identity = i, ct_bucket = b, ct_verified = bool_i64 v, ct_note = [],
      ct_added_ms = now 0, ct_link_secret = l, ct_node_id = n, ct_node_naddr = []\<rparr>"
  let ?b1 = "?bob (replicate 33 1) (replicate 32 2) False (replicate 32 9) []" and ?b2 = "?bob (replicate 33 5) (replicate 32 6) True (replicate 32 8) ''bb''"
  let ?a = "\<lparr>ct_name = ''alice'', ct_identity = replicate 33 3, ct_bucket = replicate 32 4, ct_verified = bool_i64 True, ct_note = a_note,
      ct_added_ms = now 1, ct_link_secret = replicate 32 9, ct_node_id = ''aa'', ct_node_naddr = ''dc://node?v=1&id=aa''\<rparr>"
  let ?s = "\<lambda>rows. cd_empty\<lparr>cd_contacts := rows\<rparr>"
  have e: "cd_empty = ?s []" by (simp add: cd_empty_def)
  have 1: "upsert_unwrap (now 0) ''bob'' (replicate 33 1) (replicate 32 2) False [] (replicate 32 9) [] [] cd_empty = Some (?s [?b1])"
    by (subst e, subst upserted) simp_all
  have 2: "upsert_unwrap (now 1) ''alice'' (replicate 33 3) (replicate 32 4) True a_note (replicate 32 9) ''aa'' ''dc://node?v=1&id=aa''
      (?s [?b1]) = Some (?s [?b1, ?a])"
    by (subst upserted) simp_all
  have 3: "upsert_unwrap (now 2) ''bob'' (replicate 33 5) (replicate 32 6) True [] (replicate 32 8) ''bb'' [] (?s [?b1, ?a]) = Some (?s [?b2, ?a])"
    by (simp add: upsert_unwrap_def upsert_contact_def update_where_def)
  have f: "find_contact ord ''bob'' (?s [?b2, ?a]) = Some (to_info ?b2)" "find_contact ord ''alice'' (?s [?b2, ?a]) = Some (to_info ?a)"
    using found [OF assms, of "?s [?b2, ?a]" ?b2] found [OF assms, of "?s [?b2, ?a]" ?a] by simp_all
  have d: "delete_contact steady_db (?s [?b2, ?a]) ''alice'' = (Inr (), ?s [?b2])"
    by (simp add: delete_contact_def delete_where_def)
  show ?thesis
    using order_by_length [OF assms]
    by (simp add: upsert_list_verify_delete_def contacts_opened 1 2 3 f d listed require_def Let_def del: One_nat_def) (simp add: to_info_def bool_i64_def)
qed

lemma second_contact_test:
  assumes "order_by_ok ct_added_ms ord"
  shows "identity_33_roundtrip ord now = Some ()"
proof -
  let ?i = "[5] @ replicate 32 7"
  let ?b = "\<lparr>ct_name = ''bob'', ct_identity = ?i, ct_bucket = replicate 32 2, ct_verified = bool_i64 True, ct_note = [],
      ct_added_ms = now 0, ct_link_secret = replicate 32 9, ct_node_id = ''bb'', ct_node_naddr = ''dc://node?v=1&id=bb''\<rparr>"
  have e: "cd_empty = cd_empty\<lparr>cd_contacts := []\<rparr>" by (simp add: cd_empty_def)
  have "upsert_unwrap (now 0) ''bob'' ?i (replicate 32 2) True [] (replicate 32 9) ''bb'' ''dc://node?v=1&id=bb'' cd_empty
      = Some (cd_empty\<lparr>cd_contacts := [?b]\<rparr>)"
    by (subst e, subst upserted) simp_all
  moreover have "find_contact ord ''bob'' (cd_empty\<lparr>cd_contacts := [?b]\<rparr>) = Some (to_info ?b)"
    using found [OF assms, of "cd_empty\<lparr>cd_contacts := [?b]\<rparr>" ?b] by simp
  ultimately show ?thesis by (simp add: identity_33_roundtrip_def contacts_opened require_def Let_def) (simp add: to_info_def)
qed

lemma sizes_test: "rejects_wrong_sizes now = Some ()"
  by (simp add: rejects_wrong_sizes_def contacts_opened upsert_expect_def upsert_contact_def update_where_def cd_empty_def require_def Let_def)

lemma order_two_rows:
  assumes "order_by_ok c ord"
  shows "ord [x] = [x]" "c y < c x \<Longrightarrow> ord [x, y] = [y, x]"
proof -
  have "mset (ord [x]) = {#x#}" using assms by (simp add: order_by_ok_def)
  then show "ord [x] = [x]" by (metis mset_single_iff)
  assume less: "c y < c x"
  have "length (ord [x, y]) = 2" using order_by_length [OF assms] by simp
  then obtain a b where ab: "ord [x, y] = [a, b]" by (auto simp: length_Suc_conv numeral_2_eq_2)
  moreover have "mset (ord [x, y]) = {#x, y#}" "sorted (map c (ord [x, y]))" using assms by (simp_all add: order_by_ok_def)
  ultimately show "ord [x, y] = [y, x]" using less by (auto simp: add_eq_conv_ex)
qed

lemma reopen_test:
  assumes "order_by_ok ct_added_ms ord" and "path \<noteq> '':memory:''" and "now 1 \<le> now 2"
  shows "contacts_and_chat_persist_reopen ord path now = Some ()"
proof -
  let ?b = "\<lparr>ct_name = ''bob'', ct_identity = replicate 33 7, ct_bucket = replicate 32 8, ct_verified = bool_i64 True, ct_note = [],
      ct_added_ms = now 0, ct_link_secret = replicate 32 1, ct_node_id = ''aa'', ct_node_naddr = ''dc://node?v=1&id=aa''\<rparr>"
  let ?m1 = "\<lparr>cl_id = 1, cl_peer = ''bob'', cl_outgoing = 1, cl_text = ''hi'', cl_ts_ms = now 1\<rparr>"
  let ?m2 = "\<lparr>cl_id = 2, cl_peer = ''bob'', cl_outgoing = 0, cl_text = ''yo'', cl_ts_ms = now 2\<rparr>"
  let ?s = "\<lambda>log n. \<lparr>cd_contacts = [?b], cd_chat_log = log, cd_seq = n\<rparr>"
  have "upsert_unwrap (now 0) ''bob'' (replicate 33 7) (replicate 32 8) True [] (replicate 32 1) ''aa'' ''dc://node?v=1&id=aa'' cd_empty
      = Some (?s [] 0)"
    by (simp add: upsert_unwrap_def upsert_contact_def cd_empty_def)
  moreover have "append_unwrap (now 1) ''bob'' True ''hi'' (?s [] 0) = Some (?s [?m1] 1)"
    "append_unwrap (now 2) ''bob'' False ''yo'' (?s [?m1] 1) = Some (?s [?m1, ?m2] 2)"
    by (simp_all add: append_unwrap_def append_message_def bool_i64_def)
  moreover have "messages steady_db (?s [?m1, ?m2] 2) ''bob'' 10 = Inr [to_msg ?m1, to_msg ?m2]"
  proof -
    have le: "chat_key ?m1 \<le> chat_key ?m2" "\<not> chat_key ?m2 \<le> chat_key ?m1" using assms(3) by (auto simp: chat_key_def less_eq_prod_def)
    then have "sort_key chat_key [?m1, ?m2] = [?m1, ?m2]" "sort_key chat_key [?m2, ?m1] = [?m1, ?m2]" by simp_all
    then show ?thesis by (simp add: messages_def read_calls_def take_limit_def)
  qed
  ultimately show ?thesis
    using order_two_rows(1) [OF assms(1)]
    by (simp add: contacts_and_chat_persist_reopen_def contacts_opened assms(2) listed require_def Let_def) (simp add: to_info_def to_msg_def)
qed

lemma last_messages_test:
  assumes "order_by_ok (\<lambda>r. - cl_ts_ms r) ord" and "now 2 < now 3"
  shows "last_messages_latest_per_peer_desc ord now = Some ()"
proof -
  let ?m = "\<lambda>k p out t. \<lparr>cl_id = int k + 1, cl_peer = p, cl_outgoing = out, cl_text = t, cl_ts_ms = now k\<rparr>"
  let ?m0 = "?m 0 ''bob'' 1 ''b1''" and ?m1 = "?m 1 ''alice'' 1 ''a1''" and ?m2 = "?m 2 ''bob'' 0 ''b2''" and ?m3 = "?m 3 ''alice'' 1 ''a2''"
  let ?s = "\<lambda>log n. \<lparr>cd_contacts = [], cd_chat_log = log, cd_seq = n\<rparr>"
  have "append_unwrap (now 0) ''bob'' True ''b1'' (?s [] 0) = Some (?s [?m0] 1)"
    "append_unwrap (now 1) ''alice'' True ''a1'' (?s [?m0] 1) = Some (?s [?m0, ?m1] 2)"
    "append_unwrap (now 2) ''bob'' False ''b2'' (?s [?m0, ?m1] 2) = Some (?s [?m0, ?m1, ?m2] 3)"
    "append_unwrap (now 3) ''alice'' True ''a2'' (?s [?m0, ?m1, ?m2] 3) = Some (?s [?m0, ?m1, ?m2, ?m3] 4)"
    by (simp_all add: append_unwrap_def append_message_def bool_i64_def)
  moreover have "last_messages ord steady_db (?s [?m0, ?m1, ?m2, ?m3] 4) = Inr [to_msg ?m3, to_msg ?m2]"
    using order_two_rows(2) [OF assms(1), of ?m3 ?m2] assms(2) by (simp add: last_messages_def read_calls_def)
  ultimately show ?thesis
    by (simp add: last_messages_latest_per_peer_desc_def contacts_opened cd_empty_def require_def Let_def) (simp add: to_msg_def)
qed

text \<open>
  The tests of the two files pass: for every order of equal rows and all clock readings that do not go back, and for
  every JSON coder that reads back the two settings it wrote and refuses the broken text.
\<close>

theorem contact_tests_pass:
  assumes "order_by_ok ct_added_ms ord" and "order_by_ok (\<lambda>r. - cl_ts_ms r) ord_last" and "path \<noteq> '':memory:''"
    and "now 1 \<le> now 2" and "now 2 < now 3"
  shows "contact_tests ord ord_last path now = replicate 6 (Some ())"
proof -
  have "contact_file_requires_key path = Some ()" using contacts_opened(3) [OF assms(3)] by (simp add: contact_file_requires_key_def require_def)
  then show ?thesis
    using first_contact_test [OF assms(1)] second_contact_test [OF assms(1)] sizes_test reopen_test [OF assms(1,3,4)]
      last_messages_test [OF assms(2,5)]
    by (simp add: contact_tests_def numeral_eq_Suc)
qed

theorem settings_tests_pass:
  assumes "\<forall>s \<in> {settings_default, edited_settings}. \<exists>b. to_json s = Inr b \<and> from_json b = Some s" and "from_json (ascii ''{not json'') = None"
  shows "settings_tests to_json from_json dir m = replicate 3 (Some ())"
  using assms by (auto simp: settings_tests_def default_roundtrip_via_json_def edited_fields_persist_def corrupt_file_falls_back_to_default_def
      save_unwrap_def save_settings_def load_or_default_def fs_read_def require_def numeral_eq_Suc)

theorem store_tests_run:
  "contact_tests (sort_key ct_added_ms) (sort_key (\<lambda>r. - cl_ts_ms r)) ''contacts.db'' int = replicate 6 (Some ())"
  by (rule contact_tests_pass) (simp_all add: order_by_ok_def)

end
