(* ===== verification/Node_Tests.thy ===== *)
theory Node_Tests
  imports Node_Net
begin

text \<open>
  The unit tests of \<^verbatim>\<open>node.rs\<close> on the model, statement by statement; \<open>None\<close> is a failed \<^verbatim>\<open>unwrap\<close> or \<^verbatim>\<open>assert\<close>. Left out are
  the two tests of the runtime: the exchange between two running nodes and the end of a node that was not stopped.
\<close>

section \<open>The tests\<close>

text \<open>\<^verbatim>\<open>192.168.1.7:43210\<close>, \<^verbatim>\<open>10.0.0.2:65535\<close>, \<^verbatim>\<open>[::1]:8080\<close> and \<^verbatim>\<open>[2001:db8::5]:443\<close> as the standard library reads them.\<close>

definition test_addresses :: "sockaddr list" where
  "test_addresses = [V4 [192, 168, 1, 7] 43210, V4 [10, 0, 0, 2] 65535, V6 (replicate 15 0 @ [1]) 8080 0 0,
     V6 ([0x20, 0x01, 0x0d, 0xb8] @ replicate 11 0 @ [5]) 443 0 0]"

definition test_sockaddr_roundtrip :: "unit option" where
  "test_sockaddr_roundtrip = do {
     _ \<leftarrow> those (map (\<lambda>a. do { b \<leftarrow> unwrap (sockaddr_from_bytes (sockaddr_bytes a)); require (a = b) }) test_addresses);
     require (isl (sockaddr_from_bytes (replicate 5 0)))
   }"

definition base64_roundtrip :: "unit option" where
  "base64_roundtrip = do {
     let samples = map ascii [[], ''f'', ''fo'', ''foo'', ''foob'', ''fooba'', ''foobar''] @ [sockaddr_bytes (V4 [192, 168, 1, 7] 43210)];
     _ \<leftarrow> those (map (\<lambda>sample. do { b \<leftarrow> unwrap (unb64 (b64 sample)); require (sample = b) }) samples);
     _ \<leftarrow> require (isl (unb64 ''A''));
     require (isl (unb64 ''AB#C''))
   }"

definition naddr_parse_rejects_garbage where
  "naddr_parse_rejects_garbage key_err utf parse_url = do {
     let parse = parse_naddr key_err utf parse_url;
     _ \<leftarrow> require (isl (parse []));
     _ \<leftarrow> require (isl (parse ''https://x''));
     _ \<leftarrow> require (isl (parse ''dc://node?v=1''));
     _ \<leftarrow> require (isl (parse ''dc://node?v=2&id=00''));
     require (isl (parse (''dc://node?v=1&id='' @ concat (replicate 31 ''ab''))))
   }"

definition seed :: "u8 \<Rightarrow> bytes" where
  "seed n = (replicate 32 n)[31 := n + 1]"

text \<open>\<^verbatim>\<open>Node::start("", &seed(n), ..).unwrap()\<close>.\<close>

definition start_node where
  "start_node parse_url show_url ep_bind n = do {
     (nd, _, _) \<leftarrow> unwrap (start None parse_url show_url ep_bind [] (seed n));
     Some nd
   }"

definition naddr_roundtrip_via_runtime where
  "naddr_roundtrip_via_runtime key_err utf parse_url show_url ep_bind = do {
     n \<leftarrow> start_node parse_url show_url ep_bind 7;
     let snap = naddr_string show_url True (nd_addr n);
     addr \<leftarrow> unwrap (parse_naddr key_err utf parse_url snap);
     _ \<leftarrow> require (ea_id addr = ea_id (nd_addr n));
     _ \<leftarrow> require ((\<exists>a. Ip a \<in> set (ea_addrs addr)) \<or> relay_urls addr \<noteq> []);
     i \<leftarrow> unwrap (node_id_of_naddr key_err utf parse_url snap);
     require (i = node_id_hex n)
   }"

definition send_rejects_bad_input where
  "send_rejects_bad_input key_err utf parse_url show_url ep_bind env = do {
     n \<leftarrow> start_node parse_url show_url ep_bind 3;
     let put = (\<lambda>naddr payload. send key_err utf parse_url env naddr payload);
     _ \<leftarrow> require (isl (put ''garbage'' (ascii ''x'')));
     _ \<leftarrow> require (isl (put ''dc://node?v=1&id=00'' (ascii ''x'')));
     let snap = naddr_string show_url True (nd_addr n);
     _ \<leftarrow> require (isl (put snap []));
     require (isl (put snap (replicate (MAX_MSG_LEN + 1) 0)))
   }"

definition node_tests where
  "node_tests key_err utf parse_url show_url ep_bind env = [test_sockaddr_roundtrip, base64_roundtrip,
     naddr_parse_rejects_garbage key_err utf parse_url, naddr_roundtrip_via_runtime key_err utf parse_url show_url ep_bind,
     send_rejects_bad_input key_err utf parse_url show_url ep_bind env]"

section \<open>They pass\<close>

lemma coding_tests: "test_sockaddr_roundtrip = Some ()" "base64_roundtrip = Some ()"
proof -
  have "sockaddr_from_bytes (sockaddr_bytes a) = Inr a" if "a \<in> set test_addresses" for a
    using sockaddr_roundtrip [of a] that by (auto simp: test_addresses_def)
  then have "those (map (\<lambda>a. do { b \<leftarrow> unwrap (sockaddr_from_bytes (sockaddr_bytes a)); require (a = b) }) test_addresses)
      = those (map (\<lambda>a. Some ()) test_addresses)"
    by (intro arg_cong [where f = those] map_cong) (simp_all add: require_def)
  then show "test_sockaddr_roundtrip = Some ()"
    by (simp add: test_sockaddr_roundtrip_def sockaddr_from_bytes_def require_def test_addresses_def)
  have "unb64 ''AB#C'' = Inl (Config ''bad base64 char'')" by (simp add: unb64_def b64_rev_def)
  then show "base64_roundtrip = Some ()"
    by (simp add: base64_roundtrip_def unb64_b64 require_def Let_def) (simp add: unb64_def)
qed

lemma garbage_test: "naddr_parse_rejects_garbage key_err utf parse_url = Some ()"
proof -
  have id: "concat (replicate 31 ''ab'') = hex (replicate 31 171)" by code_simp
  have "split_on (CHR ''&'') (''v=1&id='' @ hex (replicate 31 171)) = [''v=1'', ''id='' @ hex (replicate 31 171)]"
    using split_on_join [of "[''v=1'', ''id='' @ hex (replicate 31 171)]" "CHR ''&''"] hex_not_special by auto
  then have "parse_naddr key_err utf parse_url (''dc://node?'' @ ''v=1&id='' @ hex (replicate 31 171))
      = Inl (Config ''node id must be 32 bytes'')"
    unfolding parse_naddr_def strip_prefix_append option.case by (simp add: parse_pair_def unhex_hex)
  then show ?thesis
    by (simp add: naddr_parse_rejects_garbage_def id require_def Let_def) (simp add: parse_naddr_def parse_pair_def)
qed

lemma started:
  assumes "ep_bind (seed n) Relay_disabled = Inr ep"
  shows "start_node parse_url show_url ep_bind n = Some \<lparr>nd_addr = ep, nd_accepting = True\<rparr>"
  using assms by (simp add: start_node_def start_def relay_choice_def trim_def)

lemma snapshot_test:
  assumes "ep_bind (seed 7) Relay_disabled = Inr ep" and "length (ea_id ep) = 32" and "key_err (ea_id ep) = None"
    and "\<forall>a \<in> set (shown_ips True ep). sockaddr_wf a" and "\<And>u. utf (ascii (show_url u)) = Some (show_url u)"
    and "\<And>u. parse_url (show_url u) = Inr u" and "shown_ips True ep \<noteq> [] \<or> relay_urls ep \<noteq> []"
  shows "naddr_roundtrip_via_runtime key_err utf parse_url show_url ep_bind = Some ()"
proof -
  let ?ea = "\<lparr>ea_id = ea_id ep, ea_addrs = map (Ip \<circ> drop_scope) (shown_ips True ep) @ map Relay_url (take 1 (relay_urls ep))\<rparr>"
  have p: "parse_naddr key_err utf parse_url (naddr_string show_url True ep) = Inr ?ea"
    using assms(2-6) by (intro snapshot_reads_back)
  have "(\<exists>a. Ip a \<in> set (ea_addrs ?ea)) \<or> relay_urls ?ea \<noteq> []"
    using assms(7) by (cases "shown_ips True ep"; cases "relay_urls ep") (auto simp: relay_urls_def)
  then show ?thesis
    by (simp only: naddr_roundtrip_via_runtime_def started [of ep_bind 7, OF assms(1)] node_id_of_naddr_def p)
      (simp add: p node_id_hex_def require_def Let_def)
qed

lemma bad_input_test:
  assumes "ep_bind (seed 3) Relay_disabled = Inr ep"
  shows "send_rejects_bad_input key_err utf parse_url show_url ep_bind env = Some ()"
proof -
  have "isl (send key_err utf parse_url env naddr ([] :: bytes))" "isl (send key_err utf parse_url env naddr (replicate (MAX_MSG_LEN + 1) (0 :: u8)))" for naddr
    by (cases "parse_naddr key_err utf parse_url naddr"; simp add: send_def)+
  moreover have "isl (send key_err utf parse_url env ''garbage'' b)" "isl (send key_err utf parse_url env ''dc://node?v=1&id=00'' b)" for b :: bytes
    by (simp_all add: send_def parse_naddr_def parse_pair_def unhex_def hex_value_def)
      (simp_all add: chunks_step)
  ultimately show ?thesis by (simp add: send_rejects_bad_input_def started [of ep_bind 3, OF assms] require_def Let_def)
qed

text \<open>
  The tests pass whenever the two nodes start, for every endpoint whose id has 32 bytes and that has an address to show,
  and every library that reads back the relay addresses it prints.
\<close>

theorem node_tests_pass:
  assumes "ep_bind (seed 7) Relay_disabled = Inr ep" and "length (ea_id ep) = 32" and "key_err (ea_id ep) = None"
    and "\<forall>a \<in> set (shown_ips True ep). sockaddr_wf a" and "\<And>u. utf (ascii (show_url u)) = Some (show_url u)"
    and "\<And>u. parse_url (show_url u) = Inr u" and "shown_ips True ep \<noteq> [] \<or> relay_urls ep \<noteq> []"
    and "ep_bind (seed 3) Relay_disabled = Inr ep3"
  shows "node_tests key_err utf parse_url show_url ep_bind env = replicate 5 (Some ())"
proof -
  have "naddr_roundtrip_via_runtime key_err utf parse_url show_url ep_bind = Some ()" using assms(1-7) by (intro snapshot_test)
  moreover have "send_rejects_bad_input key_err utf parse_url show_url ep_bind env = Some ()" using assms(8) by (intro bad_input_test)
  ultimately show ?thesis using coding_tests garbage_test [of key_err utf parse_url] by (simp add: node_tests_def numeral_eq_Suc)
qed

theorem node_tests_run:
  "node_tests (\<lambda>_. None) (\<lambda>b. Some (map (char_of \<circ> unat) b)) Inr (\<lambda>u. u)
     (\<lambda>s _. Inr \<lparr>ea_id = s, ea_addrs = [Ip (V4 [127, 0, 0, 1] 9)]\<rparr>) env = replicate 5 (Some ())"
  by (rule node_tests_pass [where ep = "\<lparr>ea_id = seed 7, ea_addrs = [Ip (V4 [127, 0, 0, 1] 9)]\<rparr>"
        and ?ep3.0 = "\<lparr>ea_id = seed 3, ea_addrs = [Ip (V4 [127, 0, 0, 1] 9)]\<rparr>"])
    (simp_all add: seed_def shown_ips_def chars_of_ascii)

end
