(* ===== verification/Session_Tests.thy ===== *)
theory Session_Tests
  imports Handshake Message_Tests
begin

text \<open>
  Unit tests of \<^verbatim>\<open>signal_store.rs\<close> and \<^verbatim>\<open>handshake.rs\<close> on the model, statement by statement; \<open>None\<close> is a failed \<^verbatim>\<open>unwrap\<close> or
  \<^verbatim>\<open>assert\<close>. What the library generates is an argument: the key pair and the registration bytes of every device, and what
  a bundle draws. The tests that encrypt and decrypt, and those of the safety number and of the length of a key, test the
  library and are left out.
\<close>

section \<open>Devices in the tests\<close>

abbreviation steady_calls :: "nat \<Rightarrow> faults" where "steady_calls \<equiv> \<lambda>_ _. None"

text \<open>\<^verbatim>\<open>Device::generate(name).unwrap()\<close> and \<^verbatim>\<open>Device::open(&path, Some(key), name).unwrap()\<close> on a file with these tables.\<close>

definition generated where
  "generated L pair reg name = unwrap (device_generate L steady_calls pair (Inr reg) None (\<lambda>_. None) name)"

definition opened_on where
  "opened_on L pair reg file path key name = unwrap (fst (device_open L steady_calls pair (Inr reg) None (\<lambda>_. None) file path (Some key) name))"

definition key_of where
  "key_of L d = unwrap (identity_key L (steady_calls 0) d)"

definition expect_trust where
  "expect_trust L d a k ok = do { t \<leftarrow> unwrap (device_is_trusted L (steady_calls 0) d a k); require (t = ok) }"

definition pin where
  "pin L a k d = (let (r, d') = pin_identity L (steady_calls 0) d a k in do { _ \<leftarrow> unwrap r; Some d' })"

section \<open>The tests of the store\<close>

definition identity_key_stable_across_reopen where
  "identity_key_stable_across_reopen L path p1 r1 p2 r2 = do {
     alice \<leftarrow> opened_on L p1 r1 sd_empty path ''testkey'' ''alice'';
     k1 \<leftarrow> key_of L alice;
     alice2 \<leftarrow> opened_on L p2 r2 (dv_store alice) path ''testkey'' ''alice'';
     k2 \<leftarrow> key_of L alice2;
     require (kc_serialize (sc_key (sl_codecs L)) k1 = kc_serialize (sc_key (sl_codecs L)) k2)
   }"

definition tofu_pin_persists where
  "tofu_pin_persists L path pb rb p1 r1 p2 r2 pb2 rb2 = do {
     bob \<leftarrow> generated L pb rb ''bob'';
     let bob_addr = dv_address bob;
     bik \<leftarrow> key_of L bob;
     alice \<leftarrow> opened_on L p1 r1 sd_empty path ''testkey'' ''alice'';
     _ \<leftarrow> expect_trust L alice bob_addr bik True;
     alice \<leftarrow> pin L bob_addr bik alice;
     alice \<leftarrow> opened_on L p2 r2 (dv_store alice) path ''testkey'' ''alice'';
     _ \<leftarrow> expect_trust L alice bob_addr bik True;
     bob2 \<leftarrow> generated L pb2 rb2 ''bob'';
     bik2 \<leftarrow> key_of L bob2;
     expect_trust L alice bob_addr bik2 False
   }"

definition pin_identity_rejects_key_change where
  "pin_identity_rejects_key_change L path pb rb p1 r1 pb2 rb2 = do {
     bob \<leftarrow> generated L pb rb ''bob'';
     let bob_addr = dv_address bob;
     bik \<leftarrow> key_of L bob;
     alice \<leftarrow> opened_on L p1 r1 sd_empty path ''testkey'' ''alice'';
     alice \<leftarrow> pin L bob_addr bik alice;
     alice \<leftarrow> pin L bob_addr bik alice;
     bob2 \<leftarrow> generated L pb2 rb2 ''bob'';
     bik2 \<leftarrow> key_of L bob2;
     let (r, alice) = pin_identity L (steady_calls 0) alice bob_addr bik2;
     _ \<leftarrow> require (isl r);
     _ \<leftarrow> expect_trust L alice bob_addr bik True;
     expect_trust L alice bob_addr bik2 False
   }"

definition bundle_of where
  "bundle_of L g d = (let (r, d') = prekey_bundle L steady_calls g d in do { b \<leftarrow> unwrap r; Some (b, d') })"

definition prekey_ids_advance where
  "prekey_ids_advance L path pb rb g1 g2 = do {
     bob \<leftarrow> opened_on L pb rb sd_empty path ''k'' ''bob'';
     (b1, bob) \<leftarrow> bundle_of L g1 bob;
     (b2, bob) \<leftarrow> bundle_of L g2 bob;
     (id1, _) \<leftarrow> pb_pre_key b1;
     (id2, _) \<leftarrow> pb_pre_key b2;
     require (id2 > id1)
   }"

definition signal_file_requires_key :: "string \<Rightarrow> unit option" where
  "signal_file_requires_key path = require (isl (sig_open None (\<lambda>_. None) sd_empty path None))"

section \<open>The tests of the session layer\<close>

definition tofu_pin_and_identity_change where
  "tofu_pin_and_identity_change L pa ra pb rb pb2 rb2 = do {
     alice \<leftarrow> generated L pa ra ''a'';
     bob \<leftarrow> generated L pb rb ''b'';
     let bob_addr = dv_address bob;
     bik \<leftarrow> key_of L bob;
     _ \<leftarrow> expect_trust L alice bob_addr bik True;
     alice \<leftarrow> pin L bob_addr bik alice;
     _ \<leftarrow> expect_trust L alice bob_addr bik True;
     bob2 \<leftarrow> generated L pb2 rb2 ''b'';
     bik2 \<leftarrow> key_of L bob2;
     expect_trust L alice bob_addr bik2 False
   }"

definition process_bundle_rejects_changed_identity_as_classified_error where
  "process_bundle_rejects_changed_identity_as_classified_error L process pa ra pb rb g pb2 rb2 g2 = do {
     alice \<leftarrow> generated L pa ra ''a'';
     bob \<leftarrow> generated L pb rb ''b'';
     let bob_addr = dv_address bob;
     (bundle, bob) \<leftarrow> bundle_of L g bob;
     let (r, alice) = process_bundle (sl_display L) process alice bob_addr bundle;
     _ \<leftarrow> unwrap r;
     bik \<leftarrow> key_of L bob;
     alice \<leftarrow> pin L bob_addr bik alice;
     bob2 \<leftarrow> generated L pb2 rb2 ''b'';
     (bundle2, bob2) \<leftarrow> bundle_of L g2 bob2;
     let (r, alice) = process_bundle (sl_display L) process alice bob_addr bundle2;
     require (r = Inl (IdentityChanged ''b''))
   }"

text \<open>\<^verbatim>\<open>tampered[0] ^= 1\<close>.\<close>

definition test_ciphertext :: bytes where
  "test_ciphertext = ascii ''prekey-signal-message-bytes''"

definition first_message_token_mac where
  "first_message_token_mac derive keyed = do {
     let token = replicate 48 7;
     let bucket = replicate 32 9;
     let ct = test_ciphertext;
     let mac = first_message_mac derive keyed token bucket ct;
     _ \<leftarrow> unwrap (verify_first_message_mac derive keyed token bucket ct mac);
     let wrong_token = replicate 48 8;
     _ \<leftarrow> require (isl (verify_first_message_mac derive keyed wrong_token bucket ct mac));
     let tampered = ct[0 := (ct ! 0) XOR 1];
     require (isl (verify_first_message_mac derive keyed token bucket tampered mac))
   }"

section \<open>What the tests assume of the library\<close>

text \<open>Key pairs and keys are read back, the device number is valid, and a bundle can be made.\<close>

definition lib_ok where
  "lib_ok L \<longleftrightarrow> (\<forall>p. sl_pair_try_from L (sl_pair_serialize L p) = Inr p)
     \<and> (\<forall>k. kc_try_from (sc_key (sl_codecs L)) (kc_serialize (sc_key (sl_codecs L)) k) = Inr k)
     \<and> sl_device_id_err L DEVICE_ID = None"

definition draw_ok where
  "draw_ok L g \<longleftrightarrow> (\<forall>n i m. \<not> isl (pd_sign g n i m)) \<and> (\<forall>b. sl_bundle_err L b = None)
     \<and> (\<forall>r. \<not> isl (rc_serialize (sc_pre_key (sl_codecs L)) r)) \<and> (\<forall>r. \<not> isl (rc_serialize (sc_signed (sl_codecs L)) r))
     \<and> (\<forall>r. \<not> isl (rc_serialize (sc_kyber (sl_codecs L)) r))"

text \<open>
  \<^verbatim>\<open>process_prekey_bundle\<close>: it works through the store's trait methods, asks \<^verbatim>\<open>is_trusted_identity\<close> first, refuses with
  \<^verbatim>\<open>UntrustedIdentity\<close> where that says no, and accepts the bundles of \<open>good\<close> on a store that has no key for the address.
\<close>

definition process_ok where
  "process_ok L process good \<longleftrightarrow> (\<forall>remote me b s.
     trait_steps (sl_codecs L) s (snd (process remote me b s))
     \<and> (is_trusted_identity (sc_key (sl_codecs L)) (\<lambda>_. None) s remote (pb_identity b) = Inr False
          \<longrightarrow> process remote me b s = (Inl (UntrustedIdentity remote), s))
     \<and> (b \<in> good \<and> hm_get (sd_trusted s) (row_key remote) = None
          \<longrightarrow> fst (process remote me b s) = Inr ()
            \<and> hm_get (sd_trusted (snd (process remote me b s))) (row_key remote) \<in> {None, Some (kc_serialize (sc_key (sl_codecs L)) (pb_identity b))}))"

text \<open>The hash keeps apart the secrets and the texts the test compares.\<close>

definition tags_apart where
  "tags_apart derive keyed \<longleftrightarrow> (let k = derive_mailbox_secret derive (replicate 48 7) (replicate 32 9) 0;
       k' = derive_mailbox_secret derive (replicate 48 8) (replicate 32 9) 0; m = ascii ''dc-first-msg-v1'' @ test_ciphertext
     in keyed k m \<noteq> keyed k' m \<and> inj_on (keyed k) {ascii ''dc-first-msg-v1'' @ ct | ct. length ct = length test_ciphertext \<and> tl ct = tl test_ciphertext})"

text \<open>The row of the local identity after a first start.\<close>

definition local_row where
  "local_row L p reg = Some (sl_pair_serialize L p, uint (word_of_nat (from_be reg) :: u32))"

text \<open>An entry point that only asks the store.\<close>

definition ask_only where
  "ask_only remote me b s =
     (if is_trusted_identity demo_key_codec (\<lambda>_. None) s remote (pb_identity b) = Inr False then (Inl (UntrustedIdentity remote), s)
      else (Inr (), s))"

section \<open>The suites\<close>

definition store_tests where
  "store_tests L path p1 r1 p2 r2 pb rb pb2 rb2 g1 g2 = [identity_key_stable_across_reopen L path p1 r1 p2 r2,
     tofu_pin_persists L path pb rb p1 r1 p2 r2 pb2 rb2, pin_identity_rejects_key_change L path pb rb p1 r1 pb2 rb2,
     prekey_ids_advance L path pb rb g1 g2, signal_file_requires_key path]"

definition session_tests where
  "session_tests L process derive keyed pa ra pb rb g pb2 rb2 g2 = [tofu_pin_and_identity_change L pa ra pb rb pb2 rb2,
     process_bundle_rejects_changed_identity_as_classified_error L process pa ra pb rb g pb2 rb2 g2,
     first_message_token_mac derive keyed]"

section \<open>They pass\<close>

lemma generated_eq:
  assumes "lib_ok L"
  shows "generated L p reg name = Some \<lparr>dv_address = (name, DEVICE_ID), dv_store = sd_empty\<lparr>sd_local := local_row L p reg\<rparr>\<rparr>"
  using assms by (simp add: generated_def device_generate_def sig_open_def bootstrap_def local_identity_def query_opt_def sd_empty_def
      save_local_identity_def lib_ok_def local_row_def)

lemma opened_new:
  assumes "lib_ok L" and "path \<noteq> '':memory:''"
  shows "opened_on L p reg sd_empty path key name
    = Some \<lparr>dv_address = (name, DEVICE_ID), dv_store = sd_empty\<lparr>sd_local := local_row L p reg\<rparr>\<rparr>"
  using assms by (simp add: opened_on_def device_open_def sig_open_def bootstrap_def local_identity_def query_opt_def sd_empty_def
      save_local_identity_def lib_ok_def local_row_def)

lemma opened_again:
  assumes "lib_ok L" and "path \<noteq> '':memory:''" and "sd_local file = local_row L p reg"
  shows "opened_on L p' reg' file path key name = Some \<lparr>dv_address = (name, DEVICE_ID), dv_store = file\<rparr>"
  using assms by (simp add: opened_on_def device_open_def sig_open_def bootstrap_def local_identity_def query_opt_def lib_ok_def local_row_def)

lemma key_of_eq:
  assumes "lib_ok L" and "sd_local (dv_store d) = local_row L p reg"
  shows "key_of L d = Some (sl_identity_key L p)"
  using assms by (simp add: key_of_def identity_key_def get_identity_key_pair_def with_conn_def query_row_def lib_ok_def local_row_def)

lemma trust_eq:
  assumes "lib_ok L"
  shows "hm_get (sd_trusted (dv_store d)) (row_key a) = None \<Longrightarrow> expect_trust L d a k True = Some ()"
    "hm_get (sd_trusted (dv_store d)) (row_key a) = Some (kc_serialize (sc_key (sl_codecs L)) k') \<Longrightarrow>
      expect_trust L d a k (k = k') = Some ()"
  using assms by (auto simp: expect_trust_def device_is_trusted_def is_trusted_identity_def with_conn_def query_opt_def require_def lib_ok_def)

lemma pin_eq:
  assumes "lib_ok L" and "hm_get (sd_trusted (dv_store d)) (row_key a) \<in> {None, Some (kc_serialize (sc_key (sl_codecs L)) k)}"
  shows "pin L a k d = Some (d\<lparr>dv_store := sd_trusted_update (hm_insert (row_key a) (kc_serialize (sc_key (sl_codecs L)) k)) (dv_store d)\<rparr>)"
  using assms by (auto simp: pin_def pin_identity_def save_identity_def with_conn_def query_opt_def run_stmt_def on_store_def lib_ok_def)

lemma pin_refused:
  assumes "lib_ok L" and "hm_get (sd_trusted (dv_store d)) (row_key a) = Some (kc_serialize (sc_key (sl_codecs L)) k')" and "k \<noteq> k'"
  shows "\<exists>e. pin_identity L (steady_calls 0) d a k = (Inl e, d)"
  using assms by (auto simp: pin_identity_def save_identity_def with_conn_def query_opt_def on_store_def lib_ok_def)

lemma device_key_tests:
  assumes "lib_ok L" and "path \<noteq> '':memory:''" and "sl_identity_key L pb \<noteq> sl_identity_key L pb2"
  shows "identity_key_stable_across_reopen L path p1 r1 p2 r2 = Some ()" "tofu_pin_persists L path pb rb p1 r1 p2 r2 pb2 rb2 = Some ()"
    "pin_identity_rejects_key_change L path pb rb p1 r1 pb2 rb2 = Some ()" "tofu_pin_and_identity_change L p1 r1 pb rb pb2 rb2 = Some ()"
proof -
  let ?k = "sl_identity_key L pb" and ?k2 = "sl_identity_key L pb2" and ?ser = "kc_serialize (sc_key (sl_codecs L))"
  let ?s = "sd_empty\<lparr>sd_local := local_row L p1 r1\<rparr>"
  let ?t = "\<lambda>a. sd_trusted_update (hm_insert (row_key a) (?ser ?k)) ?s"
  note opens = opened_new [OF assms(1,2)] opened_again [OF assms(1,2), of _ p1 r1] generated_eq [OF assms(1)] key_of_eq [OF assms(1)]
  note trust = trust_eq [OF assms(1)]
  have none: "hm_get (sd_trusted ?s) a = None" for a by (simp add: sd_empty_def hm_get_def)
  have some: "hm_get (sd_trusted (?t a)) (row_key a) = Some (?ser ?k)" for a by (simp add: hm.get_ins)
  have trusts: "expect_trust L d a ?k True = Some ()" "expect_trust L d a ?k2 False = Some ()" if "dv_store d = ?t a" for d a
    using trust(2) [of d a ?k ?k] trust(2) [of d a ?k ?k2] some [of a] that assms(3) by simp_all
  have fresh: "expect_trust L \<lparr>dv_address = x, dv_store = ?s\<rparr> a ?k True = Some ()" for a x
    using trust(1) [of "\<lparr>dv_address = x, dv_store = ?s\<rparr>" a ?k] none by simp
  have pins: "pin L a ?k \<lparr>dv_address = x, dv_store = ?s\<rparr> = Some \<lparr>dv_address = x, dv_store = ?t a\<rparr>" for a x
    using pin_eq [OF assms(1), of "\<lparr>dv_address = x, dv_store = ?s\<rparr>" a ?k] none by simp
  have again: "pin L a ?k \<lparr>dv_address = x, dv_store = ?t a\<rparr> = Some \<lparr>dv_address = x, dv_store = ?t a\<rparr>" for a x
    using pin_eq [OF assms(1), of "\<lparr>dv_address = x, dv_store = ?t a\<rparr>" a ?k] some [of a]
    by (simp add: sd_empty_def hm_insert_def)
  show "identity_key_stable_across_reopen L path p1 r1 p2 r2 = Some ()"
    by (simp add: identity_key_stable_across_reopen_def opens require_def)
  show "tofu_pin_persists L path pb rb p1 r1 p2 r2 pb2 rb2 = Some ()"
    by (simp add: tofu_pin_persists_def opens fresh pins trusts Let_def)
  show "tofu_pin_and_identity_change L p1 r1 pb rb pb2 rb2 = Some ()"
    by (simp add: tofu_pin_and_identity_change_def opens fresh pins trusts Let_def)
  obtain e where "pin_identity L (steady_calls 0) \<lparr>dv_address = x, dv_store = ?t a\<rparr> a ?k2 = (Inl (e x a), \<lparr>dv_address = x, dv_store = ?t a\<rparr>)" for x a
    using pin_refused [OF assms(1), of "\<lparr>dv_address = x, dv_store = ?t a\<rparr>" a ?k ?k2 for x a] some assms(3) by simp metis
  then show "pin_identity_rejects_key_change L path pb rb p1 r1 pb2 rb2 = Some ()"
    by (simp add: pin_identity_rejects_key_change_def opens pins again trusts require_def Let_def)
qed

lemma choice_serialize: "\<forall>x. \<not> isl (rc_serialize rc x) \<Longrightarrow> \<exists>f. \<forall>x. rc_serialize rc x = Inr (f x)"
  by (intro exI [of _ "\<lambda>x. projr (rc_serialize rc x)"]) simp

lemma bundle_made:
  assumes "lib_ok L" and "draw_ok L g" and "sd_local (dv_store d) = local_row L p reg" and "ids_ok (sd_pre_keys (dv_store d))"
    and "\<forall>i \<in> fst ` set (sd_pre_keys (dv_store d)). i < 2 ^ 32 - 1"
  shows "\<exists>b d' pk u row. bundle_of L g d = Some (b, d') \<and> pb_identity b = sl_identity_key L p
    \<and> sd_local (dv_store d') = sd_local (dv_store d) \<and> pb_pre_key b = Some (pk, u)
    \<and> next_prekey_id (\<lambda>_. None) (dv_store d) ''pre_keys'' = Inr pk
    \<and> sd_pre_keys (dv_store d') = hm_insert (uint pk) row (sd_pre_keys (dv_store d))
    \<and> (\<forall>i \<in> fst ` set (sd_pre_keys (dv_store d)). i < uint pk)"
proof -
  have ids: "\<exists>n. next_prekey_id (\<lambda>_. None) st tb = Inr n" if "tb \<in> {''pre_keys'', ''signed_pre_keys'', ''kyber_pre_keys''}" for st tb
    using that by (auto simp: next_prekey_id_def prekey_table_def Let_def)
  obtain n1 n2 n3 where n: "next_prekey_id (\<lambda>_. None) (dv_store d) ''pre_keys'' = Inr n1"
    "next_prekey_id (\<lambda>_. None) (dv_store d) ''signed_pre_keys'' = Inr n2" "next_prekey_id (\<lambda>_. None) (dv_store d) ''kyber_pre_keys'' = Inr n3"
    using ids by (metis insertCI)
  have "\<exists>sg. \<forall>k i m. pd_sign g k i m = Inr (sg k i m)"
    using assms(2) by (intro exI [of _ "\<lambda>k i m. projr (pd_sign g k i m)"]) (simp add: draw_ok_def)
  then obtain sg where sg: "\<And>k i m. pd_sign g k i m = Inr (sg k i m)" by blast
  obtain f1 where f1: "\<And>x. rc_serialize (sc_pre_key (sl_codecs L)) x = Inr (f1 x)"
    using assms(2) choice_serialize [of "sc_pre_key (sl_codecs L)"] by (auto simp: draw_ok_def)
  obtain f2 where f2: "\<And>x. rc_serialize (sc_signed (sl_codecs L)) x = Inr (f2 x)"
    using assms(2) choice_serialize [of "sc_signed (sl_codecs L)"] by (auto simp: draw_ok_def)
  obtain f3 where f3: "\<And>x. rc_serialize (sc_kyber (sl_codecs L)) x = Inr (f3 x)"
    using assms(2) choice_serialize [of "sc_kyber (sl_codecs L)"] by (auto simp: draw_ok_def)
  have "get_identity_key_pair (sl_pair_try_from L) (\<lambda>_. None) (dv_store d) = Inr p"
    using assms(1,3) by (simp add: get_identity_key_pair_def with_conn_def query_row_def lib_ok_def local_row_def)
  then have "\<exists>b d'. prekey_bundle L steady_calls g d = (Inr b, d')"
    using assms(1-3)
    by (simp add: prekey_bundle_def n sg f1 f2 f3 save_pre_key_def save_signed_pre_key_def save_kyber_pre_key_def save_record_def run_stmt_def
        with_conn_def get_local_registration_id_def query_row_def lib_ok_def draw_ok_def local_row_def on_store_def Let_def)
  then obtain b d' where b: "prekey_bundle L steady_calls g d = (Inr b, d')" by blast
  from b obtain pk b1 b2 b3 where step: "identity_key L (\<lambda>_. None) d = Inr (pb_identity b)"
    "next_prekey_id (\<lambda>_. None) (dv_store d) ''pre_keys'' = Inr pk" "pb_pre_key b = Some (pk, sl_public L (pd_pre g))"
    "dv_store d' = sd_kyber_update (hm_insert (uint (pb_kyber_id b)) b3) (sd_signed_update (hm_insert (uint (pb_signed_id b)) b2)
      (sd_pre_keys_update (hm_insert (uint pk) b1) (dv_store d)))"
    by (rule prekey_bundle_Inr)
  have "pb_identity b = sl_identity_key L p" using step(1) key_of_eq [OF assms(1,3)] by (simp add: key_of_def)
  moreover have "\<forall>i \<in> fst ` set (sd_pre_keys (dv_store d)). i < uint pk"
    using next_prekey_id_above [OF step(2), of "sd_pre_keys (dv_store d)"] assms(4,5) by (simp add: prekey_table_def ids_ok_def)
  moreover have "bundle_of L g d = Some (b, d')" by (simp add: bundle_of_def b)
  moreover have "sd_pre_keys (dv_store d') = hm_insert (uint pk) b1 (sd_pre_keys (dv_store d))" "sd_local (dv_store d') = sd_local (dv_store d)"
    by (simp_all add: step(4))
  ultimately show ?thesis using step(2,3) by blast
qed

lemma prekey_id_test:
  assumes "lib_ok L" and "path \<noteq> '':memory:''" and "draw_ok L g1" and "draw_ok L g2"
  shows "prekey_ids_advance L path pb rb g1 g2 = Some ()"
proof -
  let ?d = "\<lparr>dv_address = (''bob'', DEVICE_ID), dv_store = sd_empty\<lparr>sd_local := local_row L pb rb\<rparr>\<rparr>"
  have "ids_ok (sd_pre_keys (dv_store ?d))" "sd_local (dv_store ?d) = local_row L pb rb" "sd_pre_keys (dv_store ?d) = []"
    by (simp_all add: sd_empty_def ids_ok_def hm_wf_def)
  with bundle_made [OF assms(1,3), of ?d pb rb] obtain b1 d1 k1 u1 row1 where 1: "bundle_of L g1 ?d = Some (b1, d1)"
    "sd_local (dv_store d1) = local_row L pb rb" "pb_pre_key b1 = Some (k1, u1)" "next_prekey_id (\<lambda>_. None) (dv_store ?d) ''pre_keys'' = Inr k1"
    "sd_pre_keys (dv_store d1) = [(uint k1, row1)]"
    by (auto simp: hm_insert_def)
  have "k1 = 1" using 1(4) by (simp add: next_prekey_id_def prekey_table_def sd_empty_def max_id_plus_one_def)
  then have "ids_ok (sd_pre_keys (dv_store d1))" "\<forall>i \<in> fst ` set (sd_pre_keys (dv_store d1)). i < 2 ^ 32 - 1"
    using 1(5) by (simp_all add: ids_ok_def hm_wf_def)
  with bundle_made [OF assms(1,4) 1(2)] 1(5) obtain b2 d2 k2 u2 where
    2: "bundle_of L g2 d1 = Some (b2, d2)" "pb_pre_key b2 = Some (k2, u2)" "uint k1 < uint k2"
    by auto
  show ?thesis by (simp add: prekey_ids_advance_def opened_new [OF assms(1,2)] 1(1,3) 2(1,2) require_def) (use 2(3) in \<open>simp add: word_less_def\<close>)
qed

lemma changed_identity_test:
  assumes "lib_ok L" and "draw_ok L g" and "draw_ok L g2" and "process_ok L process good"
    and "\<And>d b d'. bundle_of L g d = Some (b, d') \<Longrightarrow> b \<in> good" and "sl_identity_key L pb \<noteq> sl_identity_key L pb2"
  shows "process_bundle_rejects_changed_identity_as_classified_error L process pa ra pb rb g pb2 rb2 g2 = Some ()"
proof -
  let ?k = "sl_identity_key L pb" and ?ser = "kc_serialize (sc_key (sl_codecs L))" and ?a = "(''b'', DEVICE_ID)"
  let ?s = "\<lambda>p r. sd_empty\<lparr>sd_local := local_row L p r\<rparr>"
  let ?d = "\<lambda>n p r. \<lparr>dv_address = (n, DEVICE_ID), dv_store = ?s p r\<rparr>"
  have empty: "ids_ok (sd_pre_keys (dv_store (?d n p r)))" "sd_local (dv_store (?d n p r)) = local_row L p r"
    "\<forall>i \<in> fst ` set (sd_pre_keys (dv_store (?d n p r))). i < 2 ^ 32 - 1" for n p r
    by (simp_all add: sd_empty_def ids_ok_def hm_wf_def)
  obtain b d1 where b: "bundle_of L g (?d ''b'' pb rb) = Some (b, d1)" "pb_identity b = ?k" "sd_local (dv_store d1) = local_row L pb rb"
    using bundle_made [OF assms(1,2) empty(2,1,3), of "''b''" pb rb] empty(2) by auto
  obtain b2 d2 where b2: "bundle_of L g2 (?d ''b'' pb2 rb2) = Some (b2, d2)" "pb_identity b2 = sl_identity_key L pb2"
    using bundle_made [OF assms(1,3) empty(2,1,3), of "''b''" pb2 rb2] by auto
  define s1 where "s1 = snd (process ?a (''a'', DEVICE_ID) b (?s pa ra))"
  have "hm_get (sd_trusted (?s pa ra)) (row_key ?a) = None" by (simp add: sd_empty_def hm_get_def)
  then have "fst (process ?a (''a'', DEVICE_ID) b (?s pa ra)) = Inr ()" and s1_row: "hm_get (sd_trusted s1) (row_key ?a) \<in> {None, Some (?ser ?k)}"
    using assms(4) assms(5) [OF b(1)] unfolding process_ok_def s1_def b(2) [symmetric] by blast+
  then have s1: "process ?a (''a'', DEVICE_ID) b (?s pa ra) = (Inr (), s1)" by (simp add: s1_def prod_eq_iff)
  let ?t = "sd_trusted_update (hm_insert (row_key ?a) (?ser ?k)) s1"
  have "pin L ?a ?k \<lparr>dv_address = (''a'', DEVICE_ID), dv_store = s1\<rparr> = Some \<lparr>dv_address = (''a'', DEVICE_ID), dv_store = ?t\<rparr>"
    using pin_eq [OF assms(1), of "\<lparr>dv_address = (''a'', DEVICE_ID), dv_store = s1\<rparr>" ?a ?k] s1_row by simp
  moreover have "is_trusted_identity (sc_key (sl_codecs L)) (\<lambda>_. None) ?t ?a (pb_identity b2) = Inr False"
    using assms(1,6) b2(2) by (simp add: is_trusted_identity_def with_conn_def query_opt_def hm.get_ins lib_ok_def)
  then have "process ?a (''a'', DEVICE_ID) b2 ?t = (Inl (UntrustedIdentity ?a), ?t)" using assms(4) by (simp add: process_ok_def)
  ultimately show ?thesis
    by (simp add: process_bundle_rejects_changed_identity_as_classified_error_def generated_eq [OF assms(1)] b(1) b2(1) process_bundle_def
        on_store_def s1 key_of_eq [OF assms(1) b(3)] map_signal_err_def require_def Let_def)
qed

lemma first_message_test:
  assumes "keyed_ok keyed" and "tags_apart derive keyed"
  shows "first_message_token_mac derive keyed = Some ()"
proof -
  let ?ct = "test_ciphertext" and ?mac = "\<lambda>b. first_message_mac derive keyed (replicate 48 b) (replicate 32 9)"
  let ?ct' = "?ct[0 := (?ct ! 0) XOR 1]"
  have ok: "isl (verify_first_message_mac derive keyed t b c m) \<longleftrightarrow> m \<noteq> first_message_mac derive keyed t b c" if "length m = 32" for t b c m
    using ct_diff_zero_iff [of m "first_message_mac derive keyed t b c"] that assms(1)
    by (simp add: verify_first_message_mac_def first_message_mac_def keyed_ok_def)
  have len: "length (?mac b c) = 32" for b c using assms(1) by (simp add: first_message_mac_def keyed_ok_def)
  have ct: "length ?ct = 27" "?ct' \<noteq> ?ct" "tl ?ct' = tl ?ct" by (simp_all add: test_ciphertext_def ascii_def)
  have "?mac 7 ?ct \<noteq> ?mac 8 ?ct" using assms(2) by (simp add: tags_apart_def first_message_mac_def Let_def)
  moreover have "?mac 7 ?ct \<noteq> ?mac 7 ?ct'"
  proof
    let ?S = "{ascii ''dc-first-msg-v1'' @ ct | ct. length ct = length ?ct \<and> tl ct = tl ?ct}"
    have inj: "inj_on (keyed (derive_mailbox_secret derive (replicate 48 7) (replicate 32 9) 0)) ?S"
      using assms(2) by (simp only: tags_apart_def Let_def)
    have mem: "ascii ''dc-first-msg-v1'' @ ?ct \<in> ?S" by blast
    have "length ?ct' = length ?ct" by (rule length_list_update)
    then have mem': "ascii ''dc-first-msg-v1'' @ ?ct' \<in> ?S" using ct(3) by blast
    assume "?mac 7 ?ct = ?mac 7 ?ct'"
    then have "ascii ''dc-first-msg-v1'' @ ?ct = ascii ''dc-first-msg-v1'' @ ?ct'"
      unfolding first_message_mac_def by (rule inj_onD [OF inj _ mem mem'])
    then have "?ct' = ?ct" by (simp only: same_append_eq)
    with ct(2) show False by contradiction
  qed
  moreover have "verify_first_message_mac derive keyed t b c (first_message_mac derive keyed t b c) = Inr ()" for t b c
    by (simp add: verify_first_message_mac_def ct_diff_zero_iff)
  ultimately show ?thesis by (simp add: first_message_token_mac_def ok len require_def Let_def)
qed

text \<open>The tests pass for every library that behaves as documented and whenever two devices have different keys.\<close>

theorem store_tests_pass:
  assumes "lib_ok L" and "path \<noteq> '':memory:''" and "sl_identity_key L pb \<noteq> sl_identity_key L pb2" and "draw_ok L g1" and "draw_ok L g2"
  shows "store_tests L path p1 r1 p2 r2 pb rb pb2 rb2 g1 g2 = replicate 5 (Some ())"
proof -
  have "signal_file_requires_key path = Some ()" using assms(2) by (simp add: signal_file_requires_key_def sig_open_def require_def)
  then show ?thesis
    using device_key_tests(1,2,3) [OF assms(1-3)] prekey_id_test [OF assms(1,2,4,5)] by (simp add: store_tests_def numeral_eq_Suc)
qed

theorem session_tests_pass:
  assumes "lib_ok L" and "sl_identity_key L pb \<noteq> sl_identity_key L pb2" and "draw_ok L g" and "draw_ok L g2" and "process_ok L process good"
    and "\<And>d b d'. bundle_of L g d = Some (b, d') \<Longrightarrow> b \<in> good" and "keyed_ok keyed" and "tags_apart derive keyed"
  shows "session_tests L process derive keyed pa ra pb rb g pb2 rb2 g2 = replicate 3 (Some ())"
proof -
  have "process_bundle_rejects_changed_identity_as_classified_error L process pa ra pb rb g pb2 rb2 g2 = Some ()"
    using assms(1-6) by (intro changed_identity_test)
  then show ?thesis
    using device_key_tests(4) [OF assms(1) _ assms(2), of "''f''"] first_message_test [OF assms(7,8)]
    by (simp add: session_tests_def numeral_eq_Suc)
qed

section \<open>What they assume can be met\<close>

lemma demo_lib_laws: "lib_ok demo_lib" "draw_ok demo_lib demo_draw" "process_ok demo_lib ask_only UNIV" "tags_apart sum_derive sum_keyed"
proof -
  show "lib_ok demo_lib" "draw_ok demo_lib demo_draw"
    by (simp_all add: lib_ok_def draw_ok_def demo_lib_def demo_codecs_def demo_key_codec_def demo_rec_codec_def demo_draw_def DEVICE_ID_def)
  show "process_ok demo_lib ask_only UNIV"
    by (auto simp: process_ok_def ask_only_def demo_lib_def demo_codecs_def is_trusted_identity_def with_conn_def query_opt_def intro: trait_refl)
  have eq: "x = y" if "length x = n" "length y = n" "0 < n" "tl x = z" "tl y = z" "sum_list x = sum_list y" for x y z :: bytes and n
    using that by (cases x; cases y) auto
  have "0 < length test_ciphertext" by (simp add: test_ciphertext_def ascii_def)
  note eq = eq [OF _ _ this]
  have "inj_on (sum_keyed k) {ascii ''dc-first-msg-v1'' @ ct | ct. length ct = length test_ciphertext \<and> tl ct = tl test_ciphertext}" for k
  proof (rule inj_onI)
    fix m m'
    assume in_m: "m \<in> {ascii ''dc-first-msg-v1'' @ ct | ct. length ct = length test_ciphertext \<and> tl ct = tl test_ciphertext}"
      and in_m': "m' \<in> {ascii ''dc-first-msg-v1'' @ ct | ct. length ct = length test_ciphertext \<and> tl ct = tl test_ciphertext}"
      and same: "sum_keyed k m = sum_keyed k m'"
    from in_m in_m' obtain x y where m: "m = ascii ''dc-first-msg-v1'' @ x" "m' = ascii ''dc-first-msg-v1'' @ y" and *:
      "length x = length test_ciphertext" "tl x = tl test_ciphertext" "length y = length test_ciphertext" "tl y = tl test_ciphertext"
      by blast
    from same have "sum_list x = sum_list y" by (simp add: m sum_keyed_def replicate_eq_replicate)
    then have "x = y" by (rule eq [OF *(1,3,2,4)])
    then show "m = m'" by (simp add: m)
  qed
  then show "tags_apart sum_derive sum_keyed"
    by (simp add: tags_apart_def Let_def)
      (simp add: sum_keyed_def replicate_eq_replicate sum_derive_def derive_mailbox_secret_def mailbox_material_def sum_list_replicate)
qed

theorem session_tests_run:
  "store_tests demo_lib ''signal.db'' [1] [] [2] [] [3] [] [4] [] demo_draw demo_draw = replicate 5 (Some ())
    \<and> session_tests demo_lib ask_only sum_derive sum_keyed [1] [] [3] [] demo_draw [4] [] demo_draw = replicate 3 (Some ())"
proof
  show "store_tests demo_lib ''signal.db'' [1] [] [2] [] [3] [] [4] [] demo_draw demo_draw = replicate 5 (Some ())"
    by (rule store_tests_pass [OF demo_lib_laws(1) _ _ demo_lib_laws(2,2)]) (simp_all add: demo_lib_def)
  show "session_tests demo_lib ask_only sum_derive sum_keyed [1] [] [3] [] demo_draw [4] [] demo_draw = replicate 3 (Some ())"
    by (rule session_tests_pass [OF demo_lib_laws(1) _ demo_lib_laws(2,2,3) _ _ demo_lib_laws(4)])
      (simp_all add: demo_lib_def keyed_ok_def sum_keyed_def)
qed

end
