(* ===== verification/Spec2Isabelle.thy ===== *)
theory Spec2Isabelle
  imports Envelope Identity Entropy_Pool Mailbox Relay Nodekey Retry Queue_Db Clock Adaptive Settings Ffi Governor Timed_Gate
    Smoke E2e_Demo Messaging Curve Clock_Tests Load_Tests Message_Tests
    Key_Tests Store_Tests Node_Tests Session_Tests
begin

text \<open>
  Verification of the core crate of Mesui (\<^verbatim>\<open>src/crates/core\<close>), a decentralised messenger: devices find
  each other by scanned codes, exchange end-to-end encrypted messages over direct connections and
  mailboxes, and relay for strangers within a budget. File names below are those of
  \<^verbatim>\<open>src/crates/core/src\<close>.

  \<^bold>\<open>Parts and how they interact.\<close> The application calls the surface (\<^verbatim>\<open>ffi.rs\<close>), which drives the session layer
  (\<^verbatim>\<open>handshake.rs\<close>), the contact store (\<^verbatim>\<open>contacts.rs\<close>) and the node (\<^verbatim>\<open>node.rs\<close>). The session layer keeps
  its keys in the signal store (\<^verbatim>\<open>signal_store.rs\<close>). Outgoing messages wait in the queue (\<^verbatim>\<open>queue.rs\<close>) and are
  rescheduled by the retry policy (\<^verbatim>\<open>retry.rs\<close>); incoming bucket writes pass the mailbox gate
  (\<^verbatim>\<open>mailbox.rs\<close>), relayed tickets the replay guard (\<^verbatim>\<open>relay.rs\<close>), stream frames the duplicate filter
  (\<^verbatim>\<open>envelope.rs\<close>). The times of the checks come from the internal clock (\<^verbatim>\<open>clock.rs\<close>), node keys are announced
  under the long-term identity (\<^verbatim>\<open>nodekey.rs\<close>, \<^verbatim>\<open>identity.rs\<close>), and the governor and the policy engine
  (\<^verbatim>\<open>governor.rs\<close>, \<^verbatim>\<open>adaptive.rs\<close>) bound the load.

  \<^bold>\<open>Theories.\<close>
  \<^item> \<open>Prelude\<close>: machine integers, \<^verbatim>\<open>CoreError\<close> and \<^verbatim>\<open>Result\<close> (\<^verbatim>\<open>lib.rs\<close>), hash maps and their interface, the
    locale \<open>hash_map\<close>. \<open>Strings\<close>: the formatting and splitting the printers and parsers use. \<open>Floats\<close>: rounding to
    53 and 24 bits, with the locale \<open>rounding\<close>. \<open>Sql\<close>: tables, statements and the quoting of the key.
  \<^item> \<open>Replay\<close>: the locale \<open>replay_guard\<close>, the contract of everything that must let an input through once.
    It is interpreted on \<^verbatim>\<open>Dedup\<close>, \<^verbatim>\<open>NonceCache\<close>, \<^verbatim>\<open>RelayGuard\<close> and the table of delivered ids.
  \<^item> \<open>Envelope\<close> (\<^verbatim>\<open>envelope.rs\<close>): CBOR wrapping, frames, compression, \<^verbatim>\<open>Dedup\<close>; the filter refines a sliding
    window.
  \<^item> \<open>Identity\<close> (\<^verbatim>\<open>identity.rs\<close>): key pairs, fingerprints; the locale \<open>signed_object\<close>, interpreted on tickets and on
    announcements. \<open>Entropy_Pool\<close> (\<^verbatim>\<open>entropy.rs\<close>): the harvester.
  \<^item> \<open>Mailbox\<close> (\<^verbatim>\<open>mailbox.rs\<close>): sealing and verifying bucket writes, the ledger of message ids, the inbound path; a
    write is accepted at most once, in its window only, and altering it is a collision of the hash.
  \<^item> \<open>Relay\<close> (\<^verbatim>\<open>relay.rs\<close>): tickets and the bounded replay table; what a flood of tickets cannot do, and the two
    schedules in which a ticket does pass twice.
  \<^item> \<open>Nodekey\<close> (\<^verbatim>\<open>nodekey.rs\<close>): announcements and the key ring; serials never roll back, the ring is bounded and
    authentic, and it survives an export.
  \<^item> \<open>Retry\<close>, \<open>Queue_Db\<close> (\<^verbatim>\<open>retry.rs\<close>, \<^verbatim>\<open>queue.rs\<close>): back-off bounds; the outbox loses no message, returns exactly
    what is due and kills a message exactly at its limit.
  \<^item> \<open>Clock\<close> (\<^verbatim>\<open>clock.rs\<close>): network adoption, the peer cluster (exactly the first of the longest chains), the high-water mark, and
    what a rollback of the system clock can and cannot do.
  \<^item> \<open>Adaptive\<close> (\<^verbatim>\<open>adaptive.rs\<close>): load tiers. \<open>Governor\<close> (\<^verbatim>\<open>governor.rs\<close>): the share curves in floating point, prices and
    token buckets; the share keeps its bounds, no burst exceeds the price, everybody gets six messages a minute.
  \<^item> \<open>Node_Net\<close> (\<^verbatim>\<open>node.rs\<close>): address snapshots with their codings, start and stop, sending and receiving.
  \<^item> \<open>Contacts\<close> (\<^verbatim>\<open>contacts.rs\<close>): contact list and chat log. \<open>Settings\<close> (\<^verbatim>\<open>settings.rs\<close>): the settings file.
  \<^item> \<open>Signal_Store\<close> (\<^verbatim>\<open>signal_store.rs\<close>): the five store traits; the pin of first contact is permanent, records are
    read back (locale \<open>keyed_store\<close>, interpreted on the four record tables). \<open>Handshake\<close> (\<^verbatim>\<open>handshake.rs\<close>):
    devices, prekey bundles, sessions, safety numbers, the tag of the first message, the wire form.
  \<^item> \<open>Ffi\<close> (\<^verbatim>\<open>ffi.rs\<close>): error mapping and the calls of the application; a scanned bundle is the shown one. \<open>Smoke\<close>: the
    version strings and the smoke test of the same file, with its exact result.
  \<^item> \<open>Delivery\<close>, \<open>E2e_Demo\<close> (\<^verbatim>\<open>crates/core/examples/e2e_demo.rs\<close>): the sender's tick and the receiver's loop over queue,
    frames and mailbox, then the whole program act by act; the receiver, with any outcome of its calls, files
    authentic writes once and panics exactly when a call fails, nothing is due after a failed tick, and, when the
    libraries, the databases and the transport work, no \<^verbatim>\<open>unwrap\<close> or \<^verbatim>\<open>assert\<close> of the program fails.
  \<^item> \<open>Messaging\<close>: the composition of both ends. A system of a sending application on the outbox, a channel in the hands of
    an attacker and a receiver with mailbox gate and table of delivered ids, its steps in any order and with
    failing databases: messages arrive once and unaltered, the outbox keeps each of them, and one that waits can be
    delivered in every state. That the attacker cannot make a valid tag is the hypothesis \<open>unforged\<close> on what he brings
    in; the receiver does not prune its table. The application marks messages as sent when it likes: the receiver
    answers every stream, whatever its verdict, and the library does not tie \<^verbatim>\<open>mark_sent\<close> to an answer, so
    nothing is claimed about what the mark means.
  \<^item> \<open>Curve\<close>: the share of the governor against its exact curve; one percent of battery never makes a cliff.
  \<^item> \<open>Clock_Tests\<close>, \<open>Load_Tests\<close> (\<^verbatim>\<open>adaptive.rs\<close>, \<^verbatim>\<open>retry.rs\<close>, \<^verbatim>\<open>governor.rs\<close>), \<open>Message_Tests\<close> (\<^verbatim>\<open>envelope.rs\<close>, \<^verbatim>\<open>queue.rs\<close>,
    \<^verbatim>\<open>mailbox.rs\<close>), \<open>Key_Tests\<close> (\<^verbatim>\<open>identity.rs\<close>, \<^verbatim>\<open>nodekey.rs\<close>, \<^verbatim>\<open>relay.rs\<close>), \<open>Store_Tests\<close> (\<^verbatim>\<open>contacts.rs\<close>, \<^verbatim>\<open>settings.rs\<close>),
    \<open>Node_Tests\<close>, \<open>Session_Tests\<close> (\<^verbatim>\<open>signal_store.rs\<close>, \<^verbatim>\<open>handshake.rs\<close>): the unit tests of the crate as definitions, statement by
    statement, and that they pass on the model, for all random bytes and iteration orders and for every library that
    behaves as documented and keeps the values the tests compare apart.
  \<^item> \<open>Timed_Gate\<close>: runs in which writes arrive while time sources correct the clock; no reading falls back by more
    than two minutes while only they change the offset and no adopted offset ends.
  \<^item> This theory: what follows for the mailbox gate under the internal clock. It accepts a write once through
    rollbacks of the system clock and through corrections by time sources, and twice when an adopted offset ends
    or when a vote of the contacts sets the clock back.

  \<^bold>\<open>Conventions.\<close> A struct is a record, \<^verbatim>\<open>&mut self\<close> an argument returned updated, \<^verbatim>\<open>Result\<close> a sum with the error on the
  left. \<open>None\<close> around a result is a panic: an overflow of plain arithmetic in a build with overflow checks, or a
  division by zero. Loops are recursive functions with a measure, so there is no fuel; the two eviction
  loops of the replay guard are also written as they stand, as partial functions where not ending is \<open>None\<close>, and
  shown to return within a stated number of turns. The step relations
  (\<open>clock_step\<close>, \<open>gov_reach\<close> and those of the stores and devices) range over all operations in any order.

  \<^bold>\<open>Parameters.\<close> Code outside the repository is an argument of the definitions that use it: the signatures, hashes
  and codings (\<open>ed25519_ok\<close>, \<open>keyed_ok\<close>, \<open>codec_ok\<close> and their like state what the code relies on), random bytes, the
  outcome of every call to the database, the file system and the network, the iteration order of a hash map
  (\<open>iter_ok\<close>: each entry once), and the entry points of the Signal library. Every such hypothesis holds in a witness.

  \<^bold>\<open>Bounds.\<close> Time arguments are kept at their width; where a theorem needs room it says how much (fourteen
  minutes below the end of \<^verbatim>\<open>u64\<close> for the mailbox, half an hour above \<^verbatim>\<open>i64::MIN\<close> for the clock). Floating-point
  numbers have their 53 or 24 bits but unbounded exponents: the governor's numbers are far inside the range.

  The receiver of the example program reads 64 KiB of a stream at most; longer ones are panics of its loop.

  \<^bold>\<open>Not modelled.\<close> The generated bindings of the surface and the callback adapter that only passes messages on, the
  threads of the network runtime (the operations are atomic steps), the inside of the Signal library, the
  printed lines, the temporary directory and the endpoint set-up of the example program, the unit tests
  whose outcome is random or only that of a library (jitter, entropy, safety number, compression, sessions of the Signal
  library, a wrong database key, the running network), the test programs,
  and the Android application, which is written in another language.
\<close>

section \<open>The mailbox gate under the internal clock\<close>

text \<open>
  A clock that two agreeing time sources moved forward three times by two minutes, each time as far
  and as early as the adoption rule allows. The adopted offset stays fresh until 22800000.
\<close>

definition drifted :: clock where
  "drifted = foldl (\<lambda>c op. clock_apply op c) clock_new
     [Sync 1 0 120000, Sync 2 0 120000, Now 0,
      Sync 1 600000 840000, Sync 2 600000 840000, Now 600000,
      Sync 1 1200000 1560000, Sync 2 1200000 1560000, Now 1200000]"

text \<open>A short run: a reading, two agreeing sources that set the clock back by two minutes, two more readings.\<close>

abbreviation set_back_run :: "gate_event list" where
  "set_back_run \<equiv> [Arrive demo_write 86400000, Adjust (Sync 1 86400000 86280000), Adjust (Sync 2 86400000 86280000),
     Arrive demo_write 86400000, Arrive demo_write 86410000]"


lemma set_back_steps:
  "restore_high_water clock_new 7 = clock_new\<lparr>ck_internal_high_water_ms := 7\<rparr>"
  "now (clock_new\<lparr>ck_internal_high_water_ms := 7\<rparr>) 86400000 = Some (86400000,
     clock_new\<lparr>ck_internal_high_water_ms := 86400000, ck_local_high_water_ms := 86400000\<rparr>)"
  "on_network_sync (clock_new\<lparr>ck_internal_high_water_ms := 86400000, ck_local_high_water_ms := 86400000\<rparr>)
     1 86400000 86280000
   = Some (clock_new\<lparr>ck_internal_high_water_ms := 86400000, ck_local_high_water_ms := 86400000,
       ck_pending_network := Some (1, - 120000)\<rparr>)"
  "on_network_sync (clock_new\<lparr>ck_internal_high_water_ms := 86400000, ck_local_high_water_ms := 86400000,
       ck_pending_network := Some (1, - 120000)\<rparr>) 2 86400000 86280000
   = Some (clock_new\<lparr>ck_internal_high_water_ms := 86400000, ck_local_high_water_ms := 86400000,
       ck_pending_network := None, ck_network_offset_ms := Some (- 120000), ck_network_fresh_until := 108000000,
       ck_last_network_adopted_at := 86400000\<rparr>)"
  "now (clock_new\<lparr>ck_internal_high_water_ms := 86400000, ck_local_high_water_ms := 86400000,
       ck_pending_network := None, ck_network_offset_ms := Some (- 120000), ck_network_fresh_until := 108000000,
       ck_last_network_adopted_at := 86400000\<rparr>) 86400000
   = Some (86280000, clock_new\<lparr>ck_internal_high_water_ms := 86280000, ck_local_high_water_ms := 86400000,
       ck_pending_network := None, ck_network_offset_ms := Some (- 120000), ck_network_fresh_until := 108000000,
       ck_last_network_adopted_at := 86400000, ck_last_offset_ms := - 120000\<rparr>)"
  by (simp_all add: restore_high_water_def MAX_PLAUSIBLE_MS_def min_def max_def clock_eval PEER_QUORUM_def
      signed_divide_int_def)

lemma set_back_offset: "effective_offset (clock_new\<lparr>ck_internal_high_water_ms := 7\<rparr>) 86400000 = Some 0"
  "ck_last_offset_ms clock_new = 0"
  by (simp_all add: clock_eval PEER_QUORUM_def)


text \<open>
  C12. Setting the system clock back does not let an old write in again: while the offset of the internal
  clock stays the same, the mailbox gate fed with the readings of that clock accepts every write at most
  once, whatever local times, decreasing ones included, the writes arrive at.
\<close>

theorem clock_rollback_does_not_replay:
  assumes "clock_reach c" and "\<forall>(w, l) \<in> set ws. in_i64 l \<and> effective_offset c l = Some (ck_last_offset_ms c)"
  shows "distinct (map write_key (accepted (inbound_step keyed secret) (nc_new cap) (at_internal_time c ws)))"
  using internal_times_sorted [OF assms] by (auto intro: inbound_accepts_once nc_new_inv sorted_near)

lemma drifted_eq: "drifted = clock_new\<lparr>ck_network_offset_ms := Some 360000, ck_network_fresh_until := 22800000,
    ck_last_network_adopted_at := 1200000, ck_internal_high_water_ms := 1560000, ck_local_high_water_ms := 1200000,
    ck_last_offset_ms := 360000\<rparr>"
  by (simp add: drifted_def clock_eval signed_divide_int_def)

lemma drifted_reach: "clock_reach drifted"
  unfolding drifted_def by (rule clock_reach_ops) (simp_all add: in_i64_def i64_min_def i64_max_def)

theorem clock_rollback_does_not_replay_witness:
  "distinct (map write_key (accepted (inbound_step demo_keyed []) (nc_new 10)
     (at_internal_time drifted [(demo_write, 9000000), (demo_write, 100)])))"
  by (rule clock_rollback_does_not_replay [OF drifted_reach])
    (simp add: drifted_eq effective_offset_def in_i64_def i64_min_def i64_max_def)

lemma drifted_times:
  "at_internal_time drifted [(w, 22260000), (w', 22800000), (w, 22800001)]
     = [(w, 22620000), (w', 23160000), (w, 22800001)]"
  by (simp add: drifted_eq clock_eval)

text \<open>
  C32. The end of an adopted offset opens the gate again. After two agreeing sources moved the clock by
  three times two minutes, and with local times that only go forward, one write is accepted, dropped from
  the ledger nine minutes later, and accepted a second time when the offset has expired and the internal
  clock has gone back by six minutes.
\<close>

theorem expired_offset_lets_a_write_in_twice:
  assumes "keyed_ok keyed" and "env_msg_id e \<noteq> env_msg_id e'"
    and w: "w = seal keyed e secret s 22620000 n" and w': "w' = seal keyed e' secret s' 23160000 n'"
  shows "clock_reach drifted
    \<and> map fst (accepted (inbound_step keyed secret) (nc_new cap)
        (at_internal_time drifted [(w, 22260000), (w', 22800000), (w, 22800001)])) = [w, w', w]"
  using assms(1,2) drifted_reach
  unfolding drifted_times
  by (simp add: w w' seal_accepted nc_step_def nc_check_and_insert_def Let_def nc_retain_def nc_new_def hm_values_def
      hm_contains_def hm_get_def hm_insert_def hm_retain_def hm_len_def REPLAY_WINDOW_MS_def SKEW_MS_def sat_add_def chk_add_def)

text \<open>
  Three trusted contacts, whose clocks are ten minutes behind, exchange times between two arrivals.
\<close>

abbreviation outvoted_run :: "bucket_write \<Rightarrow> bucket_write \<Rightarrow> gate_event list" where
  "outvoted_run w w' \<equiv> Arrive w 100000000 # Arrive w' 100540000 #
     concat (map (\<lambda>k. [Adjust (Trust [k]), Adjust (Exchange [k] 100540000 99940000 99940000 100540000)]) [1, 2, 3])
     @ [Arrive w 100540001]"

lemma vote_back_step:
  "snd (on_peer_exchange (trust_peer c p) p 100540000 99940000 99940000 100540000)
    = c\<lparr>ck_trusted_peers := hm_insert p () (ck_trusted_peers c),
        ck_peers := hm_insert p \<lparr>ps_offset_ms = - 600000, ps_at_local_ms = 100540000\<rparr> (ck_peers c)\<rparr>"
  by (simp add: on_peer_exchange_def is_trusted_def trust_peer_def hm_contains_def hm.get_ins clamp_int_def clock_consts
      i64_sat_def i64_min_def i64_max_def signed_divide_int_def)

lemma outvoted_times:
  "gate_times clock_new (outvoted_run w w') = [(w, 100000000), (w', 100540000), (w, 99940001)]"
proof -
  let ?c = "clock_new\<lparr>ck_internal_high_water_ms := 100540000, ck_local_high_water_ms := 100540000\<rparr>"
  have first: "now clock_new 100000000 = Some (100000000,
      clock_new\<lparr>ck_internal_high_water_ms := 100000000, ck_local_high_water_ms := 100000000\<rparr>)"
    "now (clock_new\<lparr>ck_internal_high_water_ms := 100000000, ck_local_high_water_ms := 100000000\<rparr>) 100540000 = Some (100540000, ?c)"
    by (simp_all add: clock_eval PEER_QUORUM_def)
  have last: "now (?c\<lparr>ck_trusted_peers := ts,
       ck_peers := map (\<lambda>k. ([k], \<lparr>ps_offset_ms = - 600000, ps_at_local_ms = 100540000\<rparr>)) [1, 2, 3]\<rparr>) 100540001
     = Some (99940001, ?c\<lparr>ck_trusted_peers := ts,
       ck_peers := map (\<lambda>k. ([k], \<lparr>ps_offset_ms = - 600000, ps_at_local_ms = 100540000\<rparr>)) [1, 2, 3],
       ck_local_high_water_ms := 100540001, ck_last_offset_ms := - 600000, ck_internal_high_water_ms := 99940001\<rparr>)" for ts
    by (simp add: clock_eval)
  have peers: "hm_insert [3] x (hm_insert [2] x (hm_insert [1] x (ck_peers ?c))) = map (\<lambda>k. ([k], x)) [1, 2, 3]" for x
    by (simp add: hm_insert_def clock_new_def clock_default_def)
  show ?thesis
    using first last peers by (simp add: vote_back_step i64_as_u64_def)
qed

text \<open>
  A vote of the contacts opens the gate as well: nothing limits how far or how fast it moves the clock within a
  day. On a clock without network time, one write is accepted, dropped from the ledger nine minutes later, and
  accepted a second time when three trusted contacts have set the clock back by ten minutes.
\<close>

theorem contacts_vote_lets_a_write_in_twice:
  assumes "keyed_ok keyed" and "env_msg_id e \<noteq> env_msg_id e'"
    and w: "w = seal keyed e secret s 100000000 n" and w': "w' = seal keyed e' secret s' 100540000 n'"
  shows "map fst (accepted (inbound_step keyed secret) (nc_new cap) (gate_times clock_new (outvoted_run w w'))) = [w, w', w]"
  using assms(1,2)
  unfolding outvoted_times
  by (simp add: w w' seal_accepted nc_step_def nc_check_and_insert_def Let_def nc_retain_def nc_new_def hm_values_def
      hm_contains_def hm_get_def hm_insert_def hm_retain_def hm_len_def REPLAY_WINDOW_MS_def SKEW_MS_def sat_add_def chk_add_def)

theorem expired_offset_lets_a_write_in_twice_witness:
  "map fst (accepted (inbound_step demo_keyed []) (nc_new 10)
      (at_internal_time drifted [(seal demo_keyed demo_env [] 1 22620000 [], 22260000),
        (seal demo_keyed (demo_env\<lparr>env_msg_id := replicate 16 9\<rparr>) [] 1 23160000 [], 22800000),
        (seal demo_keyed demo_env [] 1 22620000 [], 22800001)]))
    = [seal demo_keyed demo_env [] 1 22620000 [], seal demo_keyed (demo_env\<lparr>env_msg_id := replicate 16 9\<rparr>) [] 1 23160000 [],
       seal demo_keyed demo_env [] 1 22620000 []]"
  using expired_offset_lets_a_write_in_twice [OF demo_keyed_ok _ refl refl, of demo_env "demo_env\<lparr>env_msg_id := replicate 16 9\<rparr>"]
  by (simp add: demo_env_def)

end
